(* ===== verification/Prelude.thy ===== *)
theory Prelude
  imports Main "HOL-Library.Word" "HOL-Library.Monad_Syntax"
begin

text \<open>
  Shared vocabulary of the development.

  \<^item> Results. A C++ operation that may run into undefined behaviour (an index past the end of
    a vector, \<open>front()\<close> of an empty queue, a read past the end of a buffer) is a function
    into \<open>option\<close>: \<open>None\<close> is undefined behaviour, \<open>Some\<close> is the defined
    outcome. The \<open>do\<close>-notation of the option monad sequences the statements.
  \<^item> Vectors. \<open>std::vector\<close> is a list; \<open>v[i]\<close> and \<open>v[i] = x\<close> are
    \<open>vget\<close> and \<open>vset\<close>, which are \<open>None\<close> out of range. An index is an
    \<open>int\<close>, as in the code, because \<open>-1\<close> is used as a sentinel.
  \<^item> Unordered sets. \<open>std::unordered_set<int>\<close> is an \<open>int set\<close>. Its iteration
    order is not specified by the language, so every operation that iterates takes an
    \<open>uorder\<close>, an arbitrary function that lists each finite set without repetition.
  \<^item> Integers. \<open>u64\<close>, \<open>u32\<close> and \<open>i32\<close> are the conversions to the C++ types
    \<open>size_t\<close>, \<open>unsigned int\<close> and \<open>int\<close>.
\<close>

named_theorems vec_simps \<open>rewriting of vector reads and writes\<close>

named_theorems inv_intros \<open>operations preserve the invariant of their component\<close>

type_synonym byte = "8 word"
type_synonym bytes = "byte list"

section \<open>Vectors\<close>

definition in_range :: "'a list \<Rightarrow> int \<Rightarrow> bool" where
  "in_range xs i \<longleftrightarrow> 0 \<le> i \<and> i < int (length xs)"

definition vget :: "'a list \<Rightarrow> int \<Rightarrow> 'a option" where
  "vget xs i = (if in_range xs i then Some (xs ! nat i) else None)"

definition vset :: "'a list \<Rightarrow> int \<Rightarrow> 'a \<Rightarrow> 'a list option" where
  "vset xs i x = (if in_range xs i then Some (xs[nat i := x]) else None)"

definition vmod :: "'a list \<Rightarrow> int \<Rightarrow> ('a \<Rightarrow> 'a) \<Rightarrow> 'a list option" where
  "vmod xs i f = (if in_range xs i then Some (xs[nat i := f (xs ! nat i)]) else None)"

text \<open>\<open>v.resize(n)\<close> with \<open>d\<close> the value-initialised element.\<close>

definition vresize :: "nat \<Rightarrow> 'a \<Rightarrow> 'a list \<Rightarrow> 'a list" where
  "vresize n d xs = take n xs @ replicate (n - length xs) d"

lemma vget_eq_Some: "vget xs i = Some x \<longleftrightarrow> in_range xs i \<and> x = xs ! nat i"
  by (auto simp: vget_def)

lemma vget_eq_None: "vget xs i = None \<longleftrightarrow> \<not> in_range xs i"
  by (auto simp: vget_def)

lemma vget_in_range: "in_range xs i \<Longrightarrow> vget xs i = Some (xs ! nat i)"
  by (simp add: vget_def)

lemma vset_eq_Some: "vset xs i x = Some ys \<longleftrightarrow> in_range xs i \<and> ys = xs[nat i := x]"
  by (auto simp: vset_def)

lemma vset_in_range: "in_range xs i \<Longrightarrow> vset xs i x = Some (xs[nat i := x])"
  by (simp add: vset_def)

lemma vmod_eq_Some:
  "vmod xs i f = Some ys \<longleftrightarrow> in_range xs i \<and> ys = xs[nat i := f (xs ! nat i)]"
  by (auto simp: vmod_def)

lemma vmod_in_range: "in_range xs i \<Longrightarrow> vmod xs i f = Some (xs[nat i := f (xs ! nat i)])"
  by (simp add: vmod_def)

lemma in_range_update [simp]: "in_range (xs[j := x]) i = in_range xs i"
  by (simp add: in_range_def)

lemma in_range_nat: "in_range xs i \<Longrightarrow> nat i < length xs"
  by (auto simp: in_range_def)

lemma in_range_mono: "in_range xs i \<Longrightarrow> length xs \<le> length ys \<Longrightarrow> in_range ys i"
  by (auto simp: in_range_def)

lemma in_range_append [simp]: "in_range (xs @ [y]) (int (length xs))"
  by (simp add: in_range_def)

text \<open>A write is read back, and only the written index changes.\<close>

lemma vget_update:
  "in_range xs i \<Longrightarrow> vget (xs[nat i := x]) j = (if j = i then Some x else vget xs j)"
  by (auto simp: vget_def in_range_def nat_eq_iff)

lemma vget_append:
  "vget (xs @ [y]) j = (if j = int (length xs) then Some y else vget xs j)"
  by (auto simp: vget_def in_range_def nth_append)

lemma nth_nat_update:
  "in_range xs i \<Longrightarrow> in_range xs j \<Longrightarrow>
     xs[nat i := x] ! nat j = (if i = j then x else xs ! nat j)"
  by (auto simp: in_range_def nth_list_update nat_eq_iff)

lemma length_vresize [simp]: "length (vresize n d xs) = n"
  by (simp add: vresize_def)

lemma vresize_take: "n \<le> length xs \<Longrightarrow> vresize n d xs = take n xs"
  by (simp add: vresize_def)

lemmas [vec_simps] = vget_in_range vset_in_range vmod_in_range vget_update vget_append
  nth_nat_update

section \<open>Unordered sets\<close>

typedef uorder = "{f :: int set \<Rightarrow> int list. \<forall>S. finite S \<longrightarrow> set (f S) = S \<and> distinct (f S)}"
  morphisms uord_list Uorder
  by (intro exI [of _ sorted_list_of_set]) auto

setup_lifting type_definition_uorder

definition cbegin :: "uorder \<Rightarrow> int set \<Rightarrow> int" where
  "cbegin ord S = hd (uord_list ord S)"

lemma set_uord_list [simp]: "finite S \<Longrightarrow> set (uord_list ord S) = S"
  using uord_list [of ord] by simp

lemma distinct_uord_list [simp]: "finite S \<Longrightarrow> distinct (uord_list ord S)"
  using uord_list [of ord] by simp

lemma uord_list_single [simp]: "uord_list ord {i} = [i]"
proof -
  have s: "set (uord_list ord {i}) = {i}" "distinct (uord_list ord {i})" by simp_all
  then have "length (uord_list ord {i}) = 1" by (metis One_nat_def card.empty card.insert distinct_card
      empty_iff finite.emptyI)
  then show ?thesis using s(1) by (cases "uord_list ord {i}") auto
qed

lemma cbegin_in: "finite S \<Longrightarrow> S \<noteq> {} \<Longrightarrow> cbegin ord S \<in> S"
  unfolding cbegin_def by (metis hd_in_set list.set(1) set_uord_list)

text \<open>The ascending order, that of \<open>std::set\<close>; the concrete runs use it.\<close>

lift_definition ascending :: uorder is sorted_list_of_set
  by simp

lemma uord_list_ascending [simp]: "uord_list ascending S = sorted_list_of_set S"
  by transfer simp

lemma cbegin_ascending: "finite S \<Longrightarrow> S \<noteq> {} \<Longrightarrow> cbegin ascending S = Min S"
  by (simp add: cbegin_def sorted_list_of_set_nonempty)

section \<open>Integer conversions\<close>

definition u64 :: "int \<Rightarrow> int" where
  "u64 x = x mod 2 ^ 64"

definition u32 :: "int \<Rightarrow> int" where
  "u32 x = x mod 2 ^ 32"

definition i32 :: "int \<Rightarrow> int" where
  "i32 x = (x + 2 ^ 31) mod 2 ^ 32 - 2 ^ 31"

lemma u64_small: "0 \<le> x \<Longrightarrow> x < 2 ^ 64 \<Longrightarrow> u64 x = x"
  by (simp add: u64_def)

lemma u32_small: "0 \<le> x \<Longrightarrow> x < 2 ^ 32 \<Longrightarrow> u32 x = x"
  by (simp add: u32_def)

lemma i32_small: "- (2 ^ 31) \<le> x \<Longrightarrow> x < 2 ^ 31 \<Longrightarrow> i32 x = x"
  by (simp add: i32_def)

lemma u64_nonneg: "0 \<le> u64 x"
  by (simp add: u64_def)

lemma u32_bounds: "0 \<le> u32 x" "u32 x < 2 ^ 32"
  by (simp_all add: u32_def)

section \<open>The option monad\<close>

lemma bind_Some_iff:
  "Option.bind m f = Some y \<longleftrightarrow> (\<exists>x. m = Some x \<and> f x = Some y)"
  by (cases m) auto

lemma bind_SomeE: "Option.bind m f = Some y \<Longrightarrow> (\<And>x. m = Some x \<Longrightarrow> f x = Some y \<Longrightarrow> thesis) \<Longrightarrow> thesis"
  by (cases m) auto

end
