(* ===== verification/Data_Store.thy ===== *)
theory Data_Store
  imports Prelude
begin

text \<open>
  The reference-counted stores of \<open>header/data_store.h\<close>.

  \<open>data_store\<close> owns byte vectors, \<open>data_store_raw\<close> owns \<open>malloc\<close>ed pointers; both
  keep a vector of (value, remaining uses) and the set of free indexes. The locale
  \<open>refcount_store\<close> states what a client relies on: a live item keeps its value and loses
  one use per \<open>free_item\<close>, other items are not touched, and an inserted item gets an index
  that was not live. Both stores interpret it. The store's own bookkeeping invariant is
  \<open>slots_inv\<close>.
\<close>

section \<open>Taking a slot\<close>

text \<open>
  The index selection that \<open>allocate_item\<close>, \<open>make_item\<close> and \<open>insert_item\<close> share:
  a free index if there is one, else a new element at the end.
\<close>

definition take_slot :: "uorder \<Rightarrow> int set \<Rightarrow> 'a list \<Rightarrow> 'a \<Rightarrow> int \<times> int set \<times> 'a list" where
  "take_slot ord F xs d =
     (if F \<noteq> {} then (let idx = cbegin ord F in (idx, F - {idx}, xs))
      else (int (length xs), F, xs @ [d]))"

section \<open>Class data_store\<close>

record data_store =
  data_vec :: "(bytes \<times> int) list"
  free_idxs :: "int set"

definition empty_store :: data_store where
  "empty_store = \<lparr>data_vec = [], free_idxs = {}\<rparr>"

definition free_item :: "data_store \<Rightarrow> int \<Rightarrow> data_store option" where
  "free_item st idx = do {
     (b, uses) \<leftarrow> vget (data_vec st) idx;
     let uses' = uses - 1;
     if uses' = 0 then do {
       v \<leftarrow> vset (data_vec st) idx ([], -1);
       Some (st\<lparr>data_vec := v, free_idxs := insert idx (free_idxs st)\<rparr>)
     } else do {
       v \<leftarrow> vset (data_vec st) idx (b, uses');
       Some (st\<lparr>data_vec := v\<rparr>)
     }
   }"

text \<open>
  \<open>make_item\<close> resizes the slot's vector and never stores \<open>uses\<close>; it returns the size
  and the index.
\<close>

definition make_item :: "uorder \<Rightarrow> data_store \<Rightarrow> nat \<Rightarrow> int \<Rightarrow> (data_store \<times> nat \<times> int) option" where
  "make_item ord st sz uses = (
     let (idx, F, vec) = take_slot ord (free_idxs st) (data_vec st) ([], 0)
     in do {
       vec' \<leftarrow> vmod vec idx (\<lambda>(b, u). (vresize sz 0 b, u));
       Some (st\<lparr>data_vec := vec', free_idxs := F\<rparr>, sz, idx)
     })"

definition insert_item ::
    "uorder \<Rightarrow> data_store \<Rightarrow> bytes \<Rightarrow> int \<Rightarrow> (data_store \<times> bytes \<times> int) option" where
  "insert_item ord st buff uses = (
     let (idx, F, vec) = take_slot ord (free_idxs st) (data_vec st) ([], 0)
     in do {
       vec' \<leftarrow> vset vec idx (buff, uses);
       Some (st\<lparr>data_vec := vec', free_idxs := F\<rparr>, buff, idx)
     })"

definition get_item :: "data_store \<Rightarrow> int \<Rightarrow> bytes option" where
  "get_item st idx = map_option fst (vget (data_vec st) idx)"

section \<open>Class data_store_raw\<close>

text \<open>
  A \<open>void*\<close> is a number, \<open>0\<close> the null pointer. \<open>allocate_item\<close> takes the address
  that \<open>malloc\<close> returned; \<open>raw_free_item\<close> also returns the pointer it handed to
  \<open>free\<close>, if any.
\<close>

record data_store_raw =
  raw_vec :: "(nat \<times> int) list"
  raw_free_idxs :: "int set"

definition empty_raw_store :: data_store_raw where
  "empty_raw_store = \<lparr>raw_vec = [], raw_free_idxs = {}\<rparr>"

definition raw_free_item :: "data_store_raw \<Rightarrow> int \<Rightarrow> (data_store_raw \<times> nat option) option" where
  "raw_free_item st idx = do {
     (p, uses) \<leftarrow> vget (raw_vec st) idx;
     let uses' = uses - 1;
     if uses' = 0 then do {
       v \<leftarrow> vset (raw_vec st) idx (0, -1);
       Some (st\<lparr>raw_vec := v, raw_free_idxs := insert idx (raw_free_idxs st)\<rparr>, Some p)
     } else do {
       v \<leftarrow> vset (raw_vec st) idx (p, uses');
       Some (st\<lparr>raw_vec := v\<rparr>, None)
     }
   }"

definition raw_insert_item :: "uorder \<Rightarrow> data_store_raw \<Rightarrow> nat \<Rightarrow> int \<Rightarrow> (data_store_raw \<times> int) option" where
  "raw_insert_item ord st p uses = (
     let (idx, F, vec) = take_slot ord (raw_free_idxs st) (raw_vec st) (0, 0)
     in do {
       vec' \<leftarrow> vset vec idx (p, uses);
       Some (st\<lparr>raw_vec := vec', raw_free_idxs := F\<rparr>, idx)
     })"

definition allocate_item :: "uorder \<Rightarrow> data_store_raw \<Rightarrow> nat \<Rightarrow> int \<Rightarrow> (data_store_raw \<times> nat \<times> int) option" where
  "allocate_item ord st malloc_ptr uses = (
     let (idx, F, vec) = take_slot ord (raw_free_idxs st) (raw_vec st) (0, 0)
     in do {
       vec' \<leftarrow> vset vec idx (malloc_ptr, uses);
       Some (st\<lparr>raw_vec := vec', raw_free_idxs := F\<rparr>, malloc_ptr, idx)
     })"

definition raw_get_item :: "data_store_raw \<Rightarrow> int \<Rightarrow> nat option" where
  "raw_get_item st idx = map_option fst (vget (raw_vec st) idx)"


section \<open>The interface: a reference-counted store\<close>

datatype 'v store_op = Insert 'v int | Free int

fun frees_of :: "int \<Rightarrow> 'v store_op list \<Rightarrow> int" where
  "frees_of i [] = 0"
| "frees_of i (Insert v n # ops) = frees_of i ops"
| "frees_of i (Free j # ops) = (if j = i then 1 else 0) + frees_of i ops"

lemma frees_of_nonneg: "0 \<le> frees_of i ops"
  by (induction i ops rule: frees_of.induct) auto

fun run_store ::
    "('s \<Rightarrow> 'v \<Rightarrow> int \<Rightarrow> ('s \<times> int) option) \<Rightarrow> ('s \<Rightarrow> int \<Rightarrow> 's option) \<Rightarrow>
      's \<Rightarrow> 'v store_op list \<Rightarrow> 's option" where
  "run_store ins fre s [] = Some s"
| "run_store ins fre s (Insert v n # ops) = do { (s', _) \<leftarrow> ins s v n; run_store ins fre s' ops }"
| "run_store ins fre s (Free i # ops) = do { s' \<leftarrow> fre s i; run_store ins fre s' ops }"

locale refcount_store =
  fixes invar :: "'s \<Rightarrow> bool"
    and live :: "'s \<Rightarrow> int \<Rightarrow> ('v \<times> int) option"
    and ins :: "'s \<Rightarrow> 'v \<Rightarrow> int \<Rightarrow> ('s \<times> int) option"
    and fre :: "'s \<Rightarrow> int \<Rightarrow> 's option"
  assumes ins_ok: "invar s \<Longrightarrow> \<exists>s' i. ins s v n = Some (s', i) \<and> invar s' \<and>
        live s i = None \<and> live s' = (live s)(i \<mapsto> (v, n))"
    and fre_live: "invar s \<Longrightarrow> live s i = Some (v, n) \<Longrightarrow> \<exists>s'. fre s i = Some s' \<and> invar s' \<and>
        live s' = (live s)(i := (if n = 1 then None else Some (v, n - 1)))"
    and fre_dead: "invar s \<Longrightarrow> live s i = None \<Longrightarrow> fre s i = Some s' \<Longrightarrow>
        invar s' \<and> live s' = live s"
begin

lemma ins_Some:
  assumes "invar s" "ins s v n = Some (s', i)"
  shows "invar s' \<and> live s i = None \<and> live s' = (live s)(i \<mapsto> (v, n))"
  using ins_ok [OF assms(1), of v n] assms(2) by auto

lemma fre_Some:
  assumes "invar s" "fre s i = Some s'"
  shows "invar s' \<and> (\<forall>j. live s' j =
    (case live s j of None \<Rightarrow> None
     | Some (v, n) \<Rightarrow> if j = i then (if n = 1 then None else Some (v, n - 1)) else Some (v, n)))"
proof (cases "live s i")
  case None
  then show ?thesis using fre_dead [OF assms(1) None assms(2)] by (auto split: option.splits)
next
  case (Some a)
  then obtain v n where l: "live s i = Some (v, n)" by (cases a) auto
  show ?thesis using fre_live [OF assms(1) l] assms(2) l by (auto split: option.splits)
qed

text \<open>
  Whatever is inserted and freed in between, an item keeps its value, and its count is its
  number of uses less the times it was freed, as long as that is below its uses.
\<close>

lemma run_keeps_item:
  assumes "invar s" "live s i = Some (v, n)" "run_store ins fre s ops = Some s'"
    and "frees_of i ops < n"
  shows "invar s' \<and> live s' i = Some (v, n - frees_of i ops)"
  using assms
proof (induction ops arbitrary: s n)
  case Nil
  then show ?case by simp
next
  case (Cons op ops)
  show ?case
  proof (cases op)
    case (Insert w m)
    with Cons.prems obtain s1 j where s1: "ins s w m = Some (s1, j)"
      and run: "run_store ins fre s1 ops = Some s'"
      by (auto simp: bind_Some_iff split: prod.splits)
    from ins_Some [OF Cons.prems(1) s1] Cons.prems(2)
    have "invar s1" "live s1 i = Some (v, n)" by auto
    then show ?thesis using Cons.IH [OF _ _ run] Cons.prems(4) Insert by simp
  next
    case (Free j)
    with Cons.prems obtain s1 where s1: "fre s j = Some s1"
      and run: "run_store ins fre s1 ops = Some s'"
      by (auto simp: bind_Some_iff)
    have step: "invar s1" "live s1 i = Some (v, if i = j then n - 1 else n)"
      using fre_Some [OF Cons.prems(1) s1] Cons.prems(2,4) frees_of_nonneg [of i ops] Free
      by (auto split: if_splits)
    show ?thesis
      using Cons.IH [OF step run] Cons.prems(4) Free by (auto split: if_splits)
  qed
qed

text \<open>The last permitted \<open>free\<close> removes the item.\<close>

lemma run_releases_item:
  assumes "invar s" "live s i = Some (v, n)" "run_store ins fre s ops = Some s'"
    and "frees_of i ops = n - 1" "fre s' i = Some s''"
  shows "invar s'' \<and> live s'' i = None"
proof -
  have "invar s'" "live s' i = Some (v, 1)"
    using run_keeps_item [OF assms(1-3)] assms(4) by auto
  then show ?thesis using fre_Some [OF _ assms(5)] by auto
qed

end

section \<open>Bookkeeping of the slots\<close>

text \<open>
  Every free index is in range, its slot holds the default value \<open>d\<close> and a negative count,
  so a superfluous \<open>free_item\<close> of it can never free it a second time.
\<close>

definition slots_inv :: "'v \<Rightarrow> int set \<Rightarrow> ('v \<times> int) list \<Rightarrow> bool" where
  "slots_inv d F xs \<longleftrightarrow> finite F \<and>
     (\<forall>i\<in>F. in_range xs i \<and> fst (xs ! nat i) = d \<and> snd (xs ! nat i) < 0)"

definition live_slot :: "int set \<Rightarrow> ('v \<times> int) list \<Rightarrow> int \<Rightarrow> ('v \<times> int) option" where
  "live_slot F xs i = (if i \<in> F then None else vget xs i)"

lemma slots_inv_take:
  assumes "slots_inv d F xs" "take_slot ord F xs e = (i, F', ys)"
  shows "in_range ys i" "live_slot F xs i = None"
    "slots_inv d F' (ys[nat i := x])"
    "live_slot F' (ys[nat i := x]) = (live_slot F xs)(i \<mapsto> x)"
proof -
  have fin: "finite F" using assms(1) by (simp add: slots_inv_def)
  show "in_range ys i" "live_slot F xs i = None"
    using assms cbegin_in [OF fin, of ord]
    by (auto simp: take_slot_def slots_inv_def live_slot_def vget_def in_range_def Let_def split: if_splits)
  show "slots_inv d F' (ys[nat i := x])"
    using assms cbegin_in [OF fin, of ord]
    by (auto simp: take_slot_def slots_inv_def in_range_def Let_def nth_list_update nat_eq_iff split: if_splits)
  show "live_slot F' (ys[nat i := x]) = (live_slot F xs)(i \<mapsto> x)"
  proof
    fix j
    show "live_slot F' (ys[nat i := x]) j = ((live_slot F xs)(i \<mapsto> x)) j"
      using assms cbegin_in [OF fin, of ord]
      by (auto simp: take_slot_def live_slot_def slots_inv_def Let_def vget_update vget_append split: if_splits)
  qed
qed

lemma slots_inv_drop:
  assumes "slots_inv d F xs" "in_range xs i"
  shows "slots_inv d (insert i F) (xs[nat i := (d, -1)])"
  using assms by (auto simp: slots_inv_def nth_nat_update)

lemma live_slot_insert: "live_slot (insert i F) xs = (live_slot F xs)(i := None)"
  by (auto simp: live_slot_def fun_eq_iff)

lemma slots_inv_count:
  assumes "slots_inv d F xs" "vget xs i = Some (v, n)"
  shows "slots_inv d F (xs[nat i := (v, n - 1)])"
proof -
  have "xs ! nat i = (v, n)" "in_range xs i" using assms(2) by (auto simp: vget_eq_Some)
  then show ?thesis using assms(1) by (fastforce simp: slots_inv_def nth_nat_update)
qed

lemma live_slot_count:
  assumes "in_range xs i"
  shows "live_slot F (xs[nat i := x]) = (if i \<in> F then live_slot F xs else (live_slot F xs)(i \<mapsto> x))"
  using assms by (auto simp: live_slot_def vget_update fun_eq_iff)

definition store_inv :: "data_store \<Rightarrow> bool" where
  "store_inv st \<longleftrightarrow> slots_inv [] (free_idxs st) (data_vec st)"

definition store_live :: "data_store \<Rightarrow> int \<Rightarrow> (bytes \<times> int) option" where
  "store_live st = live_slot (free_idxs st) (data_vec st)"

definition raw_inv :: "data_store_raw \<Rightarrow> bool" where
  "raw_inv st \<longleftrightarrow> slots_inv 0 (raw_free_idxs st) (raw_vec st)"

definition raw_live :: "data_store_raw \<Rightarrow> int \<Rightarrow> (nat \<times> int) option" where
  "raw_live st = live_slot (raw_free_idxs st) (raw_vec st)"

text \<open>\<open>insert_item\<close> and \<open>raw_free_item\<close> without the part of their result a client of the store drops.\<close>

definition store_insert :: "uorder \<Rightarrow> data_store \<Rightarrow> bytes \<Rightarrow> int \<Rightarrow> (data_store \<times> int) option" where
  "store_insert ord st b n = map_option (\<lambda>(st', _, i). (st', i)) (insert_item ord st b n)"

definition raw_free :: "data_store_raw \<Rightarrow> int \<Rightarrow> data_store_raw option" where
  "raw_free st i = map_option fst (raw_free_item st i)"

lemma store_inv_empty: "store_inv empty_store"
  by (simp add: store_inv_def slots_inv_def empty_store_def)

lemma raw_inv_empty: "raw_inv empty_raw_store"
  by (simp add: raw_inv_def slots_inv_def empty_raw_store_def)

lemma store_insert_ok:
  assumes "store_inv s"
  shows "\<exists>s' i. store_insert ord s v n = Some (s', i) \<and> store_inv s' \<and>
        store_live s i = None \<and> store_live s' = (store_live s)(i \<mapsto> (v, n))"
proof -
  obtain i F ys where t: "take_slot ord (free_idxs s) (data_vec s) ([], 0) = (i, F, ys)"
    by (cases "take_slot ord (free_idxs s) (data_vec s) ([], 0)") auto
  note sl = slots_inv_take [OF assms [unfolded store_inv_def] t]
  show ?thesis
    by (simp add: store_insert_def insert_item_def t vset_in_range sl(1))
       (simp add: store_inv_def store_live_def sl)
qed

lemma raw_insert_ok:
  assumes "raw_inv s"
  shows "\<exists>s' i. raw_insert_item ord s v n = Some (s', i) \<and> raw_inv s' \<and>
        raw_live s i = None \<and> raw_live s' = (raw_live s)(i \<mapsto> (v, n))"
proof -
  obtain i F ys where t: "take_slot ord (raw_free_idxs s) (raw_vec s) (0, 0) = (i, F, ys)"
    by (cases "take_slot ord (raw_free_idxs s) (raw_vec s) (0, 0)") auto
  note sl = slots_inv_take [OF assms [unfolded raw_inv_def] t]
  show ?thesis
    by (simp add: raw_insert_item_def t vset_in_range sl(1))
       (simp add: raw_inv_def raw_live_def sl)
qed

lemma free_item_live:
  assumes "store_inv s" "store_live s i = Some (v, n)"
  shows "\<exists>s'. free_item s i = Some s' \<and> store_inv s' \<and>
        store_live s' = (store_live s)(i := (if n = 1 then None else Some (v, n - 1)))"
proof -
  have g: "vget (data_vec s) i = Some (v, n)" "i \<notin> free_idxs s" "in_range (data_vec s) i"
    using assms(2) by (auto simp: store_live_def live_slot_def vget_eq_Some split: if_splits)
  show ?thesis using assms(1) g
    by (auto simp: free_item_def vset_in_range store_inv_def store_live_def
        intro: slots_inv_drop slots_inv_count simp: live_slot_insert live_slot_count)
qed

lemma free_item_dead:
  assumes "store_inv s" "store_live s i = None" "free_item s i = Some s'"
  shows "store_inv s' \<and> store_live s' = store_live s"
proof -
  have r: "in_range (data_vec s) i"
    using assms(3) by (auto simp: free_item_def bind_Some_iff vget_eq_Some)
  obtain v n where nth: "data_vec s ! nat i = (v, n)" by fastforce
  note g = vget_in_range [OF r, unfolded nth] r
  have F: "i \<in> free_idxs s" using assms(2) g
    by (auto simp: store_live_def live_slot_def split: if_splits)
  have neg: "n < 0" using assms(1) g F using nth by (fastforce simp: store_inv_def slots_inv_def)
  then show ?thesis using assms(1,3) g F
    by (auto simp: free_item_def vset_in_range store_inv_def store_live_def
        intro: slots_inv_count simp: live_slot_count)
qed

lemma raw_free_live:
  assumes "raw_inv s" "raw_live s i = Some (v, n)"
  shows "\<exists>s'. raw_free s i = Some s' \<and> raw_inv s' \<and>
        raw_live s' = (raw_live s)(i := (if n = 1 then None else Some (v, n - 1)))"
proof -
  have g: "vget (raw_vec s) i = Some (v, n)" "i \<notin> raw_free_idxs s" "in_range (raw_vec s) i"
    using assms(2) by (auto simp: raw_live_def live_slot_def vget_eq_Some split: if_splits)
  show ?thesis using assms(1) g
    by (auto simp: raw_free_def raw_free_item_def vset_in_range raw_inv_def raw_live_def
        intro: slots_inv_drop slots_inv_count simp: live_slot_insert live_slot_count)
qed

lemma raw_free_dead:
  assumes "raw_inv s" "raw_live s i = None" "raw_free s i = Some s'"
  shows "raw_inv s' \<and> raw_live s' = raw_live s"
proof -
  have r: "in_range (raw_vec s) i"
    using assms(3) by (auto simp: raw_free_def raw_free_item_def bind_Some_iff vget_eq_Some)
  obtain v n where nth: "raw_vec s ! nat i = (v, n)" by fastforce
  note g = vget_in_range [OF r, unfolded nth] r
  have F: "i \<in> raw_free_idxs s" using assms(2) g
    by (auto simp: raw_live_def live_slot_def split: if_splits)
  have neg: "n < 0" using assms(1) g F using nth by (fastforce simp: raw_inv_def slots_inv_def)
  then show ?thesis using assms(1,3) g F
    by (auto simp: raw_free_def raw_free_item_def vset_in_range raw_inv_def raw_live_def
        intro: slots_inv_count simp: live_slot_count)
qed


interpretation ds: refcount_store store_inv store_live "store_insert ord" free_item for ord
  by unfold_locales (fact store_insert_ok free_item_live free_item_dead)+

interpretation raw: refcount_store raw_inv raw_live "raw_insert_item ord" raw_free for ord
  by unfold_locales (fact raw_insert_ok raw_free_live raw_free_dead)+

section \<open>Properties\<close>

lemma get_item_live: "store_live st i = Some (b, n) \<Longrightarrow> get_item st i = Some b"
  by (auto simp: store_live_def live_slot_def get_item_def split: if_splits)

lemma store_live_None_free:
  "store_live st i = None \<Longrightarrow> in_range (data_vec st) i \<Longrightarrow> i \<in> free_idxs st"
  by (auto simp: store_live_def live_slot_def vget_eq_None split: if_splits)


lemma insert_item_Some:
  assumes "store_inv st" "insert_item ord st b n = Some (st1, b', i)"
  shows "store_inv st1" "store_live st1 i = Some (b, n)" "b' = b"
proof -
  have "store_insert ord st b n = Some (st1, i)" using assms(2) by (simp add: store_insert_def)
  from ds.ins_Some [OF assms(1) this] show "store_inv st1" "store_live st1 i = Some (b, n)" by auto
  show "b' = b" using assms(2)
    by (auto simp: insert_item_def bind_Some_iff split: prod.splits)
qed

lemma free_item_length: "free_item st i = Some st' \<Longrightarrow> length (data_vec st') = length (data_vec st)"
  by (auto simp: free_item_def bind_Some_iff vset_eq_Some split: if_splits)

lemma store_insert_length:
  "store_insert ord st b n = Some (st', i) \<Longrightarrow> length (data_vec st) \<le> length (data_vec st')"
  by (auto simp: store_insert_def insert_item_def bind_Some_iff vset_eq_Some take_slot_def Let_def
      split: if_splits)

lemma free_item_defined: "in_range (data_vec st) i \<Longrightarrow> \<exists>st'. free_item st i = Some st'"
  by (auto simp: free_item_def vget_in_range vset_in_range Let_def split: prod.splits)



text \<open>C31. Lifetime of a broadcast buffer: bytes inserted with \<open>n\<close> uses stay in the store,
  unchanged, under every interleaving of other insertions and frees, until \<open>free_item\<close> has
  been called on their index \<open>n\<close> times.\<close>

theorem store_item_survives:
  assumes "store_inv st" "insert_item ord st b n = Some (st1, b', i)"
    and "run_store (store_insert ord) free_item st1 ops = Some st2" "frees_of i ops < n"
  shows "b' = b \<and> get_item st2 i = Some b"
proof -
  note ins = insert_item_Some [OF assms(1,2)]
  from ds.run_keeps_item [OF ins(1,2) assms(3,4)]
  show ?thesis using ins(3) get_item_live by blast
qed

lemma store_run_example:
  "insert_item ascending empty_store [5] 2 =
     Some (\<lparr>data_vec = [([5], 2)], free_idxs = {}\<rparr>, [5], 0)"
  "run_store (store_insert ascending) free_item \<lparr>data_vec = [([5], 2)], free_idxs = {}\<rparr>
     [Insert [6] 1, Free 0] = Some \<lparr>data_vec = [([5], 1), ([6], 1)], free_idxs = {}\<rparr>"
  "free_item \<lparr>data_vec = [([5], 1), ([6], 1)], free_idxs = {}\<rparr> 0 =
     Some \<lparr>data_vec = [([], -1), ([6], 1)], free_idxs = {0}\<rparr>"
  by (simp_all add: insert_item_def store_insert_def free_item_def empty_store_def take_slot_def
      vset_def vget_def in_range_def)

theorem store_item_survives_witness:
  "[5] = [5 :: byte] \<and>
   get_item \<lparr>data_vec = [([5], 1), ([6], 1)], free_idxs = {}\<rparr> 0 = Some [5]"
  by (rule store_item_survives [OF store_inv_empty store_run_example(1,2)]) simp

text \<open>C32. Release of a broadcast buffer: the \<open>n\<close>-th \<open>free_item\<close> of an item inserted with
  \<open>n\<close> uses empties its slot and returns its index to the free set, whatever was inserted or
  freed in between.\<close>

theorem store_item_released:
  assumes "store_inv st" "insert_item ord st b n = Some (st1, b', i)"
    and "run_store (store_insert ord) free_item st1 ops = Some st2" "frees_of i ops = n - 1"
    and "free_item st2 i = Some st3"
  shows "i \<in> free_idxs st3 \<and> get_item st3 i = Some [] \<and> store_inv st3"
proof -
  note ins = insert_item_Some [OF assms(1,2)]
  have st3: "store_inv st3" "store_live st3 i = None"
    using ds.run_releases_item [OF ins(1,2) assms(3,4,5)] by auto
  have "in_range (data_vec st3) i"
    using assms(5) by (auto simp: free_item_def bind_Some_iff vset_eq_Some split: if_splits)
  then have "i \<in> free_idxs st3" using store_live_None_free [OF st3(2)] by simp
  then show ?thesis using st3(1) by (auto simp: store_inv_def slots_inv_def get_item_def vget_in_range)
qed

theorem store_item_released_witness:
  "0 \<in> free_idxs \<lparr>data_vec = [([], -1), ([6], 1)], free_idxs = {0}\<rparr> \<and>
   get_item \<lparr>data_vec = [([], -1), ([6], 1)], free_idxs = {0}\<rparr> 0 = Some [] \<and>
   store_inv \<lparr>data_vec = [([], -1), ([6], 1)], free_idxs = {0}\<rparr>"
  by (rule store_item_released [OF store_inv_empty store_run_example(1,2) _ store_run_example(3)]) simp

text \<open>\<open>make_item\<close> drops its \<open>uses\<close> argument: the slot it returns is not free and no
  number of \<open>free_item\<close> calls ever frees it.\<close>

theorem make_item_never_released:
  assumes "store_inv st" "make_item ord st sz uses = Some (st1, sz', i)"
  shows "\<exists>st2. run_store (store_insert ord) free_item st1 (replicate k (Free i)) = Some st2 \<and>
     i \<notin> free_idxs st2"
proof -
  have base: "in_range (data_vec st1) i" "i \<notin> free_idxs st1" "snd (data_vec st1 ! nat i) \<le> 0"
    using assms cbegin_in [of "free_idxs st" ord]
    by (auto simp: make_item_def bind_Some_iff vmod_eq_Some take_slot_def Let_def in_range_def
        store_inv_def slots_inv_def nth_list_update nth_append split: if_splits prod.splits)
  have "\<exists>st2. run_store (store_insert ord) free_item st1 (replicate k (Free i)) = Some st2 \<and>
      in_range (data_vec st2) i \<and> i \<notin> free_idxs st2 \<and> snd (data_vec st2 ! nat i) \<le> 0" for k
    using base
  proof (induction k arbitrary: st1)
    case 0
    then show ?case by simp
  next
    case (Suc k)
    obtain b n where bn: "data_vec st1 ! nat i = (b, n)" by fastforce
    let ?st = "st1\<lparr>data_vec := (data_vec st1)[nat i := (b, n - 1)]\<rparr>"
    have "free_item st1 i = Some ?st"
      using Suc.prems bn by (simp add: free_item_def vec_simps)
    then show ?case using Suc.IH [of ?st] Suc.prems bn by (simp add: nth_nat_update)
  qed
  then show ?thesis by blast
qed

theorem make_item_never_released_witness:
  "\<exists>st2. run_store (store_insert ascending) free_item \<lparr>data_vec = [([0, 0], 0)], free_idxs = {}\<rparr>
     (replicate 5 (Free 0)) = Some st2 \<and> 0 \<notin> free_idxs st2"
  by (rule make_item_never_released [OF store_inv_empty, of ascending 2 1 _ 2])
     (simp add: make_item_def empty_store_def take_slot_def vmod_def in_range_def vresize_def numeral_2_eq_2)

end
