(* ===== verification/Tcp_Base.thy ===== *)
theory Tcp_Base
  imports Prelude "HOL-Library.Multiset"
begin

text \<open>
  The data of \<open>header/server.h\<close> and the operations of \<open>tcp_server/server_base.tcc\<close> that
  both servers share.

  \<^item> io_uring. What has been submitted and has not completed is the multiset \<open>inflight\<close> of
    pairs (operation, request); a completion removes one pair, with any result the kernel may
    give. The rings themselves are liburing's.
  \<^item> Pointers. A \<open>const char*\<close> that is written to a socket is a \<open>cptr\<close>: null, or the
    bytes it can read together with the object that owns them. \<open>ptr_add\<close> is pointer
    arithmetic inside the object.
  \<^item> Templates. \<open>server_base<T>\<close> calls into \<open>server<T>\<close> through
    \<open>static_cast<server<T>*>(this)\<close>; here those members are the fields of a \<open>derived\<close>
    record, and \<open>client<T>\<close> is an extension \<open>'c\<close> of the record \<open>client_base\<close>.
  \<^item> Callbacks. \<open>custom_obj\<close> has type \<open>'w\<close>; a callback is a function on the whole server
    state, because it may call back into the server. \<open>None\<close> is a null function pointer.
\<close>

section \<open>Events, pointers, requests\<close>

datatype server_type = TLS | NON_TLS

datatype event_type = ACCEPT | ACCEPT_READ | ACCEPT_WRITE | READ | WRITE
  | NOTIFICATION | CUSTOM_READ | TIMERFD | KILL

definition QUEUE_DEPTH :: int where "QUEUE_DEPTH = 256"
definition BACKLOG :: int where "BACKLOG = 10"
definition READ_SIZE :: nat where "READ_SIZE = 8192"

datatype origin = Queue_entry | Wolfssl_buffer | Cache_slot int | Store_slot int

datatype cptr = Nullptr | Ptr (owner: origin) (view: bytes)

fun ptr_add :: "cptr \<Rightarrow> int \<Rightarrow> cptr" where
  "ptr_add Nullptr n = Nullptr"
| "ptr_add (Ptr ow bs) n = Ptr ow (drop (nat n) bs)"

fun ptr_bytes :: "cptr \<Rightarrow> bytes" where
  "ptr_bytes Nullptr = []"
| "ptr_bytes (Ptr ow bs) = bs"

record request =
  rq_event :: event_type
  rq_client_idx :: int
  rq_ID :: int
  rq_written :: int
  rq_total_length :: int
  rq_buffer :: cptr
  rq_read_data :: bytes
  rq_read_amount :: int
  rq_custom_info :: int

definition new_request :: "event_type \<Rightarrow> request" where
  "new_request ev = \<lparr>rq_event = ev, rq_client_idx = -1, rq_ID = -1, rq_written = 0,
     rq_total_length = 0, rq_buffer = Nullptr, rq_read_data = [], rq_read_amount = 0,
     rq_custom_info = 0\<rparr>"

text \<open>
  What a submission asks the kernel to do. A read goes to the offset \<open>op_at\<close> of the
  request's own \<open>read_data\<close>; a write reads from a pointer.
\<close>

datatype sqe =
    Op_accept (op_fd: int)
  | Op_read (op_fd: int) (op_at: int) (op_len: int) (op_offset: int)
  | Op_write (op_fd: int) (op_ptr: cptr) (op_len: int)

section \<open>Queued writes\<close>

text \<open>\<open>multi_write*\<close> is an index into the server's list of shared buffers.\<close>

record write_data =
  last_written :: int
  wd_custom_info :: int
  wd_buff :: bytes
  broadcast :: bool
  ptr_buff :: cptr
  wd_total_length :: int
  multi_write_data :: "nat option"

definition write_data_vec :: "bytes \<Rightarrow> write_data" where
  "write_data_vec buff = \<lparr>last_written = -1, wd_custom_info = 0, wd_buff = buff,
     broadcast = False, ptr_buff = Nullptr, wd_total_length = 0, multi_write_data = None\<rparr>"

definition write_data_ptr :: "cptr \<Rightarrow> int \<Rightarrow> bool \<Rightarrow> int \<Rightarrow> write_data" where
  "write_data_ptr buff len bc info = \<lparr>last_written = -1, wd_custom_info = info, wd_buff = [],
     broadcast = bc, ptr_buff = buff, wd_total_length = len, multi_write_data = None\<rparr>"

definition write_data_multi :: "nat \<Rightarrow> write_data" where
  "write_data_multi m = \<lparr>last_written = -1, wd_custom_info = 0, wd_buff = [],
     broadcast = False, ptr_buff = Nullptr, wd_total_length = 0, multi_write_data = Some m\<rparr>"

section \<open>Clients and the server\<close>

record client_base =
  cl_id :: int
  sockfd :: int
  send_data :: "write_data list"
  read_req_active :: bool
  num_write_reqs :: int

text \<open>A freed \<open>multi_write\<close> is \<open>None\<close>.\<close>

record ('c, 'w) server =
  clients :: "'c client_base_scheme list"
  active_connections :: "int set"
  freed_indexes :: "int set"
  inflight :: "(sqe \<times> request) multiset"
  multi_writes :: "(bytes \<times> int) option list"
  closed_fds :: "int list"
  notification_count :: nat
  kill_count :: nat
  listener_fd :: int
  notification_efd :: int
  kill_efd :: int
  timerfd :: int
  ran_server :: bool
  is_active :: bool
  custom_obj :: 'w

type_synonym ('c, 'w) op = "('c, 'w) server \<Rightarrow> ('c, 'w) server option"

record ('c, 'w) callbacks =
  accept_cb :: "(int \<Rightarrow> ('c, 'w) op) option"
  close_cb :: "(int \<Rightarrow> int \<Rightarrow> ('c, 'w) op) option"
  read_cb :: "(int \<Rightarrow> bytes \<Rightarrow> int \<Rightarrow> ('c, 'w) op) option"
  write_cb :: "(int \<Rightarrow> int \<Rightarrow> ('c, 'w) op) option"
  event_cb :: "('c, 'w) op option"
  custom_read_cb :: "(int \<Rightarrow> int \<Rightarrow> bytes \<Rightarrow> ('c, 'w) op) option"

record ('c, 'w) derived =
  close_connection_T :: "int \<Rightarrow> ('c, 'w) op"
  req_event_handler_T :: "request \<Rightarrow> int \<Rightarrow> ('c, 'w) op"

definition no_callbacks :: "('c, 'w) callbacks" where
  "no_callbacks = \<lparr>accept_cb = None, close_cb = None, read_cb = None, write_cb = None,
     event_cb = None, custom_read_cb = None\<rparr>"

text \<open>The members of \<open>write_data\<close> that need the shared buffers.\<close>

definition get_ptr_and_size :: "('c, 'w) server \<Rightarrow> write_data \<Rightarrow> (cptr \<times> int) option" where
  "get_ptr_and_size s wd =
     (case multi_write_data wd of
        Some m \<Rightarrow> do {
          entry \<leftarrow> vget (multi_writes s) (int m);
          (buff, uses) \<leftarrow> entry;
          Some (Ptr Queue_entry buff, int (length buff))
        }
      | None \<Rightarrow>
          if ptr_buff wd \<noteq> Nullptr then Some (ptr_buff wd, wd_total_length wd)
          else Some (Ptr Queue_entry (wd_buff wd), int (length (wd_buff wd))))"

definition destroy_write_data :: "write_data \<Rightarrow> ('c, 'w) op" where
  "destroy_write_data wd s =
     (case multi_write_data wd of
        None \<Rightarrow> Some s
      | Some m \<Rightarrow> do {
          entry \<leftarrow> vget (multi_writes s) (int m);
          (buff, uses) \<leftarrow> entry;
          ms \<leftarrow> vset (multi_writes s) (int m)
                  (if uses - 1 = 0 then None else Some (buff, uses - 1));
          Some (s\<lparr>multi_writes := ms\<rparr>)
        })"

section \<open>Access to a client\<close>

definition upd_client ::
    "int \<Rightarrow> ('c client_base_scheme \<Rightarrow> 'c client_base_scheme) \<Rightarrow> ('c, 'w) op" where
  "upd_client idx f s = do { cs \<leftarrow> vmod (clients s) idx f; Some (s\<lparr>clients := cs\<rparr>) }"

text \<open>\<open>client.send_data.pop()\<close>: undefined on an empty queue, runs the element's destructor.\<close>

definition pop_send_data :: "int \<Rightarrow> ('c, 'w) op" where
  "pop_send_data idx s = do {
     c \<leftarrow> vget (clients s) idx;
     (case send_data c of
        [] \<Rightarrow> None
      | wd # rest \<Rightarrow> do {
          s \<leftarrow> upd_client idx (\<lambda>c. c\<lparr>send_data := rest\<rparr>) s;
          destroy_write_data wd s
        })
   }"

fun destroy_all :: "write_data list \<Rightarrow> ('c, 'w) op" where
  "destroy_all [] s = Some s"
| "destroy_all (wd # rest) s = do { s \<leftarrow> destroy_write_data wd s; destroy_all rest s }"

text \<open>\<open>client.send_data = {}\<close>.\<close>

definition clear_send_data :: "int \<Rightarrow> ('c, 'w) op" where
  "clear_send_data idx s = do {
     c \<leftarrow> vget (clients s) idx;
     s \<leftarrow> upd_client idx (\<lambda>c. c\<lparr>send_data := []\<rparr>) s;
     destroy_all (send_data c) s
   }"

section \<open>Submissions\<close>

definition submit :: "sqe \<Rightarrow> request \<Rightarrow> ('c, 'w) server \<Rightarrow> ('c, 'w) server" where
  "submit e req s = s\<lparr>inflight := add_mset (e, req) (inflight s)\<rparr>"

definition event_read :: "int \<Rightarrow> event_type \<Rightarrow> ('c, 'w) server \<Rightarrow> ('c, 'w) server" where
  "event_read efd ev s =
     submit (Op_read efd 0 8 0) ((new_request ev)\<lparr>rq_read_data := replicate 8 0\<rparr>) s"

definition add_timerfd_read_req :: "('c, 'w) server \<Rightarrow> ('c, 'w) server" where
  "add_timerfd_read_req s =
     submit (Op_read (timerfd s) 0 8 0)
       ((new_request TIMERFD)\<lparr>rq_total_length := 8, rq_read_data := replicate 8 0\<rparr>) s"

definition add_accept_req :: "int \<Rightarrow> ('c, 'w) server \<Rightarrow> ('c, 'w) server" where
  "add_accept_req fd s = submit (Op_accept fd) (new_request ACCEPT) s"

definition add_tcp_accept_req :: "('c, 'w) server \<Rightarrow> ('c, 'w) server" where
  "add_tcp_accept_req s = add_accept_req (listener_fd s) s"

text \<open>The boolean says whether a request was submitted (\<open>return 0\<close> or \<open>return -1\<close>).\<close>

definition add_read_req ::
    "int \<Rightarrow> event_type \<Rightarrow> ('c, 'w) server \<Rightarrow> (bool \<times> ('c, 'w) server) option" where
  "add_read_req idx ev s = do {
     c \<leftarrow> vget (clients s) idx;
     if \<not> read_req_active c then do {
       let req = (new_request ev)\<lparr>rq_total_length := int READ_SIZE, rq_client_idx := idx,
                   rq_ID := cl_id c, rq_read_data := replicate READ_SIZE 0\<rparr>;
       s \<leftarrow> upd_client idx (\<lambda>c. c\<lparr>read_req_active := True\<rparr>)
              (submit (Op_read (sockfd c) 0 (int READ_SIZE) 0) req s);
       Some (True, s)
     } else Some (False, s)
   }"

definition read_connection :: "int \<Rightarrow> ('c, 'w) op" where
  "read_connection idx s = map_option snd (add_read_req idx READ s)"

definition add_write_req :: "int \<Rightarrow> event_type \<Rightarrow> cptr \<Rightarrow> int \<Rightarrow> ('c, 'w) op" where
  "add_write_req idx ev buffer len s = do {
     c \<leftarrow> vget (clients s) idx;
     let req = (new_request ev)\<lparr>rq_client_idx := idx, rq_total_length := u32 len,
                 rq_buffer := buffer, rq_ID := cl_id c\<rparr>;
     s \<leftarrow> upd_client idx (\<lambda>c. c\<lparr>num_write_reqs := num_write_reqs c + 1\<rparr>) s;
     Some (submit (Op_write (sockfd c) buffer (u32 len)) req s)
   }"

text \<open>
  The read always asks for \<open>READ_SIZE\<close> bytes, whatever room the buffer has. The address
  \<open>&read_data[read_amount]\<close> is undefined when it lies past the end.
\<close>

definition custom_read_req :: "int \<Rightarrow> int \<Rightarrow> int \<Rightarrow> bytes \<Rightarrow> int \<Rightarrow> ('c, 'w) op" where
  "custom_read_req fd to_read idx buff read_amount s = do {
     let data = vresize (nat (u64 (to_read + read_amount))) 0 buff;
     let req = (new_request CUSTOM_READ)\<lparr>rq_client_idx := idx, rq_total_length := to_read,
                 rq_read_amount := read_amount, rq_read_data := data, rq_custom_info := fd\<rparr>;
     if read_amount \<le> int (length data)
     then Some (submit (Op_read fd read_amount (int READ_SIZE) 0) req s)
     else None
   }"

definition custom_read_req_continued :: "request \<Rightarrow> int \<Rightarrow> ('c, 'w) op" where
  "custom_read_req_continued req last_read s = do {
     let amount = u64 (rq_read_amount req + u64 last_read);
     let initial_offset = u64 (int (length (rq_read_data req)) - rq_total_length req);
     let req = req\<lparr>rq_read_amount := amount\<rparr>;
     if amount \<le> int (length (rq_read_data req))
     then Some (submit (Op_read (i32 (rq_custom_info req)) amount (int READ_SIZE)
                  (u64 (amount - initial_offset))) req s)
     else None
   }"

definition notify_event :: "('c, 'w) server \<Rightarrow> ('c, 'w) server" where
  "notify_event s = s\<lparr>notification_count := notification_count s + 1\<rparr>"

definition kill_server :: "('c, 'w) server \<Rightarrow> ('c, 'w) server" where
  "kill_server s = s\<lparr>kill_count := kill_count s + 1\<rparr>"

section \<open>Slots\<close>

text \<open>\<open>dflt\<close> is the value \<open>client<T>()\<close>.\<close>

definition setup_client :: "'c client_base_scheme \<Rightarrow> int \<Rightarrow> ('c, 'w) server \<Rightarrow> (int \<times> ('c, 'w) server) option" where
  "setup_client dflt client_socket s =
     (if freed_indexes s \<noteq> {} then do {
        let index = Min (freed_indexes s);
        freed_client \<leftarrow> vget (clients s) index;
        let new_id = (cl_id freed_client + 1) mod 100;
        s \<leftarrow> clear_send_data index (s\<lparr>freed_indexes := freed_indexes s - {index}\<rparr>);
        s \<leftarrow> upd_client index (\<lambda>_. dflt\<lparr>cl_id := new_id, sockfd := client_socket\<rparr>) s;
        Some (index, s)
      } else
        Some (int (length (clients s)),
              s\<lparr>clients := clients s @ [dflt\<lparr>sockfd := client_socket\<rparr>]\<rparr>))"

section \<open>The listener\<close>

text \<open>
  \<open>setup_listener\<close> walks the address list; each entry carries what \<open>socket\<close>, the two
  \<open>setsockopt\<close> calls and \<open>bind\<close> return. A \<open>fatal_error\<close> is \<open>Inl\<close> with its message.
\<close>

record addr_entry =
  socket_res :: int
  reuseaddr_res :: int
  reuseport_res :: int
  bind_res :: int

fun try_bind :: "addr_entry list \<Rightarrow> string + int option" where
  "try_bind [] = Inr None"
| "try_bind (a # rest) =
     (if socket_res a = -1 then Inl ''socket construction''
      else if reuseaddr_res a = -1 then Inl ''setsockopt SO_REUSEADDR''
      else if reuseport_res a = -1 then Inl ''setsockopt SO_REUSEPORT''
      else if bind_res a = -1 then try_bind rest
      else Inr (Some (socket_res a)))"

definition setup_listener :: "int \<Rightarrow> addr_entry list \<Rightarrow> (int \<Rightarrow> int) \<Rightarrow> string + int" where
  "setup_listener getaddrinfo_res addrs listen_res =
     (if getaddrinfo_res \<noteq> 0 then Inl ''getaddrinfo''
      else case try_bind addrs of
        Inl e \<Rightarrow> Inl e
      | Inr None \<Rightarrow> Inl ''no socket made''
      | Inr (Some fd) \<Rightarrow> if listen_res fd = -1 then Inl ''listen'' else Inr fd)"

text \<open>
  The constructor, given the descriptors that \<open>eventfd\<close> and \<open>timerfd_create\<close> returned.
\<close>

definition server_base ::
    "int \<Rightarrow> int \<Rightarrow> int \<Rightarrow> int \<Rightarrow> addr_entry list \<Rightarrow> (int \<Rightarrow> int) \<Rightarrow> 'w \<Rightarrow> string + ('c, 'w) server" where
  "server_base nefd kefd tfd gai addrs listen_res obj =
     (let s = \<lparr>clients = [], active_connections = {}, freed_indexes = {}, inflight = {#},
                multi_writes = [], closed_fds = [], notification_count = 0, kill_count = 0,
                listener_fd = 0, notification_efd = nefd, kill_efd = kefd, timerfd = tfd,
                ran_server = False, is_active = True, custom_obj = obj\<rparr>;
          s = event_read (kill_efd s) KILL s;
          s = event_read (notification_efd s) NOTIFICATION s
      in case setup_listener gai addrs listen_res of
           Inl e \<Rightarrow> Inl e
         | Inr fd \<Rightarrow> Inr (add_timerfd_read_req (s\<lparr>listener_fd := fd\<rparr>)))"

section \<open>The event loop\<close>

definition call0 :: "('c, 'w) op option \<Rightarrow> ('c, 'w) op" where
  "call0 cb s = (case cb of None \<Rightarrow> Some s | Some f \<Rightarrow> f s)"

definition broadcast_info :: "write_data \<Rightarrow> int" where
  "broadcast_info wd = (if broadcast wd then i32 (wd_custom_info wd) else -1)"

text \<open>
  The loop that empties a client's queue before it is closed: one \<open>close_cb\<close> per queued
  write. The callback may change the queue, so the loop need not stop; \<open>None\<close> then.
\<close>

partial_function (option) drain_send_data ::
    "('c, 'w) callbacks \<Rightarrow> int \<Rightarrow> ('c, 'w) op" where
  "drain_send_data CB idx s = do {
     c \<leftarrow> vget (clients s) idx;
     (case send_data c of
        [] \<Rightarrow> Some s
      | wd # _ \<Rightarrow> do {
          s \<leftarrow> call0 (map_option (\<lambda>f. f idx (broadcast_info wd)) (close_cb CB)) s;
          s \<leftarrow> pop_send_data idx s;
          drain_send_data CB idx s
        })
   }"

text \<open>What the failure branch and the timer branch do to close a client.\<close>

definition close_client :: "('c, 'w) derived \<Rightarrow> ('c, 'w) callbacks \<Rightarrow> int \<Rightarrow> ('c, 'w) op" where
  "close_client D CB idx s = do {
     s \<leftarrow> drain_send_data CB idx s;
     s \<leftarrow> call0 (map_option (\<lambda>f. f idx (-1)) (close_cb CB)) s;
     close_connection_T D idx s
   }"

definition client_request :: "event_type \<Rightarrow> bool" where
  "client_request ev \<longleftrightarrow> ev \<notin> {ACCEPT, KILL, NOTIFICATION, CUSTOM_READ, TIMERFD}"

definition handle_failure ::
    "('c, 'w) derived \<Rightarrow> ('c, 'w) callbacks \<Rightarrow> request \<Rightarrow> int \<Rightarrow> ('c, 'w) op" where
  "handle_failure D CB req res s = do {
     c \<leftarrow> vget (clients s) (rq_client_idx req);
     if res \<le> 0 \<and> cl_id c = rq_ID req then do {
       s \<leftarrow> (if rq_event req = WRITE \<or> rq_event req = ACCEPT_WRITE
             then upd_client (rq_client_idx req) (\<lambda>c. c\<lparr>num_write_reqs := num_write_reqs c - 1\<rparr>) s
             else Some s);
       c \<leftarrow> vget (clients s) (rq_client_idx req);
       if num_write_reqs c = 0 then close_client D CB (rq_client_idx req) s else Some s
     } else Some s
   }"

text \<open>\<open>peek\<close> is what \<open>recv\<close> with \<open>MSG_PEEK\<close> returns for a descriptor.\<close>

fun timer_loop ::
    "('c, 'w) derived \<Rightarrow> ('c, 'w) callbacks \<Rightarrow> (int \<Rightarrow> int) \<Rightarrow> int list \<Rightarrow> ('c, 'w) op" where
  "timer_loop D CB peek [] s = Some s"
| "timer_loop D CB peek (idx # rest) s = do {
     c \<leftarrow> vget (clients s) idx;
     s \<leftarrow> (if peek (sockfd c) = 0 then close_client D CB idx s else Some s);
     timer_loop D CB peek rest s
   }"

definition handle_kill :: "('c, 'w) server \<Rightarrow> ('c, 'w) server" where
  "handle_kill s = s\<lparr>inflight := {#}, is_active := False,
     closed_fds := closed_fds s @ [listener_fd s, kill_efd s, notification_efd s]\<rparr>"

definition handle_custom_read :: "('c, 'w) callbacks \<Rightarrow> request \<Rightarrow> int \<Rightarrow> ('c, 'w) op" where
  "handle_custom_read CB req res s =
     (if int (length (rq_read_data req)) = u64 (res + rq_read_amount req)
      then call0 (map_option (\<lambda>f. f (rq_client_idx req) (i32 (rq_custom_info req)) (rq_read_data req))
             (custom_read_cb CB)) s
      else custom_read_req_continued req res s)"

text \<open>
  One iteration of the loop in \<open>start()\<close>, for the completion of \<open>req\<close> with result
  \<open>res\<close>. The request has left \<open>inflight\<close> before.
\<close>

definition loop_body ::
    "uorder \<Rightarrow> ('c, 'w) derived \<Rightarrow> ('c, 'w) callbacks \<Rightarrow> (int \<Rightarrow> int) \<Rightarrow> request \<Rightarrow> int \<Rightarrow> ('c, 'w) op" where
  "loop_body ord D CB peek req res s = do {
     stale \<leftarrow> (if client_request (rq_event req) \<and> \<not> res \<le> 0 \<and> 0 < rq_client_idx req
              then do { c \<leftarrow> vget (clients s) (rq_client_idx req); Some (cl_id c \<noteq> rq_ID req) }
              else Some False);
     if client_request (rq_event req) \<and> (res \<le> 0 \<or> stale) then handle_failure D CB req res s
     else case rq_event req of
       KILL \<Rightarrow> Some (handle_kill s)
     | NOTIFICATION \<Rightarrow> call0 (event_cb CB) (event_read (notification_efd s) NOTIFICATION s)
     | CUSTOM_READ \<Rightarrow> handle_custom_read CB req res s
     | TIMERFD \<Rightarrow> do {
         s \<leftarrow> timer_loop D CB peek (uord_list ord (active_connections s)) s;
         Some (add_timerfd_read_req s)
       }
     | _ \<Rightarrow> req_event_handler_T D req res s
   }"

section \<open>Completions\<close>

text \<open>
  The kernel stores the bytes of a read in the request's buffer. Bytes past its end are
  stored past the end of the vector, which is undefined.
\<close>

definition fill_request :: "sqe \<Rightarrow> request \<Rightarrow> bytes \<Rightarrow> request option" where
  "fill_request e req data =
     (case e of
        Op_read fd at len off \<Rightarrow>
          if nat at + length data \<le> length (rq_read_data req)
          then Some (req\<lparr>rq_read_data := take (nat at) (rq_read_data req) @ data @
                 drop (nat at + length data) (rq_read_data req)\<rparr>)
          else None
      | _ \<Rightarrow> Some req)"

text \<open>Results a completion may have: an error, or no more than what was asked for.\<close>

fun kernel_result :: "sqe \<Rightarrow> int \<Rightarrow> bytes \<Rightarrow> bool" where
  "kernel_result (Op_accept fd) res data \<longleftrightarrow> data = []"
| "kernel_result (Op_read fd at len off) res data \<longleftrightarrow> res \<le> len \<and> int (length data) = max 0 res"
| "kernel_result (Op_write fd p len) res data \<longleftrightarrow> res \<le> len \<and> data = []"

text \<open>Reading an event descriptor resets its counter.\<close>

definition consume_eventfd :: "sqe \<Rightarrow> int \<Rightarrow> ('c, 'w) server \<Rightarrow> ('c, 'w) server" where
  "consume_eventfd e res s =
     (case e of
        Op_read fd at len off \<Rightarrow>
          if res \<le> 0 then s
          else if fd = notification_efd s then s\<lparr>notification_count := 0\<rparr>
          else if fd = kill_efd s then s\<lparr>kill_count := 0\<rparr>
          else s
      | _ \<Rightarrow> s)"

definition complete ::
    "uorder \<Rightarrow> ('c, 'w) derived \<Rightarrow> ('c, 'w) callbacks \<Rightarrow> (int \<Rightarrow> int) \<Rightarrow>
      sqe \<Rightarrow> request \<Rightarrow> int \<Rightarrow> bytes \<Rightarrow> ('c, 'w) op" where
  "complete ord D CB peek e req res data s = do {
     req' \<leftarrow> fill_request e req data;
     loop_body ord D CB peek req' res
       (consume_eventfd e res (s\<lparr>inflight := inflight s - {#(e, req)#}\<rparr>))
   }"

text \<open>\<open>start()\<close> up to its loop: it does nothing the second time.\<close>

definition start :: "('c, 'w) server \<Rightarrow> ('c, 'w) server" where
  "start s = (if ran_server s then s else add_tcp_accept_req (s\<lparr>ran_server := True\<rparr>))"

end
