(* ===== verification/Tcp_Plain.thy ===== *)
theory Tcp_Plain
  imports Tcp_Base
begin

text \<open>
  The plain server, \<open>server<server_type::NON_TLS>\<close> of \<open>tcp_server/server_non_tls.cpp\<close>
  and its templates in \<open>header/server.h\<close>: the derived operations, the handler, and the
  invariant that ties every client's write queue to the write in flight.
\<close>

section \<open>Operations\<close>

definition plain_client :: client_base where
  "plain_client = \<lparr>cl_id = -1, sockfd = -1, send_data = [], read_req_active = False,
     num_write_reqs = 0\<rparr>"

definition enqueue_write :: "int \<Rightarrow> write_data \<Rightarrow> ('c, 'w) op" where
  "enqueue_write idx wd s = upd_client idx (\<lambda>c. c\<lparr>send_data := send_data c @ [wd]\<rparr>) s"

definition write_connection_vec :: "int \<Rightarrow> bytes \<Rightarrow> ('c, 'w) op" where
  "write_connection_vec idx buff s = do {
     s \<leftarrow> enqueue_write idx (write_data_vec buff) s;
     c \<leftarrow> vget (clients s) idx;
     if length (send_data c) = 1
     then add_write_req idx WRITE (Ptr Queue_entry buff) (int (length buff)) s
     else Some s
   }"

definition write_connection_ptr :: "int \<Rightarrow> cptr \<Rightarrow> int \<Rightarrow> ('c, 'w) op" where
  "write_connection_ptr idx buff len s = do {
     s \<leftarrow> enqueue_write idx (write_data_ptr buff len False 0) s;
     c \<leftarrow> vget (clients s) idx;
     if length (send_data c) = 1 then add_write_req idx WRITE buff len s else Some s
   }"

definition close_connection :: "int \<Rightarrow> ('c, 'w) op" where
  "close_connection idx s = do {
     c \<leftarrow> vget (clients s) idx;
     if num_write_reqs c = 0 then do {
       s \<leftarrow> clear_send_data idx (s\<lparr>active_connections := active_connections s - {idx}\<rparr>);
       Some (s\<lparr>closed_fds := closed_fds s @ [sockfd c],
               freed_indexes := insert idx (freed_indexes s)\<rparr>)
     } else Some s
   }"

text \<open>\<open>broadcast_message\<close>, its two overloads; the client indexes come in iteration order.\<close>

fun broadcast_ptr_loop :: "cptr \<Rightarrow> int \<Rightarrow> int \<Rightarrow> int list \<Rightarrow> ('c, 'w) op" where
  "broadcast_ptr_loop buff len info [] s = Some s"
| "broadcast_ptr_loop buff len info (idx # rest) s = do {
     s \<leftarrow> enqueue_write idx (write_data_ptr buff len True info) s;
     c \<leftarrow> vget (clients s) idx;
     s \<leftarrow> (if length (send_data c) = 1 then add_write_req idx WRITE buff len s else Some s);
     broadcast_ptr_loop buff len info rest s
   }"

definition broadcast_message_ptr :: "int list \<Rightarrow> int \<Rightarrow> cptr \<Rightarrow> int \<Rightarrow> int \<Rightarrow> ('c, 'w) op" where
  "broadcast_message_ptr idxs num_clients buff len info s =
     (if num_clients > 0 then broadcast_ptr_loop buff len info idxs s else Some s)"

fun broadcast_vec_loop :: "nat \<Rightarrow> bytes \<Rightarrow> int list \<Rightarrow> ('c, 'w) op" where
  "broadcast_vec_loop m buff [] s = Some s"
| "broadcast_vec_loop m buff (idx # rest) s = do {
     s \<leftarrow> enqueue_write idx (write_data_multi m) s;
     c \<leftarrow> vget (clients s) idx;
     s \<leftarrow> (if length (send_data c) = 1
           then add_write_req idx WRITE (Ptr Queue_entry buff) (int (length buff)) s else Some s);
     broadcast_vec_loop m buff rest s
   }"

definition broadcast_message_vec :: "int list \<Rightarrow> int \<Rightarrow> bytes \<Rightarrow> ('c, 'w) op" where
  "broadcast_message_vec idxs num_clients buff s =
     (if num_clients > 0
      then broadcast_vec_loop (length (multi_writes s)) buff idxs
             (s\<lparr>multi_writes := multi_writes s @ [Some (buff, num_clients)]\<rparr>)
      else Some s)"

definition add_write_req_continued :: "request \<Rightarrow> int \<Rightarrow> ('c, 'w) op" where
  "add_write_req_continued req written s = do {
     c \<leftarrow> vget (clients s) (rq_client_idx req);
     front \<leftarrow> (case send_data c of [] \<Rightarrow> None | wd # _ \<Rightarrow> Some wd);
     (buff, len) \<leftarrow> get_ptr_and_size s front;
     let req = req\<lparr>rq_written := u64 (rq_written req + written)\<rparr>;
     Some (submit (Op_write (sockfd c) (ptr_add buff (rq_written req))
             (u32 (rq_total_length req - rq_written req))) req s)
   }"

section \<open>The handler\<close>

definition handle_accept :: "'c client_base_scheme \<Rightarrow> ('c, 'w) callbacks \<Rightarrow> int \<Rightarrow> ('c, 'w) op" where
  "handle_accept dflt CB res s = do {
     (idx, s) \<leftarrow> setup_client dflt res (add_tcp_accept_req s);
     let s = s\<lparr>active_connections := insert idx (active_connections s)\<rparr>;
     s \<leftarrow> call0 (map_option (\<lambda>f. f idx) (accept_cb CB)) s;
     read_connection idx s
   }"

definition handle_read :: "('c, 'w) callbacks \<Rightarrow> request \<Rightarrow> int \<Rightarrow> ('c, 'w) op" where
  "handle_read CB req res s = do {
     s \<leftarrow> upd_client (rq_client_idx req) (\<lambda>c. c\<lparr>read_req_active := False\<rparr>) s;
     call0 (map_option (\<lambda>f. f (rq_client_idx req) (rq_read_data req) res) (read_cb CB)) s
   }"

text \<open>
  The completion of a whole write: the finished entry leaves the queue, the next one is
  submitted. The result carries the broadcast item for the write callback.
\<close>

definition finish_write :: "request \<Rightarrow> ('c, 'w) server \<Rightarrow> (int \<times> ('c, 'w) server) option" where
  "finish_write req s = do {
     s \<leftarrow> upd_client (rq_client_idx req) (\<lambda>c. c\<lparr>num_write_reqs := num_write_reqs c - 1\<rparr>) s;
     c \<leftarrow> vget (clients s) (rq_client_idx req);
     if rq_client_idx req \<in> active_connections s \<and> cl_id c = rq_ID req then do {
       front \<leftarrow> (case send_data c of [] \<Rightarrow> None | wd # _ \<Rightarrow> Some wd);
       s \<leftarrow> pop_send_data (rq_client_idx req) s;
       c \<leftarrow> vget (clients s) (rq_client_idx req);
       s \<leftarrow> (case send_data c of
               [] \<Rightarrow> Some s
             | wd # _ \<Rightarrow> do {
                 (buff, len) \<leftarrow> get_ptr_and_size s wd;
                 add_write_req (rq_client_idx req) WRITE buff len s
               });
       Some (broadcast_info front, s)
     } else Some (-1, s)
   }"

definition write_incomplete :: "request \<Rightarrow> int \<Rightarrow> bool" where
  "write_incomplete req res \<longleftrightarrow> u64 (res + rq_written req) < rq_total_length req \<and> res > 0"

definition handle_write :: "('c, 'w) callbacks \<Rightarrow> request \<Rightarrow> int \<Rightarrow> ('c, 'w) op" where
  "handle_write CB req res s =
     (if write_incomplete req res then add_write_req_continued req res s
      else do {
        (info, s) \<leftarrow> finish_write req s;
        call0 (map_option (\<lambda>f. f (rq_client_idx req) info) (write_cb CB)) s
      })"

definition plain_handler :: "(unit, 'w) callbacks \<Rightarrow> request \<Rightarrow> int \<Rightarrow> (unit, 'w) op" where
  "plain_handler CB req res s =
     (case rq_event req of
        ACCEPT \<Rightarrow> handle_accept plain_client CB res s
      | READ \<Rightarrow> handle_read CB req res s
      | WRITE \<Rightarrow> handle_write CB req res s
      | _ \<Rightarrow> Some s)"

definition plain_derived :: "(unit, 'w) callbacks \<Rightarrow> (unit, 'w) derived" where
  "plain_derived CB = \<lparr>close_connection_T = close_connection, req_event_handler_T = plain_handler CB\<rparr>"

text \<open>\<open>kill_all_servers\<close> over the registered servers.\<close>

definition kill_all_servers :: "('c, 'w) server list \<Rightarrow> ('c, 'w) server list" where
  "kill_all_servers = map kill_server"


section \<open>The write-queue invariant\<close>

text \<open>The pointer and length of a queue entry that does not use a shared buffer.\<close>

definition entry_view :: "write_data \<Rightarrow> cptr \<times> int" where
  "entry_view wd = (if ptr_buff wd \<noteq> Nullptr then (ptr_buff wd, wd_total_length wd)
     else (Ptr Queue_entry (wd_buff wd), int (length (wd_buff wd))))"

lemma get_ptr_and_size_entry:
  "multi_write_data wd = None \<Longrightarrow> get_ptr_and_size s wd = Some (entry_view wd)"
  by (simp add: get_ptr_and_size_def entry_view_def)

definition is_write :: "int \<Rightarrow> sqe \<times> request \<Rightarrow> bool" where
  "is_write i er \<longleftrightarrow> rq_event (snd er) = WRITE \<and> rq_client_idx (snd er) = i"

text \<open>The submission \<open>e\<close> of request \<open>r\<close> writes the rest of the entry \<open>wd\<close> of client \<open>c\<close>.\<close>

definition writes_entry :: "'c client_base_scheme \<Rightarrow> write_data \<Rightarrow> sqe \<Rightarrow> request \<Rightarrow> bool" where
  "writes_entry c wd e r \<longleftrightarrow> rq_ID r = cl_id c \<and> rq_total_length r = u32 (snd (entry_view wd)) \<and>
     0 \<le> rq_written r \<and> rq_written r \<le> rq_total_length r \<and> (0 < rq_written r \<longrightarrow> rq_written r < rq_total_length r) \<and>
     e = Op_write (sockfd c) (ptr_add (fst (entry_view wd)) (rq_written r))
           (rq_total_length r - rq_written r)"

text \<open>
  A client has exactly one write in flight while its queue is not empty, and it is a write of
  the queue's front; otherwise it has none.
\<close>

definition slot_ok :: "(sqe \<times> request) multiset \<Rightarrow> int \<Rightarrow> 'c client_base_scheme \<Rightarrow> bool" where
  "slot_ok P i c \<longleftrightarrow> (\<forall>wd\<in>set (send_data c). multi_write_data wd = None) \<and>
     (case send_data c of
        [] \<Rightarrow> num_write_reqs c = 0 \<and> filter_mset (is_write i) P = {#}
      | wd # _ \<Rightarrow> num_write_reqs c = 1 \<and>
          (\<exists>e r. filter_mset (is_write i) P = {#(e, r)#} \<and> writes_entry c wd e r))"

definition plain_ok ::
    "'c client_base_scheme list \<Rightarrow> int set \<Rightarrow> int set \<Rightarrow> (sqe \<times> request) multiset \<Rightarrow> bool" where
  "plain_ok cs A F P \<longleftrightarrow> finite A \<and> finite F \<and> A \<inter> F = {} \<and>
     (\<forall>i. i \<in> A \<union> F \<longleftrightarrow> in_range cs i) \<and>
     (\<forall>i\<in>F. send_data (cs ! nat i) = []) \<and>
     (\<forall>i. in_range cs i \<longrightarrow> slot_ok P i (cs ! nat i)) \<and>
     (\<forall>er\<in>#P. client_request (rq_event (snd er)) \<longrightarrow>
        rq_event (snd er) \<in> {READ, WRITE} \<and> in_range cs (rq_client_idx (snd er)))"

definition plain_inv_at :: "(sqe \<times> request) multiset \<Rightarrow> ('c, 'w) server \<Rightarrow> bool" where
  "plain_inv_at P s \<longleftrightarrow> plain_ok (clients s) (active_connections s) (freed_indexes s) P"

abbreviation plain_inv :: "('c, 'w) server \<Rightarrow> bool" where
  "plain_inv s \<equiv> plain_inv_at (inflight s) s"

lemma ptr_add_0 [simp]: "ptr_add p 0 = p"
  by (cases p) auto

lemma ptr_add_add: "0 \<le> a \<Longrightarrow> 0 \<le> b \<Longrightarrow> ptr_add (ptr_add p a) b = ptr_add p (a + b)"
  by (cases p) (auto simp: nat_add_distrib add.commute)

section \<open>Preservation of the bookkeeping\<close>

lemma plain_ok_finite: "plain_ok cs A F P \<Longrightarrow> finite A \<and> finite F"
  by (simp add: plain_ok_def)

lemma plain_ok_slot: "plain_ok cs A F P \<Longrightarrow> in_range cs i \<Longrightarrow> slot_ok P i (cs ! nat i)"
  by (simp add: plain_ok_def)

lemma plain_ok_active: "plain_ok cs A F P \<Longrightarrow> i \<in> A \<Longrightarrow> in_range cs i"
  by (auto simp: plain_ok_def)

lemma plain_ok_nonempty_active:
  "plain_ok cs A F P \<Longrightarrow> in_range cs i \<Longrightarrow> send_data (cs ! nat i) \<noteq> [] \<Longrightarrow> i \<in> A"
  by (auto simp: plain_ok_def)

lemma slot_ok_cong:
  "filter_mset (is_write i) P = filter_mset (is_write i) Q \<Longrightarrow> slot_ok P i c = slot_ok Q i c"
  by (simp add: slot_ok_def split: list.split)

text \<open>One client and its own writes change; requests of other clients stay.\<close>

lemma plain_ok_update:
  assumes "plain_ok cs A F P" "in_range cs i" "slot_ok Q i c"
    and "\<And>j. j \<noteq> i \<Longrightarrow> filter_mset (is_write j) Q = filter_mset (is_write j) P"
    and "i \<in> F \<Longrightarrow> send_data c = []"
    and "\<And>er. er \<in># Q \<Longrightarrow> er \<notin># P \<Longrightarrow> client_request (rq_event (snd er)) \<Longrightarrow>
           rq_event (snd er) \<in> {READ, WRITE} \<and> in_range cs (rq_client_idx (snd er))"
  shows "plain_ok (cs[nat i := c]) A F Q"
  unfolding plain_ok_def
proof (intro conjI allI ballI impI)
  show "finite A" "finite F" "A \<inter> F = {}" using assms(1) by (auto simp: plain_ok_def)
next
  fix j show "(j \<in> A \<union> F) = in_range (cs[nat i := c]) j" using assms(1) by (auto simp: plain_ok_def)
next
  fix j assume j: "j \<in> F"
  then have "in_range cs j" using assms(1) by (auto simp: plain_ok_def)
  then show "send_data (cs[nat i := c] ! nat j) = []"
    using assms(1,2,5) j by (auto simp: plain_ok_def nth_nat_update)
next
  fix j assume j: "in_range (cs[nat i := c]) j"
  then have "slot_ok P j (cs ! nat j)" using assms(1) by (simp add: plain_ok_slot)
  then show "slot_ok Q j (cs[nat i := c] ! nat j)"
    using assms(2,3) slot_ok_cong [OF assms(4) [of j]] j by (auto simp: nth_nat_update)
next
  fix er assume "er \<in># Q" "client_request (rq_event (snd er))"
  then show "rq_event (snd er) \<in> {READ, WRITE}" "in_range (cs[nat i := c]) (rq_client_idx (snd er))"
    using assms(1) assms(6) [of er] by (cases "er \<in># P"; auto simp: plain_ok_def)+
qed

text \<open>Requests that are no client writes do not matter.\<close>

lemma plain_ok_add_other:
  fixes cs :: "'c client_base_scheme list"
  assumes "plain_ok cs A F P" "rq_event (snd er) \<noteq> WRITE"
    and "client_request (rq_event (snd er)) \<Longrightarrow>
      rq_event (snd er) = READ \<and> in_range cs (rq_client_idx (snd er))"
  shows "plain_ok cs A F (add_mset er P)"
proof -
  have "slot_ok (add_mset er P) j c = slot_ok P j c" for j and c :: "'c client_base_scheme"
    by (rule slot_ok_cong) (use assms(2) in \<open>simp add: is_write_def\<close>)
  then show ?thesis using assms by (auto simp: plain_ok_def)
qed

lemma plain_ok_remove_other:
  fixes cs :: "'c client_base_scheme list"
  assumes "plain_ok cs A F (add_mset er P)" "rq_event (snd er) \<noteq> WRITE"
  shows "plain_ok cs A F P"
proof -
  have "slot_ok (add_mset er P) j c = slot_ok P j c" for j and c :: "'c client_base_scheme"
    by (rule slot_ok_cong) (use assms(2) in \<open>simp add: is_write_def\<close>)
  then show ?thesis using assms by (auto simp: plain_ok_def)
qed


section \<open>Queueing a write\<close>

text \<open>What the two \<open>write_connection\<close> overloads and a broadcast do for one client.\<close>

definition push_write :: "int \<Rightarrow> write_data \<Rightarrow> cptr \<Rightarrow> int \<Rightarrow> ('c, 'w) op" where
  "push_write idx wd p n s = do {
     s \<leftarrow> enqueue_write idx wd s;
     c \<leftarrow> vget (clients s) idx;
     if length (send_data c) = 1 then add_write_req idx WRITE p n s else Some s
   }"

lemma write_connection_vec_push:
  "write_connection_vec idx buff = push_write idx (write_data_vec buff) (Ptr Queue_entry buff) (int (length buff))"
  by (simp add: fun_eq_iff write_connection_vec_def push_write_def)

lemma write_connection_ptr_push:
  "write_connection_ptr idx buff len = push_write idx (write_data_ptr buff len False 0) buff len"
  by (simp add: fun_eq_iff write_connection_ptr_def push_write_def)

lemma broadcast_ptr_loop_push:
  "broadcast_ptr_loop buff len info (idx # rest) s =
     Option.bind (push_write idx (write_data_ptr buff len True info) buff len s)
       (broadcast_ptr_loop buff len info rest)"
  by (simp add: push_write_def)

text \<open>What an operation on the connections leaves alone.\<close>

definition same_frame :: "('c, 'w) server \<Rightarrow> ('c, 'w) server \<Rightarrow> bool" where
  "same_frame s t \<longleftrightarrow> length (clients t) = length (clients s) \<and>
     active_connections t = active_connections s \<and> freed_indexes t = freed_indexes s \<and>
     custom_obj t = custom_obj s \<and> is_active t = is_active s"

lemma same_frame_refl [simp]: "same_frame s s"
  by (simp add: same_frame_def)

lemma same_frame_trans: "same_frame s t \<Longrightarrow> same_frame t u \<Longrightarrow> same_frame s u"
  by (simp add: same_frame_def)

lemma same_frame_range: "same_frame s t \<Longrightarrow> in_range (clients t) i = in_range (clients s) i"
  by (simp add: same_frame_def in_range_def)

text \<open>The first write of a queue goes in flight.\<close>

lemma slot_ok_start:
  assumes "send_data c = wd # ws" "\<forall>wd\<in>set (send_data c). multi_write_data wd = None"
    and "filter_mset (is_write i) P = {#}" "num_write_reqs c = 1" "entry_view wd = (p, n)"
    and "rq_event r = WRITE" "rq_client_idx r = i" "rq_ID r = cl_id c" "rq_written r = 0"
    and "rq_total_length r = u32 n"
  shows "slot_ok (add_mset (Op_write (sockfd c) p (u32 n), r) P) i c"
  using assms by (simp add: slot_ok_def is_write_def writes_entry_def u32_bounds)

lemma add_write_req_step:
  assumes "in_range (clients s) i"
  shows "add_write_req i WRITE p n s =
    (let c = clients s ! nat i;
         r = (new_request WRITE)\<lparr>rq_client_idx := i, rq_total_length := u32 n, rq_buffer := p, rq_ID := cl_id c\<rparr>
     in Some (s\<lparr>clients := (clients s)[nat i := c\<lparr>num_write_reqs := num_write_reqs c + 1\<rparr>],
               inflight := add_mset (Op_write (sockfd c) p (u32 n), r) (inflight s)\<rparr>))"
  using assms by (simp add: add_write_req_def upd_client_def vec_simps submit_def Let_def)

lemma add_write_req_ok:
  assumes ok: "plain_ok ((clients s)[nat i := c\<lparr>send_data := []\<rparr>]) (active_connections s) (freed_indexes s) (inflight s)"
    and i: "in_range (clients s) i" "i \<in> active_connections s" and c: "c = clients s ! nat i"
    and q: "send_data c = wd # ws" "\<forall>wd\<in>set (send_data c). multi_write_data wd = None"
    and n: "num_write_reqs c = 0" and v: "entry_view wd = (p, n)"
  shows "\<exists>t. add_write_req i WRITE p n s = Some t \<and> plain_inv t \<and> same_frame s t"
proof -
  have F: "i \<notin> freed_indexes s" using ok i by (auto simp: plain_ok_def)
  have none: "filter_mset (is_write i) (inflight s) = {#}"
    using plain_ok_slot [OF ok, of i] i by (simp add: slot_ok_def nth_nat_update)
  let ?r = "(new_request WRITE)\<lparr>rq_client_idx := i, rq_total_length := u32 n, rq_buffer := p, rq_ID := cl_id c\<rparr>"
  let ?c = "c\<lparr>num_write_reqs := num_write_reqs c + 1\<rparr>"
  let ?P = "add_mset (Op_write (sockfd c) p (u32 n), ?r) (inflight s)"
  have slot: "slot_ok ?P i ?c"
    using slot_ok_start [of ?c wd ws i "inflight s" p n ?r] none q n v by (simp add: new_request_def)
  have "plain_ok (((clients s)[nat i := c\<lparr>send_data := []\<rparr>])[nat i := ?c]) (active_connections s) (freed_indexes s) ?P"
    by (rule plain_ok_update [OF ok]) (use i F slot in \<open>auto simp: is_write_def new_request_def\<close>)
  then show ?thesis
    using i by (simp add: add_write_req_step c Let_def plain_inv_at_def same_frame_def)
qed

lemma push_write_ok:
  assumes inv: "plain_inv s" and i: "i \<in> active_connections s"
    and wd: "multi_write_data wd = None" "entry_view wd = (p, n)"
  shows "\<exists>t. push_write i wd p n s = Some t \<and> plain_inv t \<and> same_frame s t"
proof -
  let ?c = "clients s ! nat i"
  let ?c' = "?c\<lparr>send_data := send_data ?c @ [wd]\<rparr>"
  let ?s = "s\<lparr>clients := (clients s)[nat i := ?c']\<rparr>"
  have r: "in_range (clients s) i" and F: "i \<notin> freed_indexes s"
    using inv i by (auto simp: plain_inv_at_def plain_ok_def)
  have slot: "slot_ok (inflight s) i ?c"
    using inv r by (simp add: plain_inv_at_def plain_ok_slot)
  have nth: "(clients s)[nat i := x] ! nat i = x" for x
    using r by (simp add: in_range_nat)
  have enq: "push_write i wd p n s =
      (if send_data ?c = [] then add_write_req i WRITE p n ?s else Some ?s)"
    using r nth by (simp add: push_write_def enqueue_write_def upd_client_def vmod_in_range vget_in_range)
  show ?thesis
  proof (cases "send_data ?c")
    case Nil
    then have "(clients ?s)[nat i := ?c'\<lparr>send_data := []\<rparr>] = clients s"
      using r by (simp add: in_range_nat list_update_same_conv)
    then have ok: "plain_ok ((clients ?s)[nat i := ?c'\<lparr>send_data := []\<rparr>])
        (active_connections ?s) (freed_indexes ?s) (inflight ?s)"
      using inv by (simp add: plain_inv_at_def)
    have "\<exists>t. add_write_req i WRITE p n ?s = Some t \<and> plain_inv t \<and> same_frame ?s t"
      by (rule add_write_req_ok [OF ok]) (use r i nth Nil wd slot in \<open>auto simp: slot_ok_def\<close>)
    then show ?thesis using enq Nil by (simp add: same_frame_def)
  next
    case (Cons a ws)
    have "slot_ok (inflight s) i ?c'"
      using slot Cons wd(1) by (simp add: slot_ok_def writes_entry_def)
    then have "plain_ok ((clients s)[nat i := ?c']) (active_connections s) (freed_indexes s) (inflight s)"
      by (intro plain_ok_update [OF inv [unfolded plain_inv_at_def] r]) (use F in auto)
    then show ?thesis using enq Cons by (simp add: plain_inv_at_def same_frame_def)
  qed
qed


section \<open>The public operations keep the invariant\<close>

lemma write_connection_vec_ok:
  assumes "plain_inv s" "i \<in> active_connections s"
  shows "\<exists>t. write_connection_vec i b s = Some t \<and> plain_inv t \<and> same_frame s t"
  using push_write_ok [OF assms] by (simp add: write_connection_vec_push write_data_vec_def entry_view_def)

lemma write_connection_ptr_ok:
  assumes "plain_inv s" "i \<in> active_connections s" "p \<noteq> Nullptr"
  shows "\<exists>t. write_connection_ptr i p n s = Some t \<and> plain_inv t \<and> same_frame s t"
  using push_write_ok [OF assms(1,2)] assms(3)
  by (simp add: write_connection_ptr_push write_data_ptr_def entry_view_def)

lemma broadcast_ptr_loop_ok:
  assumes "plain_inv s" "set idxs \<subseteq> active_connections s" "p \<noteq> Nullptr"
  shows "\<exists>t. broadcast_ptr_loop p n info idxs s = Some t \<and> plain_inv t \<and> same_frame s t"
  using assms
proof (induction idxs arbitrary: s)
  case Nil
  then show ?case by simp
next
  case (Cons i rest)
  obtain t where t: "push_write i (write_data_ptr p n True info) p n s = Some t" "plain_inv t" "same_frame s t"
    using push_write_ok [OF Cons.prems(1), of i "write_data_ptr p n True info" p n] Cons.prems(2,3)
    by (auto simp: write_data_ptr_def entry_view_def)
  then show ?case
    using Cons.IH [of t] Cons.prems(2,3) same_frame_trans [OF t(3)]
    by (fastforce simp: broadcast_ptr_loop_push same_frame_def simp del: broadcast_ptr_loop.simps)
qed

lemma broadcast_message_ptr_ok:
  assumes "plain_inv s" "set idxs \<subseteq> active_connections s" "p \<noteq> Nullptr"
  shows "\<exists>t. broadcast_message_ptr idxs k p n info s = Some t \<and> plain_inv t \<and> same_frame s t"
  using broadcast_ptr_loop_ok [OF assms] assms(1) by (simp add: broadcast_message_ptr_def)

text \<open>A change of a client that its writes do not depend on.\<close>

lemma plain_ok_neutral:
  assumes "plain_ok cs A F P" "in_range cs i"
    and "send_data c = send_data (cs ! nat i)" "num_write_reqs c = num_write_reqs (cs ! nat i)"
    and "cl_id c = cl_id (cs ! nat i)" "sockfd c = sockfd (cs ! nat i)"
  shows "plain_ok (cs[nat i := c]) A F P"
proof (rule plain_ok_update [OF assms(1,2)])
  show "slot_ok P i c" using plain_ok_slot [OF assms(1,2)] assms(3-)
    by (simp add: slot_ok_def writes_entry_def split: list.splits)
  show "i \<in> F \<Longrightarrow> send_data c = []" using assms by (simp add: plain_ok_def)
qed auto

lemma add_read_req_ok:
  assumes "plain_inv s" "in_range (clients s) i"
  shows "\<exists>b t. add_read_req i READ s = Some (b, t) \<and> plain_inv t \<and> same_frame s t"
proof -
  let ?c = "clients s ! nat i"
  let ?r = "(new_request READ)\<lparr>rq_total_length := int READ_SIZE, rq_client_idx := i,
                   rq_ID := cl_id ?c, rq_read_data := replicate READ_SIZE 0\<rparr>"
  let ?er = "(Op_read (sockfd ?c) 0 (int READ_SIZE) 0, ?r)"
  have "plain_ok ((clients s)[nat i := ?c\<lparr>read_req_active := True\<rparr>]) (active_connections s)
      (freed_indexes s) (add_mset ?er (inflight s))"
    by (rule plain_ok_neutral [OF plain_ok_add_other])
       (use assms in \<open>auto simp: plain_inv_at_def new_request_def\<close>)
  then show ?thesis using assms
    by (auto simp: add_read_req_def vget_in_range upd_client_def vmod_in_range submit_def
        plain_inv_at_def same_frame_def Let_def)
qed

lemma read_connection_ok:
  assumes "plain_inv s" "in_range (clients s) i"
  shows "\<exists>t. read_connection i s = Some t \<and> plain_inv t \<and> same_frame s t"
  using add_read_req_ok [OF assms] by (auto simp: read_connection_def)

lemma submit_other_ok:
  assumes "plain_inv s" "\<not> client_request (rq_event r)"
  shows "plain_inv (submit e r s)" "same_frame s (submit e r s)"
  using assms plain_ok_add_other [of _ _ _ _ "(e, r)"]
  by (auto simp: submit_def plain_inv_at_def client_request_def same_frame_def)

lemma custom_read_req_ok:
  assumes "plain_inv s" "custom_read_req fd n i b a s = Some t"
  shows "plain_inv t \<and> same_frame s t"
  using assms submit_other_ok [OF assms(1)]
  by (auto simp: custom_read_req_def Let_def client_request_def new_request_def split: if_splits)

lemma clear_send_data_plain:
  assumes "in_range (clients s) i" "\<forall>wd\<in>set (send_data (clients s ! nat i)). multi_write_data wd = None"
  shows "clear_send_data i s = Some (s\<lparr>clients := (clients s)[nat i := (clients s ! nat i)\<lparr>send_data := []\<rparr>]\<rparr>)"
proof -
  have "\<forall>wd\<in>set ws. multi_write_data wd = None \<Longrightarrow> destroy_all ws t = Some t" for ws and t :: "('a, 'b) server"
    by (induction ws) (auto simp: destroy_write_data_def)
  then show ?thesis using assms
    by (simp add: clear_send_data_def upd_client_def vec_simps)
qed

text \<open>
  Closing a client with no write in flight, whatever is left in its queue: the slot becomes
  free. \<open>plain_ok\<close> is asked of the state with the queue emptied.
\<close>

lemma close_connection_closes:
  assumes i: "in_range (clients s) i" and c: "c = clients s ! nat i"
    and ok: "plain_ok ((clients s)[nat i := c\<lparr>send_data := []\<rparr>]) (active_connections s) (freed_indexes s) (inflight s)"
    and q: "\<forall>wd\<in>set (send_data c). multi_write_data wd = None" and n: "num_write_reqs c = 0"
  shows "\<exists>t. close_connection i s = Some t \<and> plain_inv t \<and> custom_obj t = custom_obj s \<and>
    length (clients t) = length (clients s) \<and> i \<in> freed_indexes t \<and>
    active_connections t = active_connections s - {i} \<and> closed_fds t = closed_fds s @ [sockfd c]"
proof -
  have "plain_ok ((clients s)[nat i := c\<lparr>send_data := []\<rparr>]) (active_connections s - {i})
      (insert i (freed_indexes s)) (inflight s)"
    using ok i by (auto simp: plain_ok_def nth_nat_update)
  then show ?thesis using i c q n
    by (simp add: close_connection_def vget_in_range clear_send_data_plain plain_inv_at_def)
qed

lemma close_connection_ok:
  assumes "plain_inv s" "in_range (clients s) i"
  shows "\<exists>t. close_connection i s = Some t \<and> plain_inv t \<and> custom_obj t = custom_obj s \<and>
    length (clients t) = length (clients s) \<and> active_connections t \<in> {active_connections s, active_connections s - {i}}"
proof (cases "num_write_reqs (clients s ! nat i) = 0")
  case True
  let ?c = "clients s ! nat i"
  have "slot_ok (inflight s) i ?c" using assms by (simp add: plain_inv_at_def plain_ok_slot)
  then have q: "send_data ?c = []" using True by (auto simp: slot_ok_def split: list.splits)
  have "(clients s)[nat i := ?c\<lparr>send_data := []\<rparr>] = clients s"
    using q assms(2) by (simp add: list_update_same_conv in_range_nat)
  then show ?thesis
    using close_connection_closes [OF assms(2) refl] assms q True by (auto simp: plain_inv_at_def)
next
  case False
  then show ?thesis using assms by (simp add: close_connection_def vget_in_range)
qed

end
