(* ===== verification/Tcp_Pending.thy ===== *)
theory Tcp_Pending
  imports Tcp_Plain
begin

text \<open>
  The broadcast items that wait in the write queues. Every operation of the plain server that
  queues, finishes or drops writes is described by what it adds to this multiset or takes from it.
\<close>

section \<open>The items in the queues\<close>

text \<open>The item of a write and the pointer to its bytes; the item \<open>-1\<close> says that it is no broadcast.\<close>

type_synonym items = "(int \<times> cptr) multiset"

definition bcast :: "int \<Rightarrow> cptr \<Rightarrow> items" where
  "bcast info p = (if info = -1 then {#} else {#(info, p)#})"

definition entry_item :: "write_data \<Rightarrow> items" where
  "entry_item wd = bcast (broadcast_info wd) (ptr_buff wd)"

definition queued_items :: "'c client_base_scheme \<Rightarrow> items" where
  "queued_items c = sum_list (map entry_item (send_data c))"

definition pending_items :: "'c client_base_scheme list \<Rightarrow> items" where
  "pending_items cs = sum_list (map queued_items cs)"

lemma bcast_none [simp]: "bcast (-1) p = {#}"
  by (simp add: bcast_def)

lemma queued_items_Nil: "send_data c = [] \<Longrightarrow> queued_items c = {#}"
  by (simp add: queued_items_def)

lemma queued_items_Cons: "send_data c = wd # ws \<Longrightarrow> queued_items c = entry_item wd + queued_items (c\<lparr>send_data := ws\<rparr>)"
  by (simp add: queued_items_def)

lemma queued_items_cong: "send_data c = send_data d \<Longrightarrow> queued_items c = queued_items d"
  by (simp add: queued_items_def)

lemma entry_item_vec [simp]: "entry_item (write_data_vec b) = {#}"
  by (simp add: entry_item_def broadcast_info_def write_data_vec_def)

lemma entry_item_ptr [simp]: "entry_item (write_data_ptr p n b k) = (if b then bcast (i32 k) p else {#})"
  by (simp add: entry_item_def broadcast_info_def write_data_ptr_def)

lemma sum_list_exchange:
  fixes xs :: "'a::comm_monoid_add list"
  shows "n < length xs \<Longrightarrow> sum_list (xs[n := x]) + xs ! n = sum_list xs + x"
proof (induction xs arbitrary: n)
  case Nil
  then show ?case by simp
next
  case (Cons y ys)
  show ?case
  proof (cases n)
    case 0
    then show ?thesis by (simp add: ac_simps)
  next
    case (Suc m)
    then have "sum_list (ys[m := x]) + ys ! m = sum_list ys + x" using Cons by simp
    then show ?thesis using Suc by (simp add: add.assoc)
  qed
qed

lemma pending_exchange:
  "in_range cs i \<Longrightarrow> pending_items (cs[nat i := c]) + queued_items (cs ! nat i) = pending_items cs + queued_items c"
  using sum_list_exchange [of "nat i" "map queued_items cs"] by (simp add: pending_items_def map_update in_range_nat)

lemma pending_same:
  assumes "in_range cs i" "send_data c = send_data (cs ! nat i)"
  shows "pending_items (cs[nat i := c]) = pending_items cs"
  using pending_exchange [OF assms(1), of c] queued_items_cong [OF assms(2)] by simp

lemma pending_append: "pending_items (cs @ [c]) = pending_items cs + queued_items c"
  by (simp add: pending_items_def)

lemma pending_push:
  assumes "in_range cs i" "send_data c = send_data (cs ! nat i) @ [wd]"
  shows "pending_items (cs[nat i := c]) = pending_items cs + entry_item wd"
proof -
  have "queued_items c = queued_items (cs ! nat i) + entry_item wd"
    using assms(2) by (simp add: queued_items_def)
  then have "pending_items (cs[nat i := c]) + queued_items (cs ! nat i) = (pending_items cs + entry_item wd) + queued_items (cs ! nat i)"
    using pending_exchange [OF assms(1), of c] by (simp add: ac_simps)
  then show ?thesis by (simp only: add_right_cancel)
qed

lemma pending_pop:
  assumes "in_range cs i" "send_data (cs ! nat i) = wd # send_data c"
  shows "pending_items cs = pending_items (cs[nat i := c]) + entry_item wd"
proof -
  have "queued_items (cs ! nat i) = entry_item wd + queued_items c"
    using assms(2) by (simp add: queued_items_def)
  then have "pending_items cs + queued_items c = (pending_items (cs[nat i := c]) + entry_item wd) + queued_items c"
    using pending_exchange [OF assms(1), of c] by (simp add: ac_simps)
  then show ?thesis by (simp only: add_right_cancel)
qed

text \<open>An item is pending when some queue holds it.\<close>

lemma set_sum_list_mset: "set_mset (sum_list Ms) = (\<Union>M\<in>set Ms. set_mset M)"
  by (induction Ms) auto

lemma in_pending_iff:
  "(k, p) \<in># pending_items cs \<longleftrightarrow>
     (\<exists>c\<in>set cs. \<exists>wd\<in>set (send_data c). broadcast_info wd = k \<and> k \<noteq> -1 \<and> ptr_buff wd = p)"
  by (auto simp: pending_items_def queued_items_def set_sum_list_mset entry_item_def bcast_def split: if_splits)

section \<open>Operations that leave the items alone\<close>

lemma pending_submit [simp]: "clients (submit e r s) = clients s"
  by (simp add: submit_def)

lemma pending_upd_client:
  assumes "upd_client i f s = Some t" "\<And>c. send_data (f c) = send_data c"
  shows "pending_items (clients t) = pending_items (clients s)"
  using assms by (auto simp: upd_client_def bind_Some_iff vmod_eq_Some pending_same)

lemma add_write_req_pending:
  "add_write_req i ev p n s = Some t \<Longrightarrow> pending_items (clients t) = pending_items (clients s)"
  by (auto simp: add_write_req_def Let_def bind_Some_iff dest!: pending_upd_client)

lemma read_connection_pending:
  "read_connection i s = Some t \<Longrightarrow> pending_items (clients t) = pending_items (clients s)"
  by (auto simp: read_connection_def add_read_req_def Let_def bind_Some_iff dest!: pending_upd_client split: if_splits)

lemma custom_read_req_pending:
  "custom_read_req fd n i b a s = Some t \<Longrightarrow> clients t = clients s"
  by (auto simp: custom_read_req_def Let_def split: if_splits)

lemma custom_read_continued_pending:
  "custom_read_req_continued r n s = Some t \<Longrightarrow> clients t = clients s"
  by (auto simp: custom_read_req_continued_def Let_def split: if_splits)

lemma add_write_req_continued_pending:
  "add_write_req_continued r n s = Some t \<Longrightarrow> clients t = clients s"
  by (auto simp: add_write_req_continued_def Let_def bind_Some_iff)

lemma destroy_write_data_clients: "destroy_write_data wd s = Some t \<Longrightarrow> clients t = clients s"
  by (auto simp: destroy_write_data_def bind_Some_iff split: option.splits)

section \<open>Operations on the queues\<close>

lemma push_write_pending:
  assumes "push_write i wd p n s = Some t"
  shows "pending_items (clients t) = pending_items (clients s) + entry_item wd"
proof -
  obtain s1 where s1: "enqueue_write i wd s = Some s1" and t: "add_write_req i WRITE p n s1 = Some t \<or> t = s1"
    using assms by (auto simp: push_write_def bind_Some_iff split: if_splits)
  have "pending_items (clients s1) = pending_items (clients s) + entry_item wd"
    using s1 pending_push [of "clients s" i _ wd] by (auto simp: enqueue_write_def upd_client_def bind_Some_iff vmod_eq_Some)
  moreover have "pending_items (clients t) = pending_items (clients s1)" using t add_write_req_pending by auto
  ultimately show ?thesis by simp
qed

lemma write_connection_pending:
  "write_connection_vec i b s = Some t \<Longrightarrow> pending_items (clients t) = pending_items (clients s)"
  "write_connection_ptr i p n s = Some t \<Longrightarrow> pending_items (clients t) = pending_items (clients s)"
  by (auto simp: write_connection_vec_push write_connection_ptr_push dest: push_write_pending)

lemma broadcast_loop_pending:
  "broadcast_ptr_loop p n k idxs s = Some t \<Longrightarrow>
     pending_items (clients t) = pending_items (clients s) + sum_list (map (\<lambda>_. bcast (i32 k) p) idxs)"
proof (induction idxs arbitrary: s)
  case Nil
  then show ?case by simp
next
  case (Cons i idxs)
  then obtain s1 where s1: "push_write i (write_data_ptr p n True k) p n s = Some s1" "broadcast_ptr_loop p n k idxs s1 = Some t"
    by (auto simp: broadcast_ptr_loop_push bind_Some_iff simp del: broadcast_ptr_loop.simps)
  then show ?case using Cons.IH [OF s1(2)] push_write_pending [OF s1(1)] by (simp add: add.assoc)
qed

lemma pop_send_data_pending:
  assumes "pop_send_data i s = Some t" "vget (clients s) i = Some c" "send_data c = wd # ws"
  shows "pending_items (clients s) = pending_items (clients t) + entry_item wd"
  using assms
  by (auto simp: pop_send_data_def upd_client_def bind_Some_iff vmod_eq_Some vget_eq_Some
      dest!: destroy_write_data_clients intro!: pending_pop)

text \<open>A finished write leaves with the item that the write callback is told of.\<close>

lemma finish_write_pending:
  assumes "finish_write r s = Some (info, t)"
  shows "\<exists>p. pending_items (clients s) = pending_items (clients t) + bcast info p"
proof -
  let ?i = "rq_client_idx r"
  obtain s1 c where s1: "upd_client ?i (\<lambda>c. c\<lparr>num_write_reqs := num_write_reqs c - 1\<rparr>) s = Some s1"
    and c: "vget (clients s1) ?i = Some c"
    using assms by (auto simp: finish_write_def bind_Some_iff)
  have p1: "pending_items (clients s1) = pending_items (clients s)" by (rule pending_upd_client [OF s1]) simp
  show ?thesis
  proof (cases "?i \<in> active_connections s1 \<and> cl_id c = rq_ID r")
    case True
    then obtain front ws where f: "send_data c = front # ws"
      using assms s1 c by (cases "send_data c") (auto simp: finish_write_def bind_Some_iff)
    then obtain s2 c2 where s2: "pop_send_data ?i s1 = Some s2" "vget (clients s2) ?i = Some c2" and info: "info = broadcast_info front"
      and t: "(case send_data c2 of [] \<Rightarrow> Some s2 | wd # _ \<Rightarrow> do {
                 (buff, len) \<leftarrow> get_ptr_and_size s2 wd; add_write_req ?i WRITE buff len s2 }) = Some t"
      using assms s1 c True unfolding finish_write_def bind_Some_iff by (auto simp: bind_Some_iff)
    have "pending_items (clients t) = pending_items (clients s2)"
      using t by (cases "send_data c2") (auto simp: bind_Some_iff dest: add_write_req_pending)
    then show ?thesis using pop_send_data_pending [OF s2(1) c f] p1 info by (auto simp: entry_item_def)
  next
    case False
    then show ?thesis using assms s1 c p1 by (auto simp: finish_write_def bind_Some_iff)
  qed
qed

text \<open>Closing a connection drops no item, because its queue is empty when no write is in flight.\<close>

lemma close_connection_pending:
  assumes inv: "plain_inv s" and i: "in_range (clients s) i" and run: "close_connection i s = Some t"
  shows "pending_items (clients t) = pending_items (clients s)"
proof (cases "num_write_reqs (clients s ! nat i) = 0")
  case True
  have "slot_ok (inflight s) i (clients s ! nat i)" using inv i by (simp add: plain_inv_at_def plain_ok_slot)
  then have "send_data (clients s ! nat i) = []" using True by (auto simp: slot_ok_def split: list.splits)
  then show ?thesis using run True i
    by (auto simp: close_connection_def vget_in_range clear_send_data_plain bind_Some_iff intro!: pending_same)
next
  case False
  then show ?thesis using run i by (simp add: close_connection_def vget_in_range)
qed

lemma setup_client_pending:
  assumes inv: "plain_inv s" and run: "setup_client plain_client fd s = Some (i, t)"
  shows "pending_items (clients t) = pending_items (clients s)"
proof (cases "freed_indexes s = {}")
  case True
  then show ?thesis using run by (auto simp: setup_client_def pending_append queued_items_def plain_client_def)
next
  case False
  let ?k = "Min (freed_indexes s)"
  have ok: "plain_ok (clients s) (active_connections s) (freed_indexes s) (inflight s)" using inv by (simp add: plain_inv_at_def)
  then have "?k \<in> freed_indexes s" using False by (simp add: plain_ok_def)
  then have k: "in_range (clients s) ?k" "send_data (clients s ! nat ?k) = []" using ok by (auto simp: plain_ok_def)
  then show ?thesis using run False
    by (auto simp: setup_client_def Let_def vget_in_range clear_send_data_plain upd_client_def bind_Some_iff vmod_eq_Some
        plain_client_def in_range_nat intro!: pending_same)
qed

end
