(* ===== verification/Tcp_Plain_Steps.thy ===== *)
theory Tcp_Plain_Steps
  imports Tcp_Pending
begin

text \<open>
  Every completion the plain server can process keeps the write-queue invariant.

  The locale \<open>plain_layer\<close> is the contract of the callbacks: they may call the public
  operations of the server, so they keep \<open>plain_inv\<close>, and \<open>close_cb\<close> only touches its
  own object, because the loop that calls it is in the middle of emptying a queue. \<open>K\<close> is
  whatever the layer above maintains about its object and the number of client slots. The
  theorems are proved once, for every layer.
\<close>

section \<open>A new connection\<close>

lemma setup_client_ok:
  assumes inv: "plain_inv s"
  shows "\<exists>i t. setup_client plain_client fd s = Some (i, t) \<and>
    plain_ok (clients t) (insert i (active_connections t)) (freed_indexes t) (inflight t) \<and>
    active_connections t = active_connections s \<and> i \<notin> active_connections s \<and>
    in_range (clients t) i \<and> sockfd (clients t ! nat i) = fd \<and>
    length (clients t) = length (clients s) + (if i = int (length (clients s)) then 1 else 0) \<and>
    custom_obj t = custom_obj s \<and> is_active t = is_active s \<and> inflight t = inflight s"
proof (cases "freed_indexes s = {}")
  case True
  let ?n = "length (clients s)" and ?c = "plain_client\<lparr>sockfd := fd\<rparr>"
  have ok: "plain_ok (clients s) (active_connections s) {} (inflight s)"
    using inv True by (simp add: plain_inv_at_def)
  have rng: "in_range (clients s @ [?c]) j \<longleftrightarrow> in_range (clients s) j \<or> j = int ?n" for j
    by (auto simp: in_range_def)
  have new: "filter_mset (is_write (int ?n)) (inflight s) = {#}"
    using ok by (auto simp: plain_ok_def is_write_def in_range_def client_request_def)
  have nth: "(clients s @ [?c]) ! nat j = (if j = int ?n then ?c else clients s ! nat j)"
    if "in_range (clients s @ [?c]) j" for j
    using that by (auto simp: in_range_def nth_append)
  have slot: "slot_ok (inflight s) j ((clients s @ [?c]) ! nat j)" if "in_range (clients s @ [?c]) j" for j
  proof (cases "j = int ?n")
    case True
    then show ?thesis using new nth [OF that] by (simp add: slot_ok_def plain_client_def)
  next
    case False
    then show ?thesis using that nth [OF that] rng plain_ok_slot [OF ok] by simp
  qed
  have "plain_ok (clients s @ [?c]) (insert (int ?n) (active_connections s)) {} (inflight s)"
    unfolding plain_ok_def rng
  proof (intro conjI allI impI ballI)
    show "slot_ok (inflight s) j ((clients s @ [?c]) ! nat j)" if "in_range (clients s) j \<or> j = int ?n" for j
      using that slot [of j] rng by simp
  qed (use ok in \<open>auto simp: plain_ok_def in_range_def\<close>)
  moreover have "int ?n \<notin> active_connections s" using ok by (auto simp: plain_ok_def in_range_def)
  ultimately show ?thesis using True by (simp add: setup_client_def)
next
  case False
  let ?i = "Min (freed_indexes s)"
  let ?c = "plain_client\<lparr>cl_id := (cl_id (clients s ! nat ?i) + 1) mod 100, sockfd := fd\<rparr>"
  have ok: "plain_ok (clients s) (active_connections s) (freed_indexes s) (inflight s)"
    using inv by (simp add: plain_inv_at_def)
  have F: "?i \<in> freed_indexes s" using ok False by (simp add: plain_ok_def)
  then have i: "?i \<in> freed_indexes s" "in_range (clients s) ?i" "?i \<notin> active_connections s"
    using ok by (auto simp: plain_ok_def)
  have q: "send_data (clients s ! nat ?i) = []" using ok i by (simp add: plain_ok_def)
  then have w: "filter_mset (is_write ?i) (inflight s) = {#}"
    using plain_ok_slot [OF ok i(2)] by (simp add: slot_ok_def)
  have "plain_ok ((clients s)[nat ?i := ?c]) (active_connections s) (freed_indexes s) (inflight s)"
    by (rule plain_ok_update [OF ok i(2)]) (use w in \<open>auto simp: slot_ok_def plain_client_def\<close>)
  then have "plain_ok ((clients s)[nat ?i := ?c]) (insert ?i (active_connections s))
      (freed_indexes s - {?i}) (inflight s)"
    using i by (auto simp: plain_ok_def)
  then show ?thesis using False i q
    by (auto simp: setup_client_def vget_in_range clear_send_data_plain upd_client_def vmod_in_range Let_def
        in_range_nat in_range_def)
qed

section \<open>The completion of a write\<close>

text \<open>A write that has just completed was the only one of its client and wrote the queue's front.\<close>

lemma write_in_hand:
  assumes "plain_ok cs A F (add_mset (e, r) P)" "rq_event r = WRITE"
  obtains wd ws where "in_range cs (rq_client_idx r)" "rq_client_idx r \<in> A"
    "send_data (cs ! nat (rq_client_idx r)) = wd # ws"
    "\<forall>wd\<in>set (send_data (cs ! nat (rq_client_idx r))). multi_write_data wd = None"
    "num_write_reqs (cs ! nat (rq_client_idx r)) = 1"
    "writes_entry (cs ! nat (rq_client_idx r)) wd e r"
    "filter_mset (is_write (rq_client_idx r)) P = {#}"
proof -
  let ?i = "rq_client_idx r"
  have i: "in_range cs ?i" using assms by (auto simp: plain_ok_def client_request_def)
  have s: "slot_ok (add_mset (e, r) P) ?i (cs ! nat ?i)" by (rule plain_ok_slot [OF assms(1) i])
  have w: "is_write ?i (e, r)" using assms(2) by (simp add: is_write_def)
  then obtain wd ws where q: "send_data (cs ! nat ?i) = wd # ws"
    using s by (auto simp: slot_ok_def split: list.splits)
  then have "?i \<in> A" using plain_ok_nonempty_active [OF assms(1) i] by simp
  then show thesis using that [OF i] s w q by (auto simp: slot_ok_def)
qed

text \<open>Taking the write off the books leaves a consistent state with an empty queue.\<close>

lemma plain_ok_finish:
  assumes ok: "plain_ok cs A F (add_mset (e, r) P)" and w: "rq_event r = WRITE"
    and c: "send_data c = []" "num_write_reqs c = 0"
  shows "plain_ok (cs[nat (rq_client_idx r) := c]) A F P"
proof -
  obtain wd ws where h: "in_range cs (rq_client_idx r)" "filter_mset (is_write (rq_client_idx r)) P = {#}"
    by (rule write_in_hand [OF ok w])
  show ?thesis
    by (rule plain_ok_update [OF ok h(1)]) (use h(2) c w in \<open>auto simp: slot_ok_def is_write_def\<close>)
qed

lemma add_write_req_continued_ok:
  assumes inv: "plain_inv_at (add_mset (e, r) (inflight s)) s" and w: "rq_event r = WRITE"
    and res: "0 < res" "res \<le> op_len e" "write_incomplete r res"
  shows "\<exists>t. add_write_req_continued r res s = Some t \<and> plain_inv t \<and> same_frame s t"
proof -
  let ?i = "rq_client_idx r" and ?c = "clients s ! nat (rq_client_idx r)"
  note ok = inv [unfolded plain_inv_at_def]
  obtain wd ws where h: "in_range (clients s) ?i" "?i \<in> active_connections s" "send_data ?c = wd # ws"
    "\<forall>wd\<in>set (send_data ?c). multi_write_data wd = None" "num_write_reqs ?c = 1"
    "writes_entry ?c wd e r" "filter_mset (is_write ?i) (inflight s) = {#}"
    by (rule write_in_hand [OF ok w])
  obtain p n where v: "entry_view wd = (p, n)" by (cases "entry_view wd")
  let ?w = "rq_written r + res"
  have b: "0 \<le> rq_written r" "rq_total_length r = u32 n" "?w \<le> rq_total_length r"
    using h(6) v res(2) by (auto simp: writes_entry_def)
  have small: "u64 ?w = ?w" "u32 (rq_total_length r - ?w) = rq_total_length r - ?w"
    using b res(1) u32_bounds [of n] by (auto intro!: u64_small u32_small)
  have "?w < rq_total_length r" using res small(1) by (simp add: write_incomplete_def add.commute)
  let ?r = "r\<lparr>rq_written := ?w\<rparr>"
  let ?e = "Op_write (sockfd ?c) (ptr_add p ?w) (rq_total_length r - ?w)"
  have slot: "slot_ok (add_mset (?e, ?r) (inflight s)) ?i ?c"
    using h b res(1) v w \<open>?w < rq_total_length r\<close> by (simp add: slot_ok_def is_write_def writes_entry_def)
  have F: "?i \<notin> freed_indexes s" using ok h(1,2) by (auto simp: plain_ok_def)
  have "plain_ok ((clients s)[nat ?i := ?c]) (active_connections s) (freed_indexes s)
      (add_mset (?e, ?r) (inflight s))"
    by (rule plain_ok_update [OF ok h(1) slot]) (use F w h(1) in \<open>auto simp: is_write_def\<close>)
  then show ?thesis using h v small
    by (simp add: add_write_req_continued_def vget_in_range get_ptr_and_size_entry submit_def
        plain_inv_at_def same_frame_def Let_def)
qed

lemma pop_send_data_plain:
  assumes "in_range (clients s) i" "send_data (clients s ! nat i) = wd # ws" "multi_write_data wd = None"
  shows "pop_send_data i s = Some (s\<lparr>clients := (clients s)[nat i := (clients s ! nat i)\<lparr>send_data := ws\<rparr>]\<rparr>)"
  using assms by (simp add: pop_send_data_def upd_client_def vec_simps destroy_write_data_def)

lemma finish_write_ok:
  assumes inv: "plain_inv_at (add_mset (e, r) (inflight s)) s" and w: "rq_event r = WRITE"
  shows "\<exists>wd ws t. send_data (clients s ! nat (rq_client_idx r)) = wd # ws \<and>
    finish_write r s = Some (broadcast_info wd, t) \<and> plain_inv t \<and> same_frame s t \<and>
    send_data (clients t ! nat (rq_client_idx r)) = ws"
proof -
  let ?i = "rq_client_idx r" and ?c = "clients s ! nat (rq_client_idx r)"
  note ok = inv [unfolded plain_inv_at_def]
  obtain wd ws where h: "in_range (clients s) ?i" "?i \<in> active_connections s" "send_data ?c = wd # ws"
    "\<forall>wd\<in>set (send_data ?c). multi_write_data wd = None" "num_write_reqs ?c = 1"
    "writes_entry ?c wd e r"
    by (rule write_in_hand [OF ok w])
  let ?c' = "?c\<lparr>num_write_reqs := 0, send_data := ws\<rparr>"
  let ?s = "s\<lparr>clients := (clients s)[nat ?i := ?c']\<rparr>"
  have fin: "plain_ok ((clients s)[nat ?i := ?c'\<lparr>send_data := []\<rparr>]) (active_connections s)
      (freed_indexes s) (inflight s)"
    by (rule plain_ok_finish [OF ok w]) auto
  have ID: "cl_id ?c = rq_ID r" using h(6) by (simp add: writes_entry_def)
  have eq: "finish_write r s = do {
      t \<leftarrow> (case ws of [] \<Rightarrow> Some ?s | wd' # _ \<Rightarrow> do {
              (buff, len) \<leftarrow> get_ptr_and_size ?s wd'; add_write_req ?i WRITE buff len ?s });
      Some (broadcast_info wd, t) }"
    using h ID by (simp add: finish_write_def upd_client_def vec_simps pop_send_data_plain in_range_nat)
  show ?thesis
  proof (cases ws)
    case Nil
    then show ?thesis using h fin eq by (simp add: plain_inv_at_def same_frame_def in_range_nat)
  next
    case (Cons wd' ws')
    obtain p n where v: "entry_view wd' = (p, n)" by (cases "entry_view wd'")
    have "\<exists>t. add_write_req ?i WRITE p n ?s = Some t \<and> plain_inv t \<and> same_frame ?s t"
      by (rule add_write_req_ok [where c = ?c' and wd = wd' and ws = ws'])
         (use fin h Cons v in \<open>auto simp: in_range_nat\<close>)
    moreover have "send_data (clients t ! nat ?i) = ws" if "add_write_req ?i WRITE p n ?s = Some t" for t
      using that h(1) by (auto simp: add_write_req_step Let_def in_range_nat)
    ultimately show ?thesis using h eq Cons v
      by (auto simp: get_ptr_and_size_entry same_frame_def)
  qed
qed


lemma close_connection_others:
  assumes "close_connection i s = Some t" "in_range (clients s) i" "send_data (clients s ! nat i) = []"
  shows "\<forall>j. j \<noteq> i \<longrightarrow> vget (clients t) j = vget (clients s) j"
  using assms
  by (auto simp: close_connection_def vget_in_range clear_send_data_plain vget_update split: if_splits)

section \<open>Completions that concern an open connection\<close>

text \<open>
  The environment's side of the contract. A read delivers data, and a file read finishes, only
  for a connection that is still open; the timer finds only idle connections closed by the
  peer. The server does not check either; \<open>on_time\<close> is what its code relies on.
\<close>

definition on_time :: "('c, 'w) server \<Rightarrow> (int \<Rightarrow> int) \<Rightarrow> request \<Rightarrow> int \<Rightarrow> bool" where
  "on_time s peek r res \<longleftrightarrow>
     (rq_event r = READ \<and> 0 < res \<longrightarrow> rq_client_idx r \<in> active_connections s) \<and>
     (rq_event r = CUSTOM_READ \<and> 0 \<le> rq_client_idx r \<longrightarrow> rq_client_idx r \<in> active_connections s) \<and>
     (rq_event r = TIMERFD \<longrightarrow> (\<forall>i\<in>active_connections s.
        peek (sockfd (clients s ! nat i)) = 0 \<longrightarrow> send_data (clients s ! nat i) = []))"

text \<open>Storing the bytes of a read does not touch the bookkeeping.\<close>

lemma fill_request_keeps:
  assumes "fill_request e r data = Some r'"
  shows "rq_event r' = rq_event r" "rq_client_idx r' = rq_client_idx r"
  using assms by (auto simp: fill_request_def split: sqe.splits if_splits)

lemma plain_ok_fill:
  assumes ok: "plain_ok cs A F (add_mset (e, r) P)" and f: "fill_request e r data = Some r'"
  shows "plain_ok cs A F (add_mset (e, r') P)"
proof (cases "rq_event r = WRITE")
  case True
  obtain wd where "writes_entry (cs ! nat (rq_client_idx r)) wd e r"
    by (rule write_in_hand [OF ok True])
  then have "r' = r" using f by (simp add: writes_entry_def fill_request_def)
  then show ?thesis using ok by simp
next
  case False
  have "plain_ok cs A F P" using plain_ok_remove_other [OF ok] False by simp
  moreover have "client_request (rq_event r) \<Longrightarrow> rq_event r = READ \<and> in_range cs (rq_client_idx r)"
    using ok False by (auto simp: plain_ok_def)
  ultimately show ?thesis
    using plain_ok_add_other [of cs A F P "(e, r')"] fill_request_keeps [OF f] False by simp
qed

lemma consume_eventfd_frame [simp]:
  "clients (consume_eventfd e res s) = clients s"
  "active_connections (consume_eventfd e res s) = active_connections s"
  "freed_indexes (consume_eventfd e res s) = freed_indexes s"
  "inflight (consume_eventfd e res s) = inflight s"
  "custom_obj (consume_eventfd e res s) = custom_obj s"
  "is_active (consume_eventfd e res s) = is_active s"
  by (auto simp: consume_eventfd_def split: sqe.splits)

lemma complete_kill:
  assumes "complete ord D CB peek e r res data s = Some t" "rq_event r = KILL"
  shows "t = handle_kill (consume_eventfd e res (s\<lparr>inflight := inflight s - {#(e, r)#}\<rparr>))"
  using assms fill_request_keeps [of e r data] by (auto simp: complete_def loop_body_def client_request_def bind_Some_iff)

section \<open>The contract of the callbacks\<close>

text \<open>
  \<open>K n A M w\<close>: the layer's object \<open>w\<close> is consistent with \<open>n\<close> client slots of which those in
  \<open>A\<close> are connected, and with the broadcast items \<open>M\<close> that wait in the write queues. The write and
  close callbacks are told of the item that has left; the close callback may be the last that is
  heard of a client. The accept
  callback sees a server that may have one slot more than its object knows of. \<open>Ev w\<close> is what the
  event callback may rely on when a notification arrives.
\<close>

locale plain_layer =
  fixes CB :: "(unit, 'w) callbacks" and K :: "nat \<Rightarrow> int set \<Rightarrow> items \<Rightarrow> 'w \<Rightarrow> bool"
    and Ev :: "'w \<Rightarrow> bool"
  assumes accept_pres: "accept_cb CB = Some f \<Longrightarrow> plain_inv s \<Longrightarrow> i \<in> active_connections s \<Longrightarrow>
        K n (active_connections s - {i}) (pending_items (clients s)) (custom_obj s) \<Longrightarrow> length (clients s) = n + (if i = int n then 1 else 0) \<Longrightarrow> f i s = Some t \<Longrightarrow>
        plain_inv t \<and> length (clients t) = length (clients s) \<and> K (length (clients t)) (active_connections t) (pending_items (clients t)) (custom_obj t)"
    and no_accept: "accept_cb CB = None \<Longrightarrow> K n A M w \<Longrightarrow> K n (insert i A) M w \<and> K (Suc n) (insert i A) M w"
    and close_pres: "close_cb CB = Some g \<Longrightarrow> K n (active_connections s) (M + bcast info p) (custom_obj s) \<Longrightarrow> 0 \<le> i \<Longrightarrow> i < int n \<Longrightarrow>
        g i info s = Some t \<Longrightarrow>
        \<exists>w. t = s\<lparr>custom_obj := w\<rparr> \<and> K n (active_connections s) M w \<and> K n (active_connections s - {i}) M w"
    and no_close: "close_cb CB = None \<Longrightarrow> K n A (M + bcast info p) w \<Longrightarrow> K n A M w \<and> K n (A - {i}) M w"
    and read_pres: "read_cb CB = Some h \<Longrightarrow> plain_inv s \<Longrightarrow> i \<in> active_connections s \<Longrightarrow>
        K (length (clients s)) (active_connections s) (pending_items (clients s)) (custom_obj s) \<Longrightarrow> h i data len s = Some t \<Longrightarrow>
        plain_inv t \<and> K (length (clients t)) (active_connections t) (pending_items (clients t)) (custom_obj t)"
    and write_pres: "write_cb CB = Some g \<Longrightarrow> plain_inv s \<Longrightarrow> i \<in> active_connections s \<Longrightarrow>
        K (length (clients s)) (active_connections s) (pending_items (clients s) + bcast info p) (custom_obj s) \<Longrightarrow> g i info s = Some t \<Longrightarrow>
        plain_inv t \<and> K (length (clients t)) (active_connections t) (pending_items (clients t)) (custom_obj t)"
    and no_write: "write_cb CB = None \<Longrightarrow> K n A (M + bcast info p) w \<Longrightarrow> K n A M w"
    and event_pres: "event_cb CB = Some e \<Longrightarrow> plain_inv s \<Longrightarrow> Ev (custom_obj s) \<Longrightarrow>
        K (length (clients s)) (active_connections s) (pending_items (clients s)) (custom_obj s) \<Longrightarrow> e s = Some t \<Longrightarrow>
        plain_inv t \<and> K (length (clients t)) (active_connections t) (pending_items (clients t)) (custom_obj t)"
    and custom_read_pres: "custom_read_cb CB = Some k \<Longrightarrow> plain_inv s \<Longrightarrow>
        (0 \<le> i \<longrightarrow> i \<in> active_connections s) \<Longrightarrow>
        K (length (clients s)) (active_connections s) (pending_items (clients s)) (custom_obj s) \<Longrightarrow> k i fd buff s = Some t \<Longrightarrow>
        plain_inv t \<and> K (length (clients t)) (active_connections t) (pending_items (clients t)) (custom_obj t)"
begin

abbreviation layer_inv :: "(unit, 'w) server \<Rightarrow> bool" where
  "layer_inv s \<equiv> plain_inv s \<and> K (length (clients s)) (active_connections s) (pending_items (clients s)) (custom_obj s)"

lemma layer_frame: "K (length (clients s)) (active_connections s) (pending_items (clients s)) (custom_obj s) \<Longrightarrow> same_frame s t \<Longrightarrow>
    pending_items (clients t) = pending_items (clients s) \<Longrightarrow> K (length (clients t)) (active_connections t) (pending_items (clients t)) (custom_obj t)"
  by (simp add: same_frame_def)

lemma call_close:
  assumes "call0 (map_option (\<lambda>f. f i info) (close_cb CB)) s = Some t"
    and "K (length (clients s)) (active_connections s) (M + bcast info p) (custom_obj s)" "in_range (clients s) i"
  shows "\<exists>w. t = s\<lparr>custom_obj := w\<rparr> \<and> K (length (clients s)) (active_connections s) M w \<and>
    K (length (clients s)) (active_connections s - {i}) M w"
proof (cases "close_cb CB")
  case None
  then have "t = s\<lparr>custom_obj := custom_obj s\<rparr>" using assms(1) by (simp add: call0_def)
  then show ?thesis using no_close [OF None assms(2)] by blast
next
  case (Some g)
  then show ?thesis using close_pres [OF Some assms(2), of i t] assms by (simp add: call0_def in_range_def)
qed

text \<open>The queue is emptied, one callback per entry; nothing else of the server changes.\<close>

lemma drain_pres:
  assumes "drain_send_data CB i s = Some t" "in_range (clients s) i"
    and "\<forall>wd\<in>set (send_data (clients s ! nat i)). multi_write_data wd = None"
    and "K (length (clients s)) (active_connections s) (pending_items (clients s)) (custom_obj s)"
  shows "\<exists>w. t = s\<lparr>clients := (clients s)[nat i := (clients s ! nat i)\<lparr>send_data := []\<rparr>], custom_obj := w\<rparr> \<and>
    K (length (clients s)) (active_connections s) (pending_items (clients t)) w"
  using assms
proof (induction "send_data (clients s ! nat i)" arbitrary: s)
  case Nil
  have "(clients s)[nat i := (clients s ! nat i)\<lparr>send_data := []\<rparr>] = clients s"
    using Nil.hyps Nil.prems(2) by (simp add: list_update_same_conv in_range_nat)
  moreover have "t = s" using Nil by (simp add: drain_send_data.simps [of CB i s] vget_in_range)
  moreover have "s = s\<lparr>clients := clients s, custom_obj := custom_obj s\<rparr>" by simp
  ultimately show ?case using Nil.prems(4) by metis
next
  case (Cons wd ws)
  let ?c = "clients s ! nat i"
  let ?p = "pending_items ((clients s)[nat i := ?c\<lparr>send_data := ws\<rparr>])"
  have p: "pending_items (clients s) = ?p + bcast (broadcast_info wd) (ptr_buff wd)"
    unfolding entry_item_def [symmetric] by (rule pending_pop) (use Cons.prems(2) Cons.hyps(2) [symmetric] in simp_all)
  obtain s1 where s1: "call0 (map_option (\<lambda>f. f i (broadcast_info wd)) (close_cb CB)) s = Some s1"
    and rest: "do { s2 \<leftarrow> pop_send_data i s1; drain_send_data CB i s2 } = Some t"
    using Cons.prems(1,2) Cons.hyps(2) [symmetric]
    by (auto simp: drain_send_data.simps [of CB i s] vget_in_range bind_Some_iff)
  obtain w1 where w1: "s1 = s\<lparr>custom_obj := w1\<rparr>" "K (length (clients s)) (active_connections s) ?p w1"
    using call_close [OF s1 Cons.prems(4) [unfolded p] Cons.prems(2)] by blast
  have wd: "multi_write_data wd = None" using Cons.prems(3) Cons.hyps(2) [symmetric] by simp
  let ?s2 = "s1\<lparr>clients := (clients s1)[nat i := (clients s1 ! nat i)\<lparr>send_data := ws\<rparr>]\<rparr>"
  have d: "drain_send_data CB i ?s2 = Some t"
    using rest pop_send_data_plain [of s1 i wd ws] Cons.prems(2) Cons.hyps(2) wd w1(1) by simp
  have nth: "clients ?s2 ! nat i = ?c\<lparr>send_data := ws\<rparr>" using w1(1) Cons.prems(2) by (simp add: in_range_nat)
  have r: "in_range (clients ?s2) i" using Cons.prems(2) w1(1) by simp
  have ws: "ws = send_data (clients ?s2 ! nat i)"
    "\<forall>wd\<in>set (send_data (clients ?s2 ! nat i)). multi_write_data wd = None"
    using nth Cons.prems(3) Cons.hyps(2) [symmetric] by simp_all
  have K2: "K (length (clients ?s2)) (active_connections ?s2) (pending_items (clients ?s2)) (custom_obj ?s2)" using w1 by simp
  obtain w where "t = ?s2\<lparr>clients := (clients ?s2)[nat i := (clients ?s2 ! nat i)\<lparr>send_data := []\<rparr>], custom_obj := w\<rparr>"
    "K (length (clients ?s2)) (active_connections ?s2) (pending_items (clients t)) w"
    using Cons.hyps(1) [OF ws(1) d r ws(2) K2] by blast
  then show ?case using w1(1) nth by auto
qed

lemma close_client_pres:
  assumes t: "close_client (plain_derived CB) CB i s = Some t" and i: "in_range (clients s) i"
    and c: "c = clients s ! nat i"
    and ok: "plain_ok ((clients s)[nat i := c\<lparr>send_data := []\<rparr>]) (active_connections s) (freed_indexes s) (inflight s)"
    and q: "\<forall>wd\<in>set (send_data c). multi_write_data wd = None" and n: "num_write_reqs c = 0"
    and k: "K (length (clients s)) (active_connections s) (pending_items (clients s)) (custom_obj s)"
  shows "layer_inv t \<and> length (clients t) = length (clients s) \<and>
    (\<forall>j. j \<noteq> i \<longrightarrow> vget (clients t) j = vget (clients s) j)"
proof -
  obtain s1 s2 where s1: "drain_send_data CB i s = Some s1"
    and s2: "call0 (map_option (\<lambda>f. f i (-1)) (close_cb CB)) s1 = Some s2" "close_connection i s2 = Some t"
    using t by (auto simp: close_client_def bind_Some_iff plain_derived_def)
  obtain w where w: "s1 = s\<lparr>clients := (clients s)[nat i := c\<lparr>send_data := []\<rparr>], custom_obj := w\<rparr>"
    "K (length (clients s)) (active_connections s) (pending_items (clients s1)) w"
    using drain_pres [OF s1 i] q k c by blast
  then obtain w' where w': "s2 = s1\<lparr>custom_obj := w'\<rparr>" "K (length (clients s)) (active_connections s - {i}) (pending_items (clients s1)) w'"
    using call_close [OF s2(1), of "pending_items (clients s1)"] i by auto
  have inv: "plain_inv s2" using ok w w' by (simp add: plain_inv_at_def)
  have r: "in_range (clients s2) i" using w w' i by simp
  have "active_connections t = active_connections s - {i}"
    using s2(2) w w' i n by (auto simp: close_connection_def vec_simps in_range_nat clear_send_data_plain)
  moreover have "pending_items (clients t) = pending_items (clients s1)" using close_connection_pending [OF inv r s2(2)] w'(1) by simp
  ultimately show ?thesis
    using close_connection_ok [OF inv r] close_connection_others [of i s2 t] s2(2) w w' i
    by (auto simp: vget_update in_range_nat)
qed


lemma timer_loop_pres:
  assumes "timer_loop (plain_derived CB) CB peek idxs s = Some t" "distinct idxs"
    and "\<And>i. i \<in> set idxs \<Longrightarrow> in_range (clients s) i \<and>
      (peek (sockfd (clients s ! nat i)) = 0 \<longrightarrow> send_data (clients s ! nat i) = [])"
    and "layer_inv s"
  shows "layer_inv t"
  using assms
proof (induction idxs arbitrary: s)
  case Nil
  then show ?case by simp
next
  case (Cons i idxs)
  let ?c = "clients s ! nat i"
  have i: "in_range (clients s) i" using Cons.prems(3) by simp
  obtain s1 where s1: "(if peek (sockfd ?c) = 0 then close_client (plain_derived CB) CB i s else Some s) = Some s1"
    and rest: "timer_loop (plain_derived CB) CB peek idxs s1 = Some t"
    using Cons.prems(1) i by (auto simp: vget_in_range bind_Some_iff)
  have s1_ok: "layer_inv s1 \<and> length (clients s1) = length (clients s) \<and>
      (\<forall>j. j \<noteq> i \<longrightarrow> vget (clients s1) j = vget (clients s) j)"
  proof (cases "peek (sockfd ?c) = 0")
    case True
    then have q: "send_data ?c = []" using Cons.prems(3) [of i] by simp
    have "slot_ok (inflight s) i ?c" using Cons.prems(4) i by (auto simp: plain_inv_at_def intro: plain_ok_slot)
    then have n: "num_write_reqs ?c = 0" using q by (simp add: slot_ok_def)
    have "(clients s)[nat i := ?c\<lparr>send_data := []\<rparr>] = clients s"
      using q i by (simp add: list_update_same_conv in_range_nat)
    then show ?thesis
      using close_client_pres [of i s s1 ?c] s1 True i q n Cons.prems(4) by (auto simp: plain_inv_at_def)
  next
    case False
    then show ?thesis using s1 Cons.prems(4) by simp
  qed
  have later: "in_range (clients s1) j \<and> (peek (sockfd (clients s1 ! nat j)) = 0 \<longrightarrow> send_data (clients s1 ! nat j) = [])"
    if "j \<in> set idxs" for j
  proof -
    have j: "j \<noteq> i" "in_range (clients s) j" using that Cons.prems(2,3) by auto
    then have "in_range (clients s1) j" "clients s1 ! nat j = clients s ! nat j"
      using s1_ok by (auto simp: in_range_def vget_def)
    then show ?thesis using Cons.prems(3) [of j] that by simp
  qed
  show ?case
    by (rule Cons.IH [OF rest]) (use Cons.prems(2) later s1_ok in auto)
qed

lemma handle_accept_pres:
  assumes "handle_accept plain_client CB res s = Some t" "layer_inv s"
  shows "layer_inv t"
proof -
  let ?s = "add_tcp_accept_req s"
  have inv: "plain_inv ?s" "same_frame s ?s" "clients ?s = clients s"
    using submit_other_ok [of s "new_request ACCEPT"] assms(2)
    by (auto simp: add_tcp_accept_req_def add_accept_req_def client_request_def new_request_def)
  obtain i s1 where s1: "setup_client plain_client res ?s = Some (i, s1)"
    "plain_ok (clients s1) (insert i (active_connections s1)) (freed_indexes s1) (inflight s1)"
    "in_range (clients s1) i" "custom_obj s1 = custom_obj s" "active_connections s1 = active_connections s" "i \<notin> active_connections s"
    "length (clients s1) = length (clients s) + (if i = int (length (clients s)) then 1 else 0)"
    using setup_client_ok [OF inv(1), of res] inv(2) by (auto simp: same_frame_def)
  have p1: "pending_items (clients s1) = pending_items (clients s)" using setup_client_pending [OF inv(1) s1(1)] inv(3) by simp
  let ?s1 = "s1\<lparr>active_connections := insert i (active_connections s1)\<rparr>"
  obtain s2 where s2: "call0 (map_option (\<lambda>f. f i) (accept_cb CB)) ?s1 = Some s2" "read_connection i s2 = Some t"
    using assms(1) s1(1) by (auto simp: handle_accept_def bind_Some_iff)
  have "layer_inv s2 \<and> length (clients s2) = length (clients s1)"
  proof (cases "accept_cb CB")
    case None
    then show ?thesis using s2(1) s1 p1 assms(2) no_accept [OF None]
      by (auto simp: call0_def plain_inv_at_def)
  next
    case (Some f)
    have k: "K (length (clients s)) (active_connections ?s1 - {i}) (pending_items (clients ?s1)) (custom_obj ?s1)"
      using s1 p1 assms(2) by simp
    have "plain_inv s2 \<and> length (clients s2) = length (clients ?s1) \<and> K (length (clients s2)) (active_connections s2) (pending_items (clients s2)) (custom_obj s2)"
      by (rule accept_pres [OF Some _ _ k]) (use s2(1) Some s1 in \<open>auto simp: call0_def plain_inv_at_def\<close>)
    then show ?thesis by auto
  qed
  then show ?thesis
    using read_connection_ok [of s2 i] read_connection_pending [OF s2(2)] s1(3) s2(2) layer_frame [of s2 t]
    by (auto simp: in_range_def)
qed

lemma handle_failure_pres:
  assumes t: "handle_failure (plain_derived CB) CB r res s = Some t"
    and inv: "plain_inv_at (add_mset (e, r) (inflight s)) s" and k: "K (length (clients s)) (active_connections s) (pending_items (clients s)) (custom_obj s)"
    and ev: "client_request (rq_event r)" and res: "res \<le> 0"
  shows "layer_inv t"
proof -
  let ?i = "rq_client_idx r"
  let ?c = "clients s ! nat ?i"
  note ok = inv [unfolded plain_inv_at_def]
  have i: "in_range (clients s) ?i" and ev': "rq_event r \<in> {READ, WRITE}"
    using ok ev by (auto simp: plain_ok_def)
  show ?thesis
  proof (cases "rq_event r = WRITE")
    case True
    obtain wd ws where h: "send_data ?c = wd # ws" "\<forall>wd\<in>set (send_data ?c). multi_write_data wd = None"
      "num_write_reqs ?c = 1" "writes_entry ?c wd e r"
      by (rule write_in_hand [OF ok True])
    let ?c0 = "?c\<lparr>num_write_reqs := 0\<rparr>"
    let ?s = "s\<lparr>clients := (clients s)[nat ?i := ?c0]\<rparr>"
    have "close_client (plain_derived CB) CB ?i ?s = Some t"
      using t res True h i
      by (simp add: handle_failure_def vget_in_range upd_client_def vmod_in_range writes_entry_def in_range_nat)
    moreover have "plain_ok ((clients s)[nat ?i := ?c0\<lparr>send_data := []\<rparr>]) (active_connections s) (freed_indexes s) (inflight s)"
      by (rule plain_ok_finish [OF ok True]) auto
    moreover have "pending_items (clients ?s) = pending_items (clients s)" using i by (simp add: pending_same)
    ultimately show ?thesis
      using close_client_pres [of ?i ?s t ?c0] h i k by (auto simp: in_range_nat)
  next
    case False
    have inv': "plain_inv s" using plain_ok_remove_other [OF ok] False by (simp add: plain_inv_at_def)
    show ?thesis
    proof (cases "cl_id ?c = rq_ID r \<and> num_write_reqs ?c = 0")
      case True
      have "slot_ok (inflight s) ?i ?c" using inv' i by (simp add: plain_inv_at_def plain_ok_slot)
      then have q: "send_data ?c = []" using True by (auto simp: slot_ok_def split: list.splits)
      then have "(clients s)[nat ?i := ?c\<lparr>send_data := []\<rparr>] = clients s"
        using i by (simp add: list_update_same_conv in_range_nat)
      moreover have "close_client (plain_derived CB) CB ?i s = Some t"
        using t res False True i ev' by (simp add: handle_failure_def vget_in_range)
      ultimately show ?thesis
        using close_client_pres [of ?i s t ?c] i k q True inv' by (auto simp: plain_inv_at_def)
    next
      case F: False
      then have "t = s" using t res False i ev'
        by (auto simp: handle_failure_def vget_in_range split: if_splits)
      then show ?thesis using inv' k by simp
    qed
  qed
qed


lemma call_read:
  assumes "handle_read CB r res s = Some t" "layer_inv s"
    and "rq_client_idx r \<in> active_connections s"
  shows "layer_inv t"
proof -
  let ?i = "rq_client_idx r"
  let ?s = "s\<lparr>clients := (clients s)[nat ?i := (clients s ! nat ?i)\<lparr>read_req_active := False\<rparr>]\<rparr>"
  have i: "in_range (clients s) ?i" using assms(2,3) by (auto simp: plain_inv_at_def dest: plain_ok_active)
  have c: "call0 (map_option (\<lambda>f. f ?i (rq_read_data r) res) (read_cb CB)) ?s = Some t"
    using assms(1) i by (simp add: handle_read_def upd_client_def vmod_in_range)
  have inv: "plain_inv ?s" using assms(2) i by (simp add: plain_inv_at_def plain_ok_neutral)
  have p: "pending_items (clients ?s) = pending_items (clients s)" using i by (simp add: pending_same)
  show ?thesis
  proof (cases "read_cb CB")
    case None
    then show ?thesis using c inv p assms(2) by (auto simp: call0_def)
  next
    case (Some h)
    then show ?thesis using read_pres [OF Some inv, of ?i] c p assms(2,3) by (auto simp: call0_def)
  qed
qed

lemma handle_write_pres:
  assumes t: "handle_write CB r res s = Some t" and w: "rq_event r = WRITE"
    and inv: "plain_inv_at (add_mset (e, r) (inflight s)) s" and k: "K (length (clients s)) (active_connections s) (pending_items (clients s)) (custom_obj s)"
    and res: "0 < res" "res \<le> op_len e"
  shows "layer_inv t"
proof (cases "write_incomplete r res")
  case True
  then show ?thesis
    using add_write_req_continued_ok [OF inv w res True] t layer_frame [OF k, of t] add_write_req_continued_pending [of r res s t]
    by (auto simp: handle_write_def)
next
  case False
  obtain info s1 where s1: "finish_write r s = Some (info, s1)" "plain_inv s1" "same_frame s s1"
    using finish_write_ok [OF inv w] by blast
  then have c: "call0 (map_option (\<lambda>f. f (rq_client_idx r) info) (write_cb CB)) s1 = Some t"
    using t False by (simp add: handle_write_def)
  obtain p where k1: "K (length (clients s1)) (active_connections s1) (pending_items (clients s1) + bcast info p) (custom_obj s1)"
    using k s1(3) finish_write_pending [OF s1(1)] by (auto simp: same_frame_def)
  have i: "rq_client_idx r \<in> active_connections s1"
    using write_in_hand [OF inv [unfolded plain_inv_at_def] w] s1(3) by (metis same_frame_def)
  show ?thesis
  proof (cases "write_cb CB")
    case None
    then show ?thesis using c s1(2) no_write [OF None k1] by (auto simp: call0_def)
  next
    case (Some g)
    then show ?thesis using write_pres [OF Some s1(2) i k1] c by (auto simp: call0_def)
  qed
qed

lemma handle_custom_read_pres:
  assumes "handle_custom_read CB r res s = Some t" "layer_inv s" "rq_event r = CUSTOM_READ"
    and "0 \<le> rq_client_idx r \<longrightarrow> rq_client_idx r \<in> active_connections s"
  shows "layer_inv t"
proof (cases "int (length (rq_read_data r)) = u64 (res + rq_read_amount r)")
  case True
  then show ?thesis
    using assms custom_read_pres [of _ s "rq_client_idx r"]
    by (cases "custom_read_cb CB") (auto simp: handle_custom_read_def call0_def)
next
  case False
  then obtain r' e where "t = submit e r' s" "rq_event r' = CUSTOM_READ"
    using assms(1,3) by (auto simp: handle_custom_read_def custom_read_req_continued_def Let_def split: if_splits)
  then show ?thesis
    using submit_other_ok [of s r' e] assms(2) layer_frame [of s t] by (auto simp: client_request_def)
qed

text \<open>One iteration of the event loop.\<close>

lemma loop_body_pres:
  assumes t: "loop_body ord (plain_derived CB) CB peek r res s = Some t"
    and inv: "plain_inv_at (add_mset (e, r) (inflight s)) s" and k: "K (length (clients s)) (active_connections s) (pending_items (clients s)) (custom_obj s)"
    and kr: "rq_event r = WRITE \<longrightarrow> res \<le> op_len e" and env: "on_time s peek r res"
    and nk: "rq_event r \<noteq> KILL" and msg: "rq_event r = NOTIFICATION \<longrightarrow> Ev (custom_obj s)"
  shows "layer_inv t"
proof (cases "client_request (rq_event r)")
  case True
  note ok = inv [unfolded plain_inv_at_def]
  have ev: "rq_event r \<in> {READ, WRITE}" and i: "in_range (clients s) (rq_client_idx r)"
    using ok True by (auto simp: plain_ok_def)
  show ?thesis
  proof (cases "res \<le> 0")
    case le: True
    then have "handle_failure (plain_derived CB) CB r res s = Some t"
      using t True by (simp add: loop_body_def)
    then show ?thesis using handle_failure_pres inv k True le by blast
  next
    case pos: False
    consider (stale) "0 < rq_client_idx r" "cl_id (clients s ! nat (rq_client_idx r)) \<noteq> rq_ID r"
      | (fresh) "\<not> (0 < rq_client_idx r \<and> cl_id (clients s ! nat (rq_client_idx r)) \<noteq> rq_ID r)"
      by blast
    then show ?thesis
    proof cases
      case stale
      have "rq_event r \<noteq> WRITE"
        using write_in_hand [OF ok] stale(2) by (metis writes_entry_def)
      then have "plain_inv s" using plain_ok_remove_other [OF ok] by (simp add: plain_inv_at_def)
      moreover have "t = s" using t True pos stale i
        by (simp add: loop_body_def vget_in_range handle_failure_def)
      ultimately show ?thesis using k by simp
    next
      case fresh
      then have "plain_handler CB r res s = Some t"
        using t True pos i ev
        by (auto simp: loop_body_def vget_in_range plain_derived_def client_request_def split: event_type.splits if_splits)
      moreover have "plain_inv s" if "rq_event r = READ"
        using plain_ok_remove_other [OF ok] that by (simp add: plain_inv_at_def)
      ultimately show ?thesis
        using ev pos kr k env call_read [of r res s t] handle_write_pres [of r res s t e] inv
        by (auto simp: plain_handler_def on_time_def)
    qed
  qed
next
  case False
  then have inv': "plain_inv s"
    using plain_ok_remove_other [OF inv [unfolded plain_inv_at_def]] by (auto simp: plain_inv_at_def client_request_def)
  show ?thesis
  proof (cases "rq_event r")
    case ACCEPT
    then have "handle_accept plain_client CB res s = Some t"
      using t by (simp add: loop_body_def client_request_def plain_derived_def plain_handler_def)
    then show ?thesis using handle_accept_pres inv' k by blast
  next
    case NOTIFICATION
    have s': "layer_inv (event_read fd NOTIFICATION s)" "Ev (custom_obj (event_read fd NOTIFICATION s))" for fd
      using submit_other_ok [OF inv', of "new_request NOTIFICATION\<lparr>rq_read_data := replicate 8 0\<rparr>"] k layer_frame msg NOTIFICATION
      by (auto simp: event_read_def client_request_def new_request_def same_frame_def submit_def)
    show ?thesis using t NOTIFICATION s' event_pres [of _ "event_read (notification_efd s) NOTIFICATION s" t]
      by (cases "event_cb CB") (auto simp: loop_body_def client_request_def call0_def)
  next
    case CUSTOM_READ
    then show ?thesis
      using t handle_custom_read_pres [of r res s t] inv' k env
      by (auto simp: loop_body_def client_request_def on_time_def)
  next
    case TIMERFD
    then obtain s1 where s1: "timer_loop (plain_derived CB) CB peek (uord_list ord (active_connections s)) s = Some s1"
      and t': "t = add_timerfd_read_req s1"
      using t by (auto simp: loop_body_def client_request_def bind_Some_iff)
    have fin: "finite (active_connections s)" using inv' by (simp add: plain_inv_at_def plain_ok_def)
    have "layer_inv s1"
      by (rule timer_loop_pres [OF s1])
         (use fin env TIMERFD inv' k in \<open>auto simp: on_time_def plain_inv_at_def dest: plain_ok_active\<close>)
    then show ?thesis
      using submit_other_ok [of s1 "new_request TIMERFD\<lparr>rq_total_length := 8, rq_read_data := replicate 8 0\<rparr>"] t' layer_frame [of s1 t]
      by (auto simp: add_timerfd_read_req_def client_request_def new_request_def)
  qed (use False nk in \<open>auto simp: client_request_def\<close>)
qed


lemma complete_keeps:
  assumes t: "complete ord (plain_derived CB) CB peek e r res data s = Some t"
    and mem: "(e, r) \<in># inflight s" and kr: "kernel_result e res data" and env: "on_time s peek r res"
    and inv: "layer_inv s" and msg: "rq_event r = NOTIFICATION \<longrightarrow> Ev (custom_obj s)" and nk: "rq_event r \<noteq> KILL"
  shows "layer_inv t"
proof -
  obtain r' where r': "fill_request e r data = Some r'" using t by (auto simp: complete_def bind_Some_iff)
  let ?s = "consume_eventfd e res (s\<lparr>inflight := inflight s - {#(e, r)#}\<rparr>)"
  have ok: "plain_ok (clients s) (active_connections s) (freed_indexes s) (add_mset (e, r) (inflight s - {#(e, r)#}))"
    using inv mem by (simp add: plain_inv_at_def)
  show ?thesis
  proof (rule loop_body_pres [of ord peek r' res ?s t e])
    show "loop_body ord (plain_derived CB) CB peek r' res ?s = Some t" using t r' by (simp add: complete_def)
    show "plain_inv_at (add_mset (e, r') (inflight ?s)) ?s" using plain_ok_fill [OF ok r'] by (simp add: plain_inv_at_def)
    show "rq_event r' = WRITE \<longrightarrow> res \<le> op_len e"
    proof
      assume "rq_event r' = WRITE"
      then have "rq_event r = WRITE" using fill_request_keeps [OF r'] by simp
      then obtain fd q n where "e = Op_write fd q n" using write_in_hand [OF ok] by (metis writes_entry_def)
      then show "res \<le> op_len e" using kr by simp
    qed
  qed (use inv env msg nk fill_request_keeps [OF r'] in \<open>auto simp: on_time_def\<close>)
qed

lemma complete_pres:
  assumes "complete ord (plain_derived CB) CB peek e r res data s = Some t"
    and "(e, r) \<in># inflight s" "kernel_result e res data" "on_time s peek r res"
    and "layer_inv s" "rq_event r = NOTIFICATION \<longrightarrow> Ev (custom_obj s)"
  shows "is_active t \<longrightarrow> layer_inv t"
  using complete_keeps [OF assms] complete_kill [OF assms(1)] by (cases "rq_event r = KILL") (auto simp: handle_kill_def)

end

section \<open>Runs of the server\<close>

text \<open>
  A step is the processing of one completion, or another thread writing to one of the server's
  event descriptors.
\<close>

inductive plain_step :: "uorder \<Rightarrow> (unit, 'w) callbacks \<Rightarrow> (unit, 'w) server \<Rightarrow> (unit, 'w) server \<Rightarrow> bool"
  for ord CB where
  completion: "is_active s \<Longrightarrow> (e, r) \<in># inflight s \<Longrightarrow> kernel_result e res data \<Longrightarrow> on_time s peek r res \<Longrightarrow>
     complete ord (plain_derived CB) CB peek e r res data s = Some t \<Longrightarrow> plain_step ord CB s t"
| notified: "plain_step ord CB s (notify_event s)"
| killed: "plain_step ord CB s (kill_server s)"

inductive_cases plain_stepE: "plain_step ord CB s t"

inductive plain_run :: "uorder \<Rightarrow> (unit, 'w) callbacks \<Rightarrow> (unit, 'w) server \<Rightarrow> (unit, 'w) server \<Rightarrow> bool"
  for ord CB s where
  here: "plain_run ord CB s s"
| more: "plain_run ord CB s t \<Longrightarrow> plain_step ord CB t u \<Longrightarrow> plain_run ord CB s u"

lemma plain_step_active: "plain_step ord CB s t \<Longrightarrow> is_active t \<Longrightarrow> is_active s"
  by (erule plain_stepE) (auto simp: notify_event_def kill_server_def)

context plain_layer
begin

lemma step_pres: "(\<And>w. Ev w) \<Longrightarrow> plain_step ord CB s t \<Longrightarrow> layer_inv s \<Longrightarrow> is_active t \<Longrightarrow> layer_inv t"
  using complete_pres
  by (elim plain_stepE) (blast, auto simp: notify_event_def kill_server_def plain_inv_at_def)

lemma run_pres:
  assumes "\<And>w. Ev w" "plain_run ord CB s t" "layer_inv s" "is_active t"
  shows "layer_inv t"
  using assms(2-)
proof (induction rule: plain_run.induct)
  case here
  then show ?case by simp
next
  case (more t u)
  then show ?case using step_pres [OF assms(1)] plain_step_active by blast
qed

end

text \<open>The server as constructed, started: no client, four requests in flight.\<close>

lemma started_inv:
  assumes "server_base nefd kefd tfd gai addrs lr obj = Inr s0"
  shows "plain_inv (start s0)" "clients (start s0) = []" "custom_obj (start s0) = obj" "active_connections (start s0) = {}"
  using assms
  by (auto simp: server_base_def start_def add_tcp_accept_req_def add_accept_req_def event_read_def
      add_timerfd_read_req_def submit_def new_request_def plain_inv_at_def plain_ok_def in_range_def
      client_request_def Let_def split: sum.splits)

section \<open>A server without callbacks\<close>

text \<open>The callbacks default to \<open>nullptr\<close> in the constructor; such a server meets the contract.\<close>

interpretation bare: plain_layer no_callbacks "\<lambda>_ _ _ _. True" "\<lambda>_. True"
  by unfold_locales (auto simp: no_callbacks_def)

end
