(* ===== verification/Tcp_Plain_Props.thy ===== *)
theory Tcp_Plain_Props
  imports Tcp_Plain_Steps
begin

text \<open>
  What the plain server guarantees: the bookkeeping of writes in every reachable state, the
  byte stream a client receives, and what happens when a completion is not \<open>on_time\<close>.
\<close>

section \<open>The bytes still to be sent\<close>

text \<open>The bytes of a queue entry that a write of it sends (its length passes through an \<open>unsigned int\<close>).\<close>

definition entry_bytes :: "write_data \<Rightarrow> bytes" where
  "entry_bytes wd = take (nat (u32 (snd (entry_view wd)))) (ptr_bytes (fst (entry_view wd)))"

definition op_bytes :: "sqe \<Rightarrow> bytes" where
  "op_bytes e = take (nat (op_len e)) (ptr_bytes (op_ptr e))"

text \<open>What is left to send to a client: the rest of the write in flight, then the queue behind it.\<close>

definition unsent :: "(sqe \<times> request) multiset \<Rightarrow> int \<Rightarrow> 'c client_base_scheme \<Rightarrow> bytes" where
  "unsent P i c = (case send_data c of
      [] \<Rightarrow> []
    | _ # ws \<Rightarrow> op_bytes (fst (the_elem (set_mset (filter_mset (is_write i) P)))) @ concat (map entry_bytes ws))"

lemma ptr_bytes_add: "ptr_bytes (ptr_add p n) = drop (nat n) (ptr_bytes p)"
  by (cases p) auto

lemma unsent_inflight:
  assumes "filter_mset (is_write i) P = {#(e, r)#}" "send_data c = wd # ws"
  shows "unsent P i c = op_bytes e @ concat (map entry_bytes ws)"
  using assms by (simp add: unsent_def)

lemma unsent_Nil: "send_data c = [] \<Longrightarrow> unsent P i c = []"
  by (simp add: unsent_def)

lemma unsent_first:
  assumes "\<forall>a b. (a, b) \<in># P \<longrightarrow> rq_event b = WRITE \<longrightarrow> rq_client_idx b \<noteq> i"
    and "rq_event r = WRITE" "rq_client_idx r = i" "send_data c = wd # ws"
  shows "unsent (add_mset (e, r) P) i c = op_bytes e @ concat (map entry_bytes ws)"
proof (rule unsent_inflight [OF _ assms(4)])
  have "filter_mset (is_write i) P = {#}" using assms(1) by (auto simp: is_write_def)
  then show "filter_mset (is_write i) (add_mset (e, r) P) = {#(e, r)#}"
    using assms(2,3) by (simp add: is_write_def)
qed

lemma op_bytes_start:
  "entry_view wd = (p, n) \<Longrightarrow> op_bytes (Op_write fd p (u32 n)) = entry_bytes wd"
  by (simp add: op_bytes_def entry_bytes_def)

lemma op_bytes_split:
  assumes "0 \<le> w" "0 < res" "res \<le> m - w"
  shows "op_bytes (Op_write fd (ptr_add p w) (m - w)) =
     take (nat res) (ptr_bytes (ptr_add p w)) @ op_bytes (Op_write fd (ptr_add p (w + res)) (m - (w + res)))"
proof -
  have n: "nat (m - w) = nat res + nat (m - (w + res))" "nat (w + res) = nat res + nat w"
    using assms by auto
  show ?thesis by (simp add: op_bytes_def ptr_bytes_add n take_add)
qed

text \<open>Queueing appends the new bytes behind everything that is still to be sent.\<close>

lemma push_write_unsent:
  assumes inv: "plain_inv s" and i: "i \<in> active_connections s"
    and wd: "multi_write_data wd = None" "entry_view wd = (p, n)"
    and t: "push_write i wd p n s = Some t"
  shows "unsent (inflight t) i (clients t ! nat i) = unsent (inflight s) i (clients s ! nat i) @ entry_bytes wd"
proof -
  let ?c = "clients s ! nat i"
  have r: "in_range (clients s) i" using inv i by (auto simp: plain_inv_at_def dest: plain_ok_active)
  have slot: "slot_ok (inflight s) i ?c" using inv r by (auto simp: plain_inv_at_def intro: plain_ok_slot)
  show ?thesis
  proof (cases "send_data ?c")
    case Nil
    then have "filter_mset (is_write i) (inflight s) = {#}" using slot by (simp add: slot_ok_def)
    then show ?thesis using t r Nil wd
      by (auto simp: push_write_def enqueue_write_def upd_client_def vec_simps add_write_req_step Let_def
          unsent_Nil unsent_first is_write_def new_request_def in_range_nat op_bytes_start)
  next
    case (Cons a ws)
    then show ?thesis using t r
      by (auto simp: push_write_def enqueue_write_def upd_client_def vec_simps unsent_def in_range_nat)
  qed
qed

text \<open>It closes no descriptor, and what is to be sent to the others stays.\<close>

lemma push_write_fds: "push_write i wd p n s = Some t \<Longrightarrow> closed_fds t = closed_fds s"
  by (auto simp: push_write_def enqueue_write_def upd_client_def bind_Some_iff add_write_req_def submit_def Let_def split: if_splits)

lemma push_write_others:
  assumes t: "push_write i wd p n s = Some t" and j: "j \<noteq> i" "0 \<le> j"
  shows "unsent (inflight t) j (clients t ! nat j) = unsent (inflight s) j (clients s ! nat j)"
proof -
  have i: "in_range (clients s) i" using t by (auto simp: push_write_def enqueue_write_def upd_client_def bind_Some_iff vmod_eq_Some)
  then have n: "nat j \<noteq> nat i" using j by (auto simp: in_range_def)
  have "filter_mset (is_write j) (inflight t) = filter_mset (is_write j) (inflight s) \<and> clients t ! nat j = clients s ! nat j"
    using t i j(1) n by (auto simp: push_write_def enqueue_write_def upd_client_def vec_simps add_write_req_step Let_def
        is_write_def new_request_def split: if_splits)
  then show ?thesis by (simp only: unsent_def)
qed

text \<open>A write of \<open>res\<close> bytes takes exactly these bytes off the front.\<close>

lemma continued_unsent:
  assumes inv: "plain_inv_at (add_mset (e, r) (inflight s)) s" and w: "rq_event r = WRITE"
    and res: "0 < res" "res \<le> op_len e" "write_incomplete r res"
    and t: "add_write_req_continued r res s = Some t"
  shows "unsent (add_mset (e, r) (inflight s)) (rq_client_idx r) (clients s ! nat (rq_client_idx r)) =
     take (nat res) (ptr_bytes (op_ptr e)) @ unsent (inflight t) (rq_client_idx r) (clients t ! nat (rq_client_idx r))"
proof -
  let ?i = "rq_client_idx r" and ?c = "clients s ! nat (rq_client_idx r)"
  obtain wd ws where h: "in_range (clients s) ?i" "send_data ?c = wd # ws"
    "\<forall>wd\<in>set (send_data ?c). multi_write_data wd = None" "writes_entry ?c wd e r"
    "filter_mset (is_write ?i) (inflight s) = {#}"
    by (rule write_in_hand [OF inv [unfolded plain_inv_at_def] w])
  obtain p n where v: "entry_view wd = (p, n)" by (cases "entry_view wd")
  let ?m = "rq_total_length r" and ?w = "rq_written r"
  have b: "0 \<le> ?w" "?m = u32 n" "res \<le> ?m - ?w" "e = Op_write (sockfd ?c) (ptr_add p ?w) (?m - ?w)"
    using h(4) v res(2) by (auto simp: writes_entry_def)
  have small: "u64 (?w + res) = ?w + res" "u32 (?m - (?w + res)) = ?m - (?w + res)"
    using b res(1) u32_bounds [of n] by (auto intro!: u64_small u32_small)
  have "unsent (inflight t) ?i (clients t ! nat ?i) =
      op_bytes (Op_write (sockfd ?c) (ptr_add p (?w + res)) (?m - (?w + res))) @ concat (map entry_bytes ws)"
    using t h v small w
    by (auto simp: add_write_req_continued_def vget_in_range get_ptr_and_size_entry submit_def Let_def
        unsent_first is_write_def)
  moreover have "unsent (add_mset (e, r) (inflight s)) ?i ?c = op_bytes e @ concat (map entry_bytes ws)"
    using h w by (intro unsent_inflight) (auto simp: is_write_def)
  ultimately show ?thesis using op_bytes_split [OF b(1) res(1) b(3)] b(4) by simp
qed

lemma finish_unsent:
  assumes inv: "plain_inv_at (add_mset (e, r) (inflight s)) s" and w: "rq_event r = WRITE"
    and res: "0 < res" "res \<le> op_len e" "\<not> write_incomplete r res"
    and t: "finish_write r s = Some (info, t)"
  shows "unsent (add_mset (e, r) (inflight s)) (rq_client_idx r) (clients s ! nat (rq_client_idx r)) =
     take (nat res) (ptr_bytes (op_ptr e)) @ unsent (inflight t) (rq_client_idx r) (clients t ! nat (rq_client_idx r))"
proof -
  let ?i = "rq_client_idx r" and ?c = "clients s ! nat (rq_client_idx r)"
  obtain wd ws where h: "in_range (clients s) ?i" "?i \<in> active_connections s" "send_data ?c = wd # ws"
    "\<forall>wd\<in>set (send_data ?c). multi_write_data wd = None" "num_write_reqs ?c = 1"
    "writes_entry ?c wd e r" "filter_mset (is_write ?i) (inflight s) = {#}"
    by (rule write_in_hand [OF inv [unfolded plain_inv_at_def] w])
  obtain p n where v: "entry_view wd = (p, n)" by (cases "entry_view wd")
  let ?m = "rq_total_length r" and ?w = "rq_written r"
  have b: "0 \<le> ?w" "?m = u32 n" "res \<le> ?m - ?w" "e = Op_write (sockfd ?c) (ptr_add p ?w) (?m - ?w)"
    using h(6) v res(2) by (auto simp: writes_entry_def)
  have "u64 (res + ?w) = res + ?w" using b res(1) u32_bounds [of n] by (intro u64_small) auto
  then have all: "res = op_len e" using res b by (auto simp: write_incomplete_def)
  have ID: "cl_id ?c = rq_ID r" using h(6) by (simp add: writes_entry_def)
  have "unsent (inflight t) ?i (clients t ! nat ?i) = concat (map entry_bytes ws)"
  proof (cases ws)
    case Nil
    then show ?thesis using t h ID
      by (auto simp: finish_write_def upd_client_def vec_simps pop_send_data_plain in_range_nat unsent_def)
  next
    case (Cons wd' ws')
    obtain p' n' where v': "entry_view wd' = (p', n')" by (cases "entry_view wd'")
    show ?thesis using t h ID Cons v'
      by (auto simp: finish_write_def upd_client_def vec_simps pop_send_data_plain in_range_nat unsent_first
          get_ptr_and_size_entry add_write_req_step Let_def is_write_def new_request_def op_bytes_start)
  qed
  moreover have "unsent (add_mset (e, r) (inflight s)) ?i ?c = op_bytes e @ concat (map entry_bytes ws)"
    using h w by (intro unsent_inflight) (auto simp: is_write_def)
  ultimately show ?thesis using all by (simp add: op_bytes_def)
qed


section \<open>A small run\<close>

text \<open>
  A server on descriptor 3 with event descriptors 4 and 5 and timer 6, started; and the same
  server after it accepted a connection with descriptor 7.
\<close>

definition ex_addr :: addr_entry where
  "ex_addr = \<lparr>socket_res = 3, reuseaddr_res = 0, reuseport_res = 0, bind_res = 0\<rparr>"

definition ex_new :: "(unit, unit) server" where
  "ex_new = add_timerfd_read_req (event_read 4 NOTIFICATION (event_read 5 KILL
     \<lparr>clients = [], active_connections = {}, freed_indexes = {}, inflight = {#}, multi_writes = [],
      closed_fds = [], notification_count = 0, kill_count = 0, listener_fd = 3,
      notification_efd = 4, kill_efd = 5, timerfd = 6, ran_server = False, is_active = True,
      custom_obj = ()\<rparr>))"

definition ex_read_req :: "int \<Rightarrow> request" where
  "ex_read_req ID = (new_request READ)\<lparr>rq_total_length := int READ_SIZE, rq_client_idx := 0,
     rq_ID := ID, rq_read_data := replicate READ_SIZE 0\<rparr>"

definition ex_conn :: "(unit, unit) server" where
  "ex_conn = (start ex_new)\<lparr>clients := [plain_client\<lparr>sockfd := 7, read_req_active := True\<rparr>],
     active_connections := {0},
     inflight := add_mset (Op_read 7 0 (int READ_SIZE) 0, ex_read_req (-1)) (inflight (start ex_new))\<rparr>"

lemmas ex_defs = ex_conn_def ex_new_def ex_read_req_def start_def add_tcp_accept_req_def
  add_accept_req_def add_timerfd_read_req_def event_read_def submit_def new_request_def plain_client_def

lemma ex_new_eq: "server_base 4 5 6 0 [ex_addr] (\<lambda>_. 0) () = Inr ex_new"
  by (simp add: server_base_def setup_listener_def ex_addr_def ex_defs Let_def)

lemma ex_accept:
  "complete ascending (plain_derived no_callbacks) no_callbacks (\<lambda>_. 1) (Op_accept 3) (new_request ACCEPT) 7 []
     (start ex_new) = Some ex_conn"
  by (simp add: complete_def fill_request_def consume_eventfd_def loop_body_def client_request_def
      plain_derived_def plain_handler_def handle_accept_def setup_client_def call0_def no_callbacks_def
      read_connection_def add_read_req_def upd_client_def vget_def vmod_def in_range_def ex_defs Let_def)

lemma ex_conn_run: "plain_run ascending no_callbacks (start ex_new) ex_conn"
proof (rule plain_run.more [OF plain_run.here])
  show "plain_step ascending no_callbacks (start ex_new) ex_conn"
    by (rule plain_step.completion [OF _ _ _ _ ex_accept]) (auto simp: on_time_def ex_defs)
qed

lemma ex_conn_inv: "plain_inv ex_conn"
  using bare.run_pres [OF _ ex_conn_run] started_inv(1) [OF ex_new_eq] by (simp add: ex_conn_def start_def ex_new_def
      add_tcp_accept_req_def add_accept_req_def submit_def add_timerfd_read_req_def event_read_def)


section \<open>Properties of every run\<close>

lemma slot_ok_count:
  assumes "slot_ok P i c"
  shows "num_write_reqs c = int (size (filter_mset (is_write i) P))"
    "send_data c = [] \<longleftrightarrow> filter_mset (is_write i) P = {#}"
    "\<And>e r. (e, r) \<in># P \<Longrightarrow> is_write i (e, r) \<Longrightarrow> rq_ID r = cl_id c \<and> op_fd e = sockfd c"
proof -
  show "num_write_reqs c = int (size (filter_mset (is_write i) P))"
    "send_data c = [] \<longleftrightarrow> filter_mset (is_write i) P = {#}"
    using assms by (cases "send_data c"; force simp: slot_ok_def simp del: filter_mset_eq_mempty_iff)+
  fix e r assume "(e, r) \<in># P" "is_write i (e, r)"
  then have m: "(e, r) \<in># filter_mset (is_write i) P" by simp
  then obtain wd e' r' where h: "filter_mset (is_write i) P = {#(e', r')#}" "writes_entry c wd e' r'"
    using assms by (cases "send_data c") (auto simp: slot_ok_def)
  have "(e, r) = (e', r')" using m unfolding h(1) by simp
  then show "rq_ID r = cl_id c \<and> op_fd e = sockfd c" using h(2) by (simp add: writes_entry_def)
qed




text \<open>The connection of the small run, with three bytes being written to it.\<close>

definition ex_write_req :: request where
  "ex_write_req = (new_request WRITE)\<lparr>rq_client_idx := 0, rq_total_length := 3,
     rq_buffer := Ptr Queue_entry [1, 2, 3]\<rparr>"

definition ex_write_op :: sqe where
  "ex_write_op = Op_write 7 (Ptr Queue_entry [1, 2, 3]) 3"

definition ex_busy :: "(unit, unit) server" where
  "ex_busy = ex_conn\<lparr>clients := [plain_client\<lparr>sockfd := 7, read_req_active := True, num_write_reqs := 1,
        send_data := [write_data_vec [1, 2, 3]]\<rparr>],
     inflight := add_mset (ex_write_op, ex_write_req) (inflight ex_conn)\<rparr>"

lemma ex_busy_eq: "write_connection_vec 0 [1, 2, 3] ex_conn = Some ex_busy"
  by (simp add: write_connection_vec_def enqueue_write_def add_write_req_def upd_client_def vget_def vmod_def
      in_range_def ex_busy_def ex_write_op_def ex_write_req_def ex_defs u32_def Let_def)

lemma ex_busy_inv: "plain_inv ex_busy"
  using write_connection_vec_ok [OF ex_conn_inv, of 0 "[1, 2, 3]"] ex_busy_eq by (simp add: ex_defs)

text \<open>A layer that greets: its event callback sends three bytes to client 0, if there is one.\<close>

definition greet :: "(unit, unit) op" where
  "greet s = (if 0 \<in> active_connections s then write_connection_vec 0 [1, 2, 3] s else Some s)"

definition greeter :: "(unit, unit) callbacks" where
  "greeter = no_callbacks\<lparr>event_cb := Some greet\<rparr>"

lemma greet_ok: "plain_inv s \<Longrightarrow> greet s = Some t \<Longrightarrow> plain_inv t"
  using write_connection_vec_ok [of s 0 "[1, 2, 3]"] by (auto simp: greet_def split: if_splits)

interpretation greeter: plain_layer greeter "\<lambda>_ _ _ _. True" "\<lambda>_. True"
  by unfold_locales (auto simp: greeter_def no_callbacks_def intro: greet_ok)


lemma ex_accept_greeter:
  "complete ascending (plain_derived greeter) greeter (\<lambda>_. 1) (Op_accept 3) (new_request ACCEPT) 7 []
     (start ex_new) = Some ex_conn"
  by (simp add: complete_def fill_request_def consume_eventfd_def loop_body_def client_request_def
      plain_derived_def plain_handler_def handle_accept_def setup_client_def call0_def greeter_def no_callbacks_def
      read_connection_def add_read_req_def upd_client_def vget_def vmod_def in_range_def ex_defs Let_def)

definition ex_notification :: "sqe \<times> request" where
  "ex_notification = (Op_read 4 0 8 0, (new_request NOTIFICATION)\<lparr>rq_read_data := replicate 8 0\<rparr>)"

lemma ex_notify_greeter:
  "complete ascending (plain_derived greeter) greeter (\<lambda>_. 1) (fst ex_notification) (snd ex_notification) 8
     (replicate 8 0) ex_conn = Some ex_busy"
proof -
  let ?s = "ex_conn\<lparr>inflight := inflight ex_conn - {#ex_notification#}\<rparr>"
  have fill: "fill_request (fst ex_notification) (snd ex_notification) (replicate 8 0) = Some (snd ex_notification)"
    by (simp add: fill_request_def ex_notification_def)
  have mem: "ex_notification \<in># inflight ex_conn"
    by (simp add: ex_notification_def ex_defs)
  have eat: "consume_eventfd (fst ex_notification) 8 ?s = ?s"
    by (simp add: consume_eventfd_def ex_notification_def ex_defs)
  have rearm: "event_read (notification_efd ?s) NOTIFICATION ?s = ex_conn"
    using insert_DiffM [OF mem] by (simp add: event_read_def submit_def ex_notification_def ex_conn_def
        ex_new_def start_def add_tcp_accept_req_def add_accept_req_def add_timerfd_read_req_def)
  have ev: "rq_event (snd ex_notification) = NOTIFICATION" by (simp add: ex_notification_def new_request_def)
  have call: "call0 (event_cb greeter) ex_conn = Some ex_busy"
    using ex_busy_eq by (simp add: call0_def greeter_def no_callbacks_def greet_def ex_conn_def)
  show ?thesis
    using fill eat rearm ev call by (simp add: complete_def loop_body_def client_request_def)
qed

lemma ex_busy_run: "plain_run ascending greeter (start ex_new) ex_busy"
proof (rule plain_run.more [OF plain_run.more [OF plain_run.here]])
  show "plain_step ascending greeter (start ex_new) ex_conn"
    by (rule plain_step.completion [OF _ _ _ _ ex_accept_greeter]) (auto simp: on_time_def ex_defs)
  show "plain_step ascending greeter ex_conn ex_busy"
    by (rule plain_step.completion [OF _ _ _ _ ex_notify_greeter])
       (auto simp: on_time_def ex_notification_def ex_defs)
qed


lemma write_completion_stream:
  assumes "plain_inv s" "write_cb CB = None" "(e, r) \<in># inflight s" "rq_event r = WRITE"
    and "kernel_result e res []" "0 < res" "i = rq_client_idx r"
  shows "\<exists>t. complete ord (plain_derived CB) CB peek e r res [] s = Some t \<and> plain_inv t \<and> same_frame s t \<and>
    (\<exists>n. send_data (clients t ! nat i) = drop n (send_data (clients s ! nat i))) \<and>
    unsent (inflight s) i (clients s ! nat i) =
      take (nat res) (ptr_bytes (op_ptr e)) @ unsent (inflight t) i (clients t ! nat i)"
proof -
  let ?s = "s\<lparr>inflight := inflight s - {#(e, r)#}\<rparr>"
  have inv: "plain_inv_at (add_mset (e, r) (inflight ?s)) ?s" using assms(1,3) by (simp add: plain_inv_at_def)
  obtain wd where h: "writes_entry (clients ?s ! nat i) wd e r" "in_range (clients ?s) i"
    using assms(7) by (metis write_in_hand [OF inv [unfolded plain_inv_at_def] assms(4)])
  then have e: "res \<le> op_len e" "cl_id (clients s ! nat i) = rq_ID r" "fill_request e r [] = Some r"
    "consume_eventfd e res ?s = ?s"
    using assms(5) by (auto simp: writes_entry_def fill_request_def consume_eventfd_def)
  have body: "complete ord (plain_derived CB) CB peek e r res [] s = handle_write CB r res ?s"
    using e h(2) assms(4,6,7)
    by (auto simp: complete_def loop_body_def client_request_def vget_in_range plain_derived_def plain_handler_def)
  have ms: "add_mset (e, r) (inflight ?s) = inflight s" using assms(3) by simp
  show ?thesis
  proof (cases "write_incomplete r res")
    case True
    then obtain t where t: "add_write_req_continued r res ?s = Some t" "plain_inv t" "same_frame ?s t"
      using add_write_req_continued_ok [OF inv assms(4,6) e(1)] by blast
    have "clients t = clients s" using t(1) by (auto simp: add_write_req_continued_def bind_Some_iff Let_def submit_def)
    then have "send_data (clients t ! nat i) = drop 0 (send_data (clients s ! nat i))" by simp
    then show ?thesis
      using continued_unsent [OF inv assms(4,6) e(1) True t(1)] t body True ms assms(7)
      by (auto simp: handle_write_def same_frame_def simp del: drop0)
  next
    case False
    obtain wd ws info t where t: "finish_write r ?s = Some (info, t)" "plain_inv t" "same_frame ?s t"
      "send_data (clients s ! nat i) = wd # ws" "send_data (clients t ! nat i) = ws"
      using finish_write_ok [OF inv assms(4)] assms(7) by auto
    then have "send_data (clients t ! nat i) = drop 1 (send_data (clients s ! nat i))" by simp
    then show ?thesis
      using finish_unsent [OF inv assms(4,6) e(1) False t(1)] t(1-3) body False ms assms(2,7)
      by (auto simp: handle_write_def call0_def same_frame_def)
  qed
qed



lemma entry_bytes_vec: "int (length b) < 2 ^ 32 \<Longrightarrow> entry_bytes (write_data_vec b) = b"
  by (simp add: entry_bytes_def entry_view_def write_data_vec_def u32_small)

lemma entry_bytes_ptr:
  "p \<noteq> Nullptr \<Longrightarrow> 0 \<le> n \<Longrightarrow> n < 2 ^ 32 \<Longrightarrow> entry_bytes (write_data_ptr p n bc info) = take (nat n) (ptr_bytes p)"
  by (simp add: entry_bytes_def entry_view_def write_data_ptr_def u32_small)

lemma write_vec_unsent:
  assumes "plain_inv s" "i \<in> active_connections s" "int (length b) < 2 ^ 32"
  shows "\<exists>t. write_connection_vec i b s = Some t \<and> plain_inv t \<and> same_frame s t \<and> closed_fds t = closed_fds s \<and>
    unsent (inflight t) i (clients t ! nat i) = unsent (inflight s) i (clients s ! nat i) @ b"
proof -
  obtain t where t: "write_connection_vec i b s = Some t" "plain_inv t" "same_frame s t"
    using write_connection_vec_ok [OF assms(1,2)] by blast
  have v: "entry_view (write_data_vec b) = (Ptr Queue_entry b, int (length b))"
    by (simp add: entry_view_def write_data_vec_def)
  then show ?thesis
    using t push_write_unsent [OF assms(1,2) _ v, of t] push_write_fds [of i _ _ _ s t] entry_bytes_vec [OF assms(3)]
    by (auto simp: write_connection_vec_push write_data_vec_def)
qed

lemma write_ptr_unsent:
  assumes "plain_inv s" "i \<in> active_connections s" "p \<noteq> Nullptr" "0 \<le> n" "n < 2 ^ 32"
  shows "\<exists>t. write_connection_ptr i p n s = Some t \<and> plain_inv t \<and> same_frame s t \<and> closed_fds t = closed_fds s \<and>
    unsent (inflight t) i (clients t ! nat i) = unsent (inflight s) i (clients s ! nat i) @ take (nat n) (ptr_bytes p)"
proof -
  obtain t where t: "write_connection_ptr i p n s = Some t" "plain_inv t" "same_frame s t"
    using write_connection_ptr_ok [OF assms(1-3)] by blast
  obtain bc info where w: "write_connection_ptr i p n s = push_write i (write_data_ptr p n bc info) p n s"
    using write_connection_ptr_push by metis
  have v: "entry_view (write_data_ptr p n bc info) = (p, n)" using assms(3) by (simp add: entry_view_def write_data_ptr_def)
  then show ?thesis
    using t w push_write_unsent [OF assms(1,2) _ v, of t] push_write_fds [of i _ _ _ s t] entry_bytes_ptr [OF assms(3-5)]
    by (auto simp: write_data_ptr_def)
qed

text \<open>C7. Writing a vector to an open connection appends its bytes behind everything still to be
  sent to that client, and sends it at once when nothing was queued.\<close>

theorem plain_write_appends:
  assumes "plain_inv s" "i \<in> active_connections s" "int (length b) < 2 ^ 32"
  shows "\<exists>t. write_connection_vec i b s = Some t \<and> plain_inv t \<and>
    unsent (inflight t) i (clients t ! nat i) = unsent (inflight s) i (clients s ! nat i) @ b"
  using write_vec_unsent [OF assms] by blast

theorem plain_write_appends_witness:
  "\<exists>t. write_connection_vec 0 [1, 2, 3] ex_conn = Some t \<and> plain_inv t \<and>
    unsent (inflight t) 0 (clients t ! nat 0) = unsent (inflight ex_conn) 0 (clients ex_conn ! nat 0) @ [1, 2, 3]"
  by (rule plain_write_appends [OF ex_conn_inv]) (simp_all add: ex_defs)

end
