(* ===== verification/Tcp_Limits.thy ===== *)
theory Tcp_Limits
  imports Tcp_Plain_Props
begin

text \<open>
  The event loop at its edges: completions of requests whose client is gone, the timer and a
  connection with a write in flight, file reads that arrive in pieces or outgrow their buffer,
  and the listener.
\<close>

section \<open>Requests of a former client\<close>

lemma setup_client_recycle:
  assumes "plain_inv s" "freed_indexes s \<noteq> {}" "i = Min (freed_indexes s)"
  shows "\<exists>t. setup_client plain_client fd s = Some (i, t) \<and>
     cl_id (clients t ! nat i) = (cl_id (clients s ! nat i) + 1) mod 100 \<and> in_range (clients t) i"
proof -
  have "i \<in> freed_indexes s" using assms by (simp add: plain_inv_at_def plain_ok_def)
  then have i: "i \<in> freed_indexes s" "in_range (clients s) i" "send_data (clients s ! nat i) = []"
    using assms(1) by (auto simp: plain_inv_at_def plain_ok_def)
  then show ?thesis using assms(2,3)
    by (auto simp: setup_client_def vget_in_range clear_send_data_plain upd_client_def vmod_in_range Let_def in_range_nat)
qed


text \<open>Slots 0 and 1, the second one free and with a read of its former client in flight.\<close>

definition ex_old_read :: "sqe \<times> request" where
  "ex_old_read = (Op_read 8 0 (int READ_SIZE) 0, (ex_read_req 4)\<lparr>rq_client_idx := 1\<rparr>)"

definition ex_freed :: "(unit, unit) server" where
  "ex_freed = ex_conn\<lparr>clients := clients ex_conn @ [plain_client\<lparr>cl_id := 4, sockfd := 8\<rparr>],
     freed_indexes := {1}, inflight := add_mset ex_old_read (inflight ex_conn)\<rparr>"

lemma ex_freed_inv: "plain_inv ex_freed"
  unfolding plain_inv_at_def plain_ok_def ex_freed_def
proof (intro conjI allI impI ballI)
  fix i assume "in_range (clients (ex_conn\<lparr>clients := clients ex_conn @ [plain_client\<lparr>cl_id := 4, sockfd := 8\<rparr>],
     freed_indexes := {1}, inflight := add_mset ex_old_read (inflight ex_conn)\<rparr>)) i"
  then have "i = 0 \<or> i = 1" by (auto simp: in_range_def ex_defs)
  then show "slot_ok (inflight (ex_conn\<lparr>clients := clients ex_conn @ [plain_client\<lparr>cl_id := 4, sockfd := 8\<rparr>],
     freed_indexes := {1}, inflight := add_mset ex_old_read (inflight ex_conn)\<rparr>)) i
     (clients (ex_conn\<lparr>clients := clients ex_conn @ [plain_client\<lparr>cl_id := 4, sockfd := 8\<rparr>],
     freed_indexes := {1}, inflight := add_mset ex_old_read (inflight ex_conn)\<rparr>) ! nat i)"
    by (auto simp: slot_ok_def ex_defs is_write_def ex_old_read_def)
qed (auto simp: ex_defs in_range_def client_request_def ex_old_read_def)


text \<open>C28. The first slot has no such protection: its index is 0, the check asks for an index above
  0, and data read for the previous client of slot 0 is handed to the read callback in the name
  of the current one.\<close>

theorem slot_zero_accepts_old_read:
  assumes "in_range (clients s) 0" "cl_id (clients s ! 0) \<noteq> rq_ID r"
    and "rq_event r = READ" "rq_client_idx r = 0" "0 < res" "read_cb CB = Some f"
  shows "loop_body ord (plain_derived CB) CB peek r res s =
     f 0 (rq_read_data r) res (s\<lparr>clients := (clients s)[0 := (clients s ! 0)\<lparr>read_req_active := False\<rparr>]\<rparr>)"
  using assms
  by (simp add: loop_body_def client_request_def plain_derived_def plain_handler_def handle_read_def
      upd_client_def vmod_in_range call0_def)

text \<open>A layer that records what it is given.\<close>

definition recorder :: "(unit, (int \<times> bytes) list) callbacks" where
  "recorder = no_callbacks\<lparr>read_cb :=
     Some (\<lambda>i data len s. Some (s\<lparr>custom_obj := custom_obj s @ [(i, take (nat len) data)]\<rparr>))\<rparr>"

definition ex_recycled :: "(unit, (int \<times> bytes) list) server" where
  "ex_recycled = \<lparr>clients = [plain_client\<lparr>cl_id := 0, sockfd := 9\<rparr>], active_connections = {0},
     freed_indexes = {}, inflight = {#}, multi_writes = [], closed_fds = [7], notification_count = 0,
     kill_count = 0, listener_fd = 3, notification_efd = 4, kill_efd = 5, timerfd = 6,
     ran_server = True, is_active = True, custom_obj = []\<rparr>"

theorem slot_zero_accepts_old_read_witness:
  "\<exists>t. loop_body ascending (plain_derived recorder) recorder (\<lambda>_. 1)
        ((ex_read_req (-1))\<lparr>rq_read_data := [104, 105]\<rparr>) 2 ex_recycled = Some t \<and>
      custom_obj t = [(0, [104, 105])]"
  by (subst slot_zero_accepts_old_read [where f = "\<lambda>i data len s. Some (s\<lparr>custom_obj := custom_obj s @ [(i, take (nat len) data)]\<rparr>)"])
     (simp_all add: recorder_def no_callbacks_def ex_recycled_def ex_defs in_range_def)

section \<open>The timer and a busy connection\<close>

lemma drain_no_callback:
  assumes "close_cb CB = None" "in_range (clients s) i"
    and "\<forall>wd\<in>set (send_data (clients s ! nat i)). multi_write_data wd = None"
  shows "drain_send_data CB i s = Some (s\<lparr>clients := (clients s)[nat i := (clients s ! nat i)\<lparr>send_data := []\<rparr>]\<rparr>)"
  using assms
proof (induction "send_data (clients s ! nat i)" arbitrary: s)
  case Nil
  have "(clients s)[nat i := (clients s ! nat i)\<lparr>send_data := []\<rparr>] = clients s"
    using Nil by (simp add: list_update_same_conv in_range_nat)
  then show ?case using Nil by (simp add: drain_send_data.simps [of CB i s] vget_in_range)
next
  case (Cons wd ws)
  let ?s = "s\<lparr>clients := (clients s)[nat i := (clients s ! nat i)\<lparr>send_data := ws\<rparr>]\<rparr>"
  have "drain_send_data CB i s = drain_send_data CB i ?s"
    using Cons.prems Cons.hyps(2) [symmetric]
    by (simp add: drain_send_data.simps [of CB i s] vget_in_range call0_def pop_send_data_plain)
  then show ?case
    using Cons.hyps(1) [of ?s] Cons.prems Cons.hyps(2) [symmetric] by (simp add: in_range_nat)
qed

lemma write_completion_empty_queue:
  assumes "rq_event r = WRITE" "rq_client_idx r \<in> active_connections s" "0 < res"
    and "vget (clients s) (rq_client_idx r) = Some c" "send_data c = []" "rq_ID r = cl_id c"
  shows "loop_body ord (plain_derived CB) CB peek r res s = None"
proof -
  have i: "in_range (clients s) (rq_client_idx r)" and c: "c = clients s ! nat (rq_client_idx r)"
    using assms(4) by (auto simp: vget_eq_Some)
  have "handle_write CB r res s = None"
    using assms i c by (simp add: handle_write_def add_write_req_continued_def finish_write_def
        upd_client_def vmod_in_range vget_update)
  then show ?thesis
    using assms by (simp add: loop_body_def client_request_def plain_derived_def plain_handler_def)
qed

text \<open>C29. The timer handler and a write in flight do not go together: when the peer of a busy
  connection has shut down its side, the timer empties the connection's queue (and frees the
  buffers in it) but leaves the connection open, because a write is still in flight; when that
  write then completes, the handler takes the front of an empty queue, which is undefined.\<close>

theorem timer_empties_busy_queue:
  assumes "plain_inv s" "close_cb CB = None" "active_connections s = {i}"
    and "send_data (clients s ! nat i) \<noteq> []" "peek (sockfd (clients s ! nat i)) = 0" "rq_event tr = TIMERFD"
  shows "\<exists>t e r. loop_body ord (plain_derived CB) CB peek tr res s = Some t \<and>
     i \<in> active_connections t \<and> send_data (clients t ! nat i) = [] \<and>
     (e, r) \<in># inflight t \<and> is_write i (e, r) \<and>
     (\<forall>res data. 0 < res \<longrightarrow> complete ord (plain_derived CB) CB peek e r res data t = None)"
proof -
  let ?c = "clients s ! nat i"
  have i: "in_range (clients s) i" using assms(1,3) by (auto simp: plain_inv_at_def plain_ok_def)
  have slot: "slot_ok (inflight s) i ?c" using assms(1) i by (auto simp: plain_inv_at_def intro: plain_ok_slot)
  then obtain wd ws e r where h: "send_data ?c = wd # ws" "num_write_reqs ?c = 1"
    "filter_mset (is_write i) (inflight s) = {#(e, r)#}" "writes_entry ?c wd e r"
    "\<forall>wd\<in>set (send_data ?c). multi_write_data wd = None"
    using assms(4) by (auto simp: slot_ok_def split: list.splits)
  have "uord_list ord {i} = [i]" by (rule uord_list_single)
  let ?t = "s\<lparr>clients := (clients s)[nat i := ?c\<lparr>send_data := []\<rparr>]\<rparr>"
  have "close_client (plain_derived CB) CB i s = Some ?t"
    using drain_no_callback [OF assms(2) i h(5)] i h(2) assms(2)
    by (simp add: close_client_def call0_def plain_derived_def close_connection_def vget_in_range in_range_nat)
  then have body: "loop_body ord (plain_derived CB) CB peek tr res s = Some (add_timerfd_read_req ?t)"
    using assms(3,5,6) i \<open>uord_list ord {i} = [i]\<close>
    by (simp add: loop_body_def client_request_def vget_in_range)
  have "(e, r) \<in># filter_mset (is_write i) (inflight s)" unfolding h(3) by simp
  then have mem: "(e, r) \<in># inflight s" "is_write i (e, r)" by auto
  have r: "rq_event r = WRITE" "rq_client_idx r = i" "rq_ID r = cl_id ?c" "fill_request e r data = Some r" for data
    using mem(2) h(4) by (auto simp: is_write_def writes_entry_def fill_request_def)
  have "complete ord (plain_derived CB) CB peek e r res data (add_timerfd_read_req ?t) = None"
    if "0 < res" for res data
    unfolding complete_def r(4) Option.bind.simps
    by (rule write_completion_empty_queue [where c = "?c\<lparr>send_data := []\<rparr>"])
       (use r that i assms(3) in \<open>auto simp: add_timerfd_read_req_def submit_def vget_update\<close>)
  note stuck = this
  show ?thesis
    using body mem assms(3) i stuck
    by (intro exI [of _ "add_timerfd_read_req ?t"] exI [of _ e] exI [of _ r])
       (auto simp: add_timerfd_read_req_def submit_def in_range_nat)
qed


theorem timer_empties_busy_queue_witness:
  "\<exists>t e r. loop_body ascending (plain_derived no_callbacks) no_callbacks (\<lambda>_. 0) (new_request TIMERFD) 8 ex_busy = Some t \<and>
     0 \<in> active_connections t \<and> send_data (clients t ! nat 0) = [] \<and>
     (e, r) \<in># inflight t \<and> is_write 0 (e, r) \<and>
     (\<forall>res data. 0 < res \<longrightarrow> complete ascending (plain_derived no_callbacks) no_callbacks (\<lambda>_. 0) e r res data t = None)"
  by (rule timer_empties_busy_queue [OF ex_busy_inv])
     (simp_all add: no_callbacks_def ex_busy_def ex_defs)

section \<open>Closing twice\<close>

lemma close_client_no_callback:
  assumes "close_cb CB = None" "in_range (clients s) i" "c = clients s ! nat i"
    and "\<forall>wd\<in>set (send_data c). multi_write_data wd = None" "num_write_reqs c = 0"
  shows "close_client (plain_derived CB) CB i s = Some (s\<lparr>clients := (clients s)[nat i := c\<lparr>send_data := []\<rparr>],
     active_connections := active_connections s - {i}, closed_fds := closed_fds s @ [sockfd c],
     freed_indexes := insert i (freed_indexes s)\<rparr>)"
  using assms drain_no_callback [OF assms(1,2)]
  by (simp add: close_client_def call0_def plain_derived_def close_connection_def vget_in_range in_range_nat
      clear_send_data_plain)

text \<open>A connection that fails while it is both read and written is closed twice: the failed
  write closes the descriptor and frees the slot, and the failed read that follows, whose ID
  still matches, closes the same descriptor number again.\<close>

theorem failed_write_then_read_closes_twice:
  assumes "plain_inv s" "close_cb CB = None" "c = clients s ! nat i"
    and "(we, wr) \<in># inflight s" "rq_event wr = WRITE" "rq_client_idx wr = i" "wres \<le> 0"
    and "re = Op_read fd 0 len off" "rq_event rr = READ" "rq_client_idx rr = i" "rq_ID rr = cl_id c" "rres \<le> 0"
  shows "\<exists>t u. complete ord (plain_derived CB) CB peek we wr wres [] s = Some t \<and> i \<in> freed_indexes t \<and>
     complete ord (plain_derived CB) CB peek re rr rres [] t = Some u \<and>
     closed_fds u = closed_fds s @ [sockfd c, sockfd c]"
proof -
  let ?s = "s\<lparr>inflight := inflight s - {#(we, wr)#}\<rparr>"
  have inv: "plain_ok (clients s) (active_connections s) (freed_indexes s) (add_mset (we, wr) (inflight s - {#(we, wr)#}))"
    using assms(1,4) by (simp add: plain_inv_at_def)
  obtain wd ws where h: "in_range (clients s) i" "num_write_reqs c = 1" "writes_entry c wd we wr"
    "\<forall>wd\<in>set (send_data c). multi_write_data wd = None"
    using assms(3,6) by (metis write_in_hand [OF inv assms(5)])
  let ?c0 = "c\<lparr>num_write_reqs := 0\<rparr>"
  let ?s0 = "?s\<lparr>clients := (clients s)[nat i := ?c0]\<rparr>"
  let ?t = "?s0\<lparr>clients := (clients s)[nat i := ?c0\<lparr>send_data := []\<rparr>],
     active_connections := active_connections s - {i}, closed_fds := closed_fds s @ [sockfd c],
     freed_indexes := insert i (freed_indexes s)\<rparr>"
  have "close_client (plain_derived CB) CB i ?s0 = Some ?t"
    using close_client_no_callback [OF assms(2), of ?s0 i ?c0] h by (simp add: in_range_nat)
  then have t: "complete ord (plain_derived CB) CB peek we wr wres [] s = Some ?t"
    using h assms(3,5,6,7)
    by (simp add: complete_def fill_request_def writes_entry_def consume_eventfd_def loop_body_def client_request_def
        handle_failure_def vget_in_range upd_client_def vmod_in_range in_range_nat)
  let ?t' = "consume_eventfd re rres (?t\<lparr>inflight := inflight ?t - {#(re, rr)#}\<rparr>)"
  have t': "clients ?t' = clients ?t" "closed_fds ?t' = closed_fds ?t"
    by (auto simp: consume_eventfd_def split: sqe.splits)
  have nth: "clients ?t' ! nat i = ?c0\<lparr>send_data := []\<rparr>" "in_range (clients ?t') i"
    using h(1) by (simp_all add: in_range_nat)
  obtain u where "close_client (plain_derived CB) CB i ?t' = Some u"
    "closed_fds u = closed_fds s @ [sockfd c, sockfd c]"
    using close_client_no_callback [OF assms(2) nth(2) refl] nth(1) t' by simp
  moreover have "complete ord (plain_derived CB) CB peek re rr rres [] ?t = close_client (plain_derived CB) CB i ?t'"
    using nth assms(8-)
    by (simp add: complete_def fill_request_def loop_body_def client_request_def handle_failure_def vget_in_range)
  ultimately show ?thesis using t by auto
qed

theorem failed_write_then_read_closes_twice_witness:
  "\<exists>t u. complete ascending (plain_derived no_callbacks) no_callbacks (\<lambda>_. 1) ex_write_op ex_write_req (-32) [] ex_busy = Some t \<and>
     0 \<in> freed_indexes t \<and>
     complete ascending (plain_derived no_callbacks) no_callbacks (\<lambda>_. 1)
       (Op_read 7 0 (int READ_SIZE) 0) (ex_read_req (-1)) 0 [] t = Some u \<and>
     closed_fds u = closed_fds ex_busy @ [sockfd (clients ex_busy ! nat 0), sockfd (clients ex_busy ! nat 0)]"
  by (rule failed_write_then_read_closes_twice [OF ex_busy_inv])
     (simp_all add: no_callbacks_def ex_busy_def ex_write_op_def ex_write_req_def ex_defs)

section \<open>File reads\<close>

text \<open>
  A file read in progress: the buffer holds the response header, then the \<open>k\<close> bytes of the
  file read so far, then room for the rest, and the next read continues at offset \<open>k\<close>.
\<close>

definition file_read :: "int \<Rightarrow> bytes \<Rightarrow> bytes \<Rightarrow> nat \<Rightarrow> sqe \<Rightarrow> request \<Rightarrow> bool" where
  "file_read fd hdr content k e r \<longleftrightarrow> k \<le> length content \<and> rq_event r = CUSTOM_READ \<and>
     rq_custom_info r = fd \<and> rq_total_length r = int (length content) \<and>
     rq_read_amount r = int (length hdr + k) \<and>
     rq_read_data r = hdr @ take k content @ replicate (length content - k) 0 \<and>
     e = Op_read fd (int (length hdr + k)) (int READ_SIZE) (int k)"

lemma file_read_fill:
  assumes "file_read fd hdr content k e r" "data = take m (drop k content)" "k + m \<le> length content"
  shows "fill_request e r data =
     Some (r\<lparr>rq_read_data := hdr @ take (k + m) content @ replicate (length content - (k + m)) 0\<rparr>)"
proof -
  have l: "length data = m" using assms by simp
  have "take (length hdr + k) (rq_read_data r) = hdr @ take k content"
    "drop (length hdr + k + m) (rq_read_data r) = replicate (length content - (k + m)) 0"
    using assms by (auto simp: file_read_def min_def)
  moreover have "nat (int (length hdr) + int k) = length hdr + k" by simp
  ultimately show ?thesis
    using assms l by (auto simp: fill_request_def file_read_def take_add)
qed

text \<open>A fresh file read, as \<open>send_file_request\<close> asks for it.\<close>

lemma custom_read_req_starts:
  assumes "int (length hdr + length content) < 2 ^ 63"
  shows "\<exists>e r. custom_read_req fd (int (length content)) idx (hdr @ replicate (length content) 0) (int (length hdr)) s =
     Some (submit e r s) \<and> file_read fd hdr content 0 e r \<and> rq_client_idx r = idx"
proof -
  have "nat (u64 (int (length content) + int (length hdr))) = length hdr + length content"
    using assms by (simp add: u64_small)
  then show ?thesis
    by (auto simp: custom_read_req_def Let_def vresize_take file_read_def new_request_def)
qed

text \<open>A file is served whole. While a file read is in progress, a completion that brings the next \<open>m\<close> bytes of the file either finishes the buffer, and the
  callback then gets exactly the header followed by the file's content, or submits a read for
  the rest at the right offset of buffer and file.\<close>

theorem file_read_assembles:
  assumes "file_read fd hdr content k e r" "0 < m" "k + m \<le> length content" "data = take m (drop k content)"
    and "int (length hdr + length content) < 2 ^ 63" "0 \<le> fd" "fd < 2 ^ 31" "custom_read_cb CB = Some f"
    and "s' = consume_eventfd e (int m) (s\<lparr>inflight := inflight s - {#(e, r)#}\<rparr>)"
  shows "complete ord D CB peek e r (int m) data s =
    (if k + m = length content then f (rq_client_idx r) fd (hdr @ content) s'
     else Some (submit
       (Op_read fd (int (length hdr + (k + m))) (int READ_SIZE) (int (k + m)))
       (r\<lparr>rq_read_data := hdr @ take (k + m) content @ replicate (length content - (k + m)) 0,
          rq_read_amount := int (length hdr + (k + m))\<rparr>) s'))"
proof -
  let ?r = "r\<lparr>rq_read_data := hdr @ take (k + m) content @ replicate (length content - (k + m)) 0\<rparr>"
  have r: "rq_event r = CUSTOM_READ" "rq_custom_info r = fd" "rq_total_length r = int (length content)"
    "rq_read_amount r = int (length hdr + k)"
    using assms(1) by (auto simp: file_read_def)
  have len: "length (rq_read_data ?r) = length hdr + length content" using assms(3) by simp
  have small: "u64 (int m + rq_read_amount r) = int (length hdr + (k + m))" "u64 (int m) = int m" "i32 fd = fd"
    "u64 (rq_read_amount r + int m) = int (length hdr + (k + m))"
    "u64 (int (length hdr + length content) - int (length content)) = int (length hdr)"
    "u64 (int (length hdr + (k + m)) - int (length hdr)) = int (k + m)"
    using assms(2,3,5,6,7) r(4) by (auto simp: u64_small i32_small)
  have "complete ord D CB peek e r (int m) data s = handle_custom_read CB ?r (int m) s'"
    using file_read_fill [OF assms(1,4,3)] r assms(9) by (simp add: complete_def loop_body_def client_request_def)
  then show ?thesis
    using assms(2,3,8) r len small
    by (auto simp: handle_custom_read_def call0_def custom_read_req_continued_def Let_def)
qed

definition file_recorder :: "(unit, (int \<times> int \<times> bytes) list) callbacks" where
  "file_recorder = no_callbacks\<lparr>custom_read_cb :=
     Some (\<lambda>i fd data s. Some (s\<lparr>custom_obj := custom_obj s @ [(i, fd, data)]\<rparr>))\<rparr>"

definition ex_file_req :: request where
  "ex_file_req = (new_request CUSTOM_READ)\<lparr>rq_client_idx := 0, rq_total_length := 3, rq_read_amount := 1,
     rq_custom_info := 9, rq_read_data := [72, 0, 0, 0]\<rparr>"

definition ex_files :: "(unit, (int \<times> int \<times> bytes) list) server" where
  "ex_files = \<lparr>clients = [plain_client\<lparr>sockfd := 7\<rparr>], active_connections = {0},
     freed_indexes = {}, inflight = {#(Op_read 9 1 (int READ_SIZE) 0, ex_file_req)#}, multi_writes = [],
     closed_fds = [], notification_count = 0,
     kill_count = 0, listener_fd = 3, notification_efd = 4, kill_efd = 5, timerfd = 6,
     ran_server = True, is_active = True, custom_obj = []\<rparr>"

theorem file_read_assembles_witness:
  "\<exists>t. complete ascending (plain_derived file_recorder) file_recorder (\<lambda>_. 1) (Op_read 9 1 (int READ_SIZE) 0)
      ex_file_req (int 3) [5, 6, 7] ex_files = Some t \<and> custom_obj t = [(0, 9, [72, 5, 6, 7])]"
  by (subst file_read_assembles [where hdr = "[72]" and content = "[5, 6, 7]" and k = 0 and fd = 9
      and f = "\<lambda>i fd data s. Some (s\<lparr>custom_obj := custom_obj s @ [(i, fd, data)]\<rparr>)", OF _ _ _ _ _ _ _ _ refl])
     (simp_all add: file_read_def ex_file_req_def new_request_def file_recorder_def no_callbacks_def ex_files_def
      consume_eventfd_def)

text \<open>C30. A custom read does not respect its buffer: the submission asks for \<open>READ_SIZE\<close> bytes
  whatever room is left, so for every buffer smaller than that there are results the kernel may
  give (a second inotify event, a file that grew) whose bytes lie past its end.\<close>

theorem custom_read_overruns_buffer:
  assumes "custom_read_req fd n i [] 0 s = Some t" "0 \<le> n" "n < int READ_SIZE"
    and "int (length data) = m" "n < m" "m \<le> int READ_SIZE"
  shows "\<exists>e r. inflight t = add_mset (e, r) (inflight s) \<and> kernel_result e m data \<and>
     complete ord D CB peek e r m data t = None"
proof -
  have u: "u64 (n + 0) = n" using assms(2,3) by (simp add: READ_SIZE_def u64_small)
  then have l: "length (vresize (nat (u64 (n + 0))) 0 ([] :: bytes)) = nat n" by simp
  let ?r = "(new_request CUSTOM_READ)\<lparr>rq_client_idx := i, rq_total_length := n,
                 rq_read_amount := 0, rq_read_data := vresize (nat (u64 (n + 0))) 0 [], rq_custom_info := fd\<rparr>"
  let ?e = "Op_read fd 0 (int READ_SIZE) 0"
  have "t = submit ?e ?r s" using assms(1) by (simp add: custom_read_req_def Let_def)
  moreover have "fill_request ?e ?r data = None" using assms(2,4,5) l by (simp add: fill_request_def)
  ultimately show ?thesis using assms(4,6)
    by (intro exI [of _ ?e] exI [of _ ?r]) (auto simp: submit_def complete_def)
qed

theorem custom_read_overruns_buffer_witness:
  "\<exists>t e r. custom_read_req 8 16 (-1) [] 0 ex_conn = Some t \<and> inflight t = add_mset (e, r) (inflight ex_conn) \<and>
     kernel_result e 32 (replicate 32 0) \<and>
     complete ascending (plain_derived no_callbacks) no_callbacks (\<lambda>_. 1) e r 32 (replicate 32 0) t = None"
proof -
  obtain t where t: "custom_read_req 8 16 (-1) [] 0 ex_conn = Some t" by (simp add: custom_read_req_def Let_def)
  from custom_read_overruns_buffer [OF t, of "replicate 32 0" 32 ascending "plain_derived no_callbacks" no_callbacks "\<lambda>_. 1"]
  show ?thesis using t by (auto simp: READ_SIZE_def)
qed

section \<open>The listener\<close>

text \<open>The listening socket is the one of the first address that could be bound, every earlier
  address having failed in \<open>bind\<close> only; any other failure, or no address at all, ends the
  program with a message instead of a descriptor.\<close>

theorem setup_listener_first_bound:
  "setup_listener gai addrs listen_res = Inr fd \<longleftrightarrow>
     gai = 0 \<and> listen_res fd \<noteq> -1 \<and>
     (\<exists>before a after. addrs = before @ a # after \<and> socket_res a = fd \<and>
        (\<forall>b\<in>set before. bind_res b = -1) \<and> bind_res a \<noteq> -1 \<and>
        (\<forall>b\<in>set (before @ [a]). socket_res b \<noteq> -1 \<and> reuseaddr_res b \<noteq> -1 \<and> reuseport_res b \<noteq> -1))"
proof -
  have "try_bind addrs = Inr (Some fd) \<longleftrightarrow>
     (\<exists>before a after. addrs = before @ a # after \<and> socket_res a = fd \<and>
        (\<forall>b\<in>set before. bind_res b = -1) \<and> bind_res a \<noteq> -1 \<and>
        (\<forall>b\<in>set (before @ [a]). socket_res b \<noteq> -1 \<and> reuseaddr_res b \<noteq> -1 \<and> reuseport_res b \<noteq> -1))"
    (is "_ \<longleftrightarrow> (\<exists>before a after. ?P addrs before a after)")
  proof (induction addrs)
    case Nil
    then show ?case by simp
  next
    case (Cons x xs)
    have split: "(\<exists>before a after. ?P (x # xs) before a after) \<longleftrightarrow>
        ?P (x # xs) [] x xs \<or> (bind_res x = -1 \<and> socket_res x \<noteq> -1 \<and> reuseaddr_res x \<noteq> -1 \<and>
           reuseport_res x \<noteq> -1 \<and> (\<exists>before a after. ?P xs before a after))" (is "?L \<longleftrightarrow> ?R")
    proof
      assume ?L
      then obtain before a after where P: "?P (x # xs) before a after" by blast
      then show ?R by (cases before) auto
    next
      assume ?R
      then show ?L
      proof
        assume "?P (x # xs) [] x xs"
        then show ?L by blast
      next
        assume R: "bind_res x = -1 \<and> socket_res x \<noteq> -1 \<and> reuseaddr_res x \<noteq> -1 \<and>
           reuseport_res x \<noteq> -1 \<and> (\<exists>before a after. ?P xs before a after)"
        then obtain before a after where "?P xs before a after" by blast
        then have "?P (x # xs) (x # before) a after" using R by simp
        then show ?L by blast
      qed
    qed
    show ?case unfolding split using Cons.IH by auto
  qed
  then show ?thesis
    by (auto simp: setup_listener_def split: sum.splits option.splits)
qed

theorem setup_listener_first_bound_witness:
  "setup_listener 0 [ex_addr\<lparr>socket_res := 9, bind_res := -1\<rparr>, ex_addr] (\<lambda>_. 0) = Inr 3"
  unfolding setup_listener_first_bound
  by (intro conjI exI [of _ "[ex_addr\<lparr>socket_res := 9, bind_res := -1\<rparr>]"] exI [of _ ex_addr] exI [of _ "[]"])
    (simp_all add: ex_addr_def)

end
