(* ===== verification/Tcp_Drain.thy ===== *)
theory Tcp_Drain
  imports Tcp_Plain_Props
begin

text \<open>
  The write queue of the plain server makes progress: as long as the kernel completes the writes it
  is given with a positive result, the queue of a client is emptied after finitely many completions.
\<close>

text \<open>The entry's pointer leads to as many bytes as it says, and at least one.\<close>

definition entry_ok :: "write_data \<Rightarrow> bool" where
  "entry_ok wd \<longleftrightarrow> 0 < u32 (snd (entry_view wd)) \<and> nat (u32 (snd (entry_view wd))) \<le> length (ptr_bytes (fst (entry_view wd)))"

text \<open>The kernel completes a write of client \<open>i\<close> with a positive result, and the server processes it.\<close>

definition write_step :: "uorder \<Rightarrow> (unit, 'w) callbacks \<Rightarrow> (int \<Rightarrow> int) \<Rightarrow> int \<Rightarrow> (unit, 'w) server \<Rightarrow> (unit, 'w) server \<Rightarrow> bool" where
  "write_step ord CB peek i s t \<longleftrightarrow> (\<exists>e r res. (e, r) \<in># inflight s \<and> rq_event r = WRITE \<and> rq_client_idx r = i \<and>
     kernel_result e res [] \<and> 0 < res \<and> complete ord (plain_derived CB) CB peek e r res [] s = Some t)"

text \<open>The bytes of client \<open>i\<close> that are not sent yet.\<close>

abbreviation backlog :: "(unit, 'w) server \<Rightarrow> int \<Rightarrow> nat" where
  "backlog s i \<equiv> length (unsent (inflight s) i (clients s ! nat i))"

definition drain_ok :: "int \<Rightarrow> (unit, 'w) server \<Rightarrow> bool" where
  "drain_ok i s \<longleftrightarrow> plain_inv s \<and> in_range (clients s) i \<and> (\<forall>wd\<in>set (send_data (clients s ! nat i)). entry_ok wd)"

lemma queue_write_in_flight:
  assumes "plain_inv s" "(e, r) \<in># inflight s" "rq_event r = WRITE"
  obtains wd ws where "send_data (clients s ! nat (rq_client_idx r)) = wd # ws" "writes_entry (clients s ! nat (rq_client_idx r)) wd e r"
proof -
  have "plain_ok (clients s) (active_connections s) (freed_indexes s) (add_mset (e, r) (inflight s - {#(e, r)#}))"
    using assms(1,2) by (simp add: plain_inv_at_def)
  from write_in_hand [OF this assms(3)] show thesis using that by metis
qed

lemma write_step_shrinks:
  assumes ok: "drain_ok i s" and CB: "write_cb CB = None" and st: "write_step ord CB peek i s t"
  shows "drain_ok i t \<and> backlog t i < backlog s i"
proof -
  obtain e r res where h: "(e, r) \<in># inflight s" "rq_event r = WRITE" "rq_client_idx r = i" "kernel_result e res []" "0 < res"
    "complete ord (plain_derived CB) CB peek e r res [] s = Some t"
    using st by (auto simp: write_step_def)
  have inv: "plain_inv s" using ok by (simp add: drain_ok_def)
  obtain n where t: "plain_inv t" "same_frame s t" "send_data (clients t ! nat i) = drop n (send_data (clients s ! nat i))"
    "unsent (inflight s) i (clients s ! nat i) = take (nat res) (ptr_bytes (op_ptr e)) @ unsent (inflight t) i (clients t ! nat i)"
    using write_completion_stream [OF inv CB h(1,2,4,5) h(3) [symmetric], of ord peek] h(6) by auto
  obtain wd ws where wd: "send_data (clients s ! nat i) = wd # ws" "writes_entry (clients s ! nat i) wd e r"
    using queue_write_in_flight [OF inv h(1,2)] h(3) by metis
  obtain p m where v: "entry_view wd = (p, m)" by (cases "entry_view wd")
  have "entry_ok wd" using ok wd(1) by (simp add: drain_ok_def)
  then have "op_len e \<le> int (length (ptr_bytes (op_ptr e)))" using wd(2) v
    by (auto simp: writes_entry_def entry_ok_def ptr_bytes_add)
  then have "length (take (nat res) (ptr_bytes (op_ptr e))) > 0"
    using h(4,5) wd(2) v by (auto simp: writes_entry_def)
  then have "backlog t i < backlog s i" using t(4) by simp
  moreover have "drain_ok i t"
    using ok t(1,2,3) by (auto simp: drain_ok_def same_frame_def in_range_def dest: in_set_dropD)
  ultimately show ?thesis by simp
qed

text \<open>A queue that is not empty has a write in flight, which the kernel can complete.\<close>

lemma write_step_enabled:
  assumes ok: "drain_ok i s" and CB: "write_cb CB = None" and q: "send_data (clients s ! nat i) \<noteq> []"
  shows "\<exists>t. write_step ord CB peek i s t"
proof -
  have inv: "plain_inv s" and r: "in_range (clients s) i" using ok by (auto simp: drain_ok_def)
  have slot: "slot_ok (inflight s) i (clients s ! nat i)" using inv r by (simp add: plain_inv_at_def plain_ok_slot)
  then have "filter_mset (is_write i) (inflight s) \<noteq> {#}" using slot_ok_count(2) q by blast
  then obtain e rq where er: "(e, rq) \<in># inflight s" "rq_event rq = WRITE" "rq_client_idx rq = i"
    by (auto simp: is_write_def)
  obtain wd ws where wd: "send_data (clients s ! nat i) = wd # ws" "writes_entry (clients s ! nat i) wd e rq"
    using queue_write_in_flight [OF inv er(1,2)] er(3) by metis
  obtain p m where v: "entry_view wd = (p, m)" by (cases "entry_view wd")
  have "entry_ok wd" using ok wd(1) by (simp add: drain_ok_def)
  then have k: "kernel_result e 1 []" using wd(2) v by (cases "rq_written rq = 0") (auto simp: writes_entry_def entry_ok_def)
  then obtain t where "complete ord (plain_derived CB) CB peek e rq 1 [] s = Some t"
    using write_completion_stream [OF inv CB er(1,2) k _ er(3) [symmetric], of ord peek] by auto
  then have "write_step ord CB peek i s t" unfolding write_step_def using er k zero_less_one by blast
  then show ?thesis by blast
qed


lemma ex_busy_drain: "drain_ok 0 ex_busy"
  using ex_busy_inv by (simp add: drain_ok_def ex_busy_def in_range_def entry_ok_def entry_view_def write_data_vec_def u32_def)


end
