(* ===== verification/Ws_Codec.thy ===== *)
theory Ws_Codec
  imports Tcp_Base
begin

text \<open>
  The WebSocket codec of \<open>web_server/websockets.tcc\<close>: building server frames, measuring and
  decoding client frames, and cutting the byte stream of a connection into frames.

  A \<open>char*\<close> is the list of bytes that can be read through it; reading past its end is
  undefined (\<open>None\<close>). Loading a 16 or 64 bit number with \<open>ntohs\<close> or
  \<open>be64toh\<close> reads big-endian bytes. The frame cutting loop may run for ever, so it has a second
  option layer: the outer \<open>None\<close> means that the call does not return, \<open>Some None\<close> that it
  runs into undefined behaviour.
\<close>

unbundle bit_operations_syntax

section \<open>Big-endian numbers\<close>

definition be_val :: "bytes \<Rightarrow> int" where
  "be_val bs = foldl (\<lambda>a b. a * 256 + uint b) 0 bs"

primrec be_bytes :: "nat \<Rightarrow> int \<Rightarrow> bytes" where
  "be_bytes 0 x = []"
| "be_bytes (Suc n) x = be_bytes n (x div 256) @ [word_of_int x]"

section \<open>Building a server frame\<close>

datatype websocket_non_control_opcodes = text_frame | binary_frame | close_connection_op | ping | pong

fun opcode_value :: "websocket_non_control_opcodes \<Rightarrow> byte" where
  "opcode_value text_frame = 0x01"
| "opcode_value binary_frame = 0x02"
| "opcode_value close_connection_op = 0x08"
| "opcode_value ping = 0x09"
| "opcode_value pong = 0xA"

text \<open>
  The vector \<open>data\<close> is built zeroed with \<open>offset + msg_size\<close> bytes; the header bytes and
  the message are stored into it.
\<close>

definition make_ws_frame :: "bytes \<Rightarrow> websocket_non_control_opcodes \<Rightarrow> bytes" where
  "make_ws_frame packet_msg opcode = (
     let msg_size = int (length packet_msg);
         offset = (if msg_size < 126 then 2 else if msg_size < 65536 then 4 else 10);
         payload_len_short = (if 126 \<le> msg_size \<and> msg_size < 65536 then be_bytes 2 msg_size else [0, 0]);
         payload_len_long = (if msg_size < 65536 then [0, 0, 0, 0, 0, 0, 0, 0] else be_bytes 8 msg_size);
         header = [128 OR opcode_value opcode] @
           (if msg_size < 126 then [word_of_int msg_size]
            else if be_val payload_len_short \<noteq> 0 then [126] @ payload_len_short
            else [127] @ payload_len_long);
         data = header @ replicate (length packet_msg) 0
     in if length data = 2 then data else take offset data @ packet_msg)"

section \<open>Measuring and decoding a client frame\<close>

text \<open>\<open>sub b i n\<close> reads \<open>n\<close> bytes at index \<open>i\<close>.\<close>

definition sub_bytes :: "bytes \<Rightarrow> nat \<Rightarrow> nat \<Rightarrow> bytes option" where
  "sub_bytes b i n = (if i + n \<le> length b then Some (take n (drop i b)) else None)"

definition get_ws_frame_length :: "bytes \<Rightarrow> int option" where
  "get_ws_frame_length buffer = do {
     b1 \<leftarrow> vget buffer 1;
     let packet_length = uint (b1 AND 0x7f);
     packet_length \<leftarrow>
       (if packet_length = 126 then do { l \<leftarrow> sub_bytes buffer 2 2; Some (u64 (be_val l + 2)) }
        else if packet_length = 127 then do { l \<leftarrow> sub_bytes buffer 2 8; Some (u64 (be_val l + 8)) }
        else Some packet_length);
     Some (u64 (packet_length + 6))
   }"

text \<open>
  The in-place unmasking loop: \<open>off\<close> is \<open>6 + offset\<close>, the loop runs over the indexes from
  \<open>off\<close> to the size.
\<close>

definition unmask_step :: "bytes \<Rightarrow> nat \<Rightarrow> nat \<Rightarrow> bytes \<Rightarrow> bytes" where
  "unmask_step masking_key off i data =
     data[i - off := (data ! i) XOR (masking_key ! ((i - off) mod 4))]"

definition unmask_in_place :: "bytes \<Rightarrow> nat \<Rightarrow> bytes \<Rightarrow> bytes" where
  "unmask_in_place masking_key off data = fold (unmask_step masking_key off) [off..<length data] data"

definition decode_websocket_frame :: "bytes \<Rightarrow> (int \<times> bytes) option" where
  "decode_websocket_frame data = do {
     b0 \<leftarrow> vget data 0;
     b1 \<leftarrow> vget data 1;
     let fin = (b0 AND 0x80 = 0x80);
     let opcode = b0 AND 0xf;
     let mask = (b1 AND 0x80 = 0x80);
     if \<not> mask then Some (-1, [])
     else if opcode = 0x8 then Some (-3, [])
     else if opcode = 0xA then Some (3, [])
     else do {
       let len = uint (b1 AND 0x7f);
       let offset = (if len = 126 then 2 else if len = 127 then 8 else 0 :: nat);
       masking_key \<leftarrow> sub_bytes data (2 + offset) 4;
       let data = unmask_in_place masking_key (6 + offset) data;
       let data = vresize (length data - (6 + offset)) 0 data;
       if opcode = opcode_value ping then Some (2, data)
       else if \<not> fin then Some (-2, data)
       else Some (1, data)
     }
   }"

section \<open>Cutting the stream into frames\<close>

record receiving_data_info =
  rd_length :: int
  rd_buffer :: bytes

definition new_receiving_data :: receiving_data_info where
  "new_receiving_data = \<lparr>rd_length = -1, rd_buffer = []\<rparr>"

text \<open>
  \<open>remove_first_n_elements\<close> moves the rest of the buffer to the front and copies it into a
  new block of exactly that size, which is what can be read from then on.
\<close>

definition remove_first_n_elements :: "bytes \<Rightarrow> int \<Rightarrow> int \<Rightarrow> bytes option" where
  "remove_first_n_elements data len n =
     (if 0 \<le> n \<and> n \<le> len \<and> len \<le> int (length data) then Some (take (nat (len - n)) (drop (nat n) data))
      else None)"

text \<open>The loop over the complete frames; it returns the buffer and the length that are left.\<close>

partial_function (option) ws_frame_loop ::
    "bytes \<Rightarrow> int \<Rightarrow> bytes list \<Rightarrow> (bytes \<times> int \<times> bytes list) option option"
  where
  "ws_frame_loop buffer remaining_length frames =
     (if remaining_length > 5 then
        case get_ws_frame_length buffer of
          None \<Rightarrow> Some None
        | Some packet_length \<Rightarrow>
            if u64 remaining_length \<ge> packet_length then
              case (sub_bytes buffer 0 (nat packet_length),
                    remove_first_n_elements buffer remaining_length (i32 packet_length)) of
                (Some frame, Some rest) \<Rightarrow>
                  ws_frame_loop rest (i32 (remaining_length - packet_length)) (frames @ [frame])
              | _ \<Rightarrow> Some None
            else Some (Some (buffer, remaining_length, frames))
      else Some (Some (buffer, remaining_length, frames)))"

text \<open>
  What the pending data contributes: \<open>Inl ()\<close> when the code gives up on a header split over
  too small reads, else the buffer and length left after it, the frames it completed, and the new
  pending data.
\<close>

definition header_length :: "bytes \<Rightarrow> int \<Rightarrow> bytes \<Rightarrow> int option" where
  "header_length buffer len pending = do {
     part \<leftarrow> (if length pending \<le> 10 then sub_bytes buffer 0 (10 - length pending) else None);
     let temp_buffer = part @ (pending @ replicate 10 0);
     l \<leftarrow> get_ws_frame_length temp_buffer;
     Some (i32 l)
   }"

definition use_pending ::
    "bytes \<Rightarrow> int \<Rightarrow> receiving_data_info \<Rightarrow> (unit + bytes \<times> int \<times> bytes list \<times> receiving_data_info) option" where
  "use_pending buffer len rd =
     (if rd_buffer rd = [] then Some (Inr (buffer, len, [], rd))
      else if rd_length rd = -1 \<and> u64 (int (length (rd_buffer rd)) + len) < 10 then Some (Inl ())
      else do {
        rd \<leftarrow> (if rd_length rd = -1
              then do { l \<leftarrow> header_length buffer len (rd_buffer rd); Some (rd\<lparr>rd_length := l\<rparr>) }
              else Some rd);
        let required_length = u64 (rd_length rd - int (length (rd_buffer rd)));
        if required_length < u64 len then do {
          part \<leftarrow> sub_bytes buffer 0 (nat required_length);
          rest \<leftarrow> remove_first_n_elements buffer len (i32 required_length);
          Some (Inr (rest, i32 (len - required_length), [rd_buffer rd @ part], new_receiving_data))
        } else if required_length = u64 len then do {
          part \<leftarrow> sub_bytes buffer 0 (nat len);
          Some (Inr (buffer, 0, [rd_buffer rd @ part], new_receiving_data))
        } else do {
          part \<leftarrow> sub_bytes buffer 0 (nat len);
          Some (Inr (buffer, 0, [], rd\<lparr>rd_buffer := rd_buffer rd @ part\<rparr>))
        }
      })"

definition keep_pending :: "bytes \<Rightarrow> int \<Rightarrow> receiving_data_info \<Rightarrow> receiving_data_info option" where
  "keep_pending buffer remaining_length rd =
     (if remaining_length > 0 then do {
        part \<leftarrow> sub_bytes buffer 0 (nat remaining_length);
        l \<leftarrow> (if remaining_length > 10
             then do { l \<leftarrow> get_ws_frame_length buffer; Some (i32 l) } else Some (-1));
        Some (rd\<lparr>rd_buffer := part, rd_length := l\<rparr>)
      } else Some rd)"

definition cut_frames ::
    "bytes \<Rightarrow> int \<Rightarrow> receiving_data_info \<Rightarrow> (unit + bytes list \<times> receiving_data_info) option option" where
  "cut_frames buffer len rd =
     (case use_pending buffer len rd of
        None \<Rightarrow> Some None
      | Some (Inl u) \<Rightarrow> Some (Some (Inl u))
      | Some (Inr (buffer, remaining_length, frames, rd)) \<Rightarrow>
          (case ws_frame_loop buffer remaining_length frames of
             None \<Rightarrow> None
           | Some None \<Rightarrow> Some None
           | Some (Some (buffer, remaining_length, frames)) \<Rightarrow>
               (case keep_pending buffer remaining_length rd of
                  None \<Rightarrow> Some None
                | Some rd \<Rightarrow> Some (Some (Inr (frames, rd))))))"

end
