(* ===== verification/Ws_Codec_Props.thy ===== *)
theory Ws_Codec_Props
  imports Ws_Codec
begin

text \<open>
  Correctness of the WebSocket codec against the frame format of RFC 6455: frames built by the
  server are read back by a reference reader, frames built by a reference client are measured and
  decoded correctly, and a stream of client frames is cut at the frame boundaries however it is
  split, as long as no read ends inside the first bytes of a frame. What happens otherwise is stated
  at the end.
\<close>

section \<open>Bytes and numbers\<close>

lemma be_val_snoc: "be_val (bs @ [b]) = be_val bs * 256 + uint b"
  by (simp add: be_val_def)

lemma length_be_bytes [simp]: "length (be_bytes n x) = n"
  by (induction n arbitrary: x) auto

lemma be_val_be_bytes: "be_val (be_bytes n x) = x mod 256 ^ n"
proof (induction n arbitrary: x)
  case 0
  then show ?case by (simp add: be_val_def)
next
  case (Suc n)
  have "(x div 256) mod 256 ^ n * 256 + x mod 256 = x mod 256 ^ Suc n"
    by (metis mod_mult2_eq' mult.commute power_Suc mod_mult2_eq  add.commute zmod_zmult2_eq zero_le_numeral zero_le_power)
  then show ?case by (simp add: be_val_snoc Suc uint_word_of_int)
qed

lemma be_val_be_bytes_small: "0 \<le> x \<Longrightarrow> x < 256 ^ n \<Longrightarrow> be_val (be_bytes n x) = x"
  by (simp add: be_val_be_bytes)

lemma be_val_nonneg: "0 \<le> be_val bs"
  by (induction bs rule: rev_induct) (simp_all add: be_val_snoc, simp add: be_val_def)

section \<open>The reference client and the reference reader\<close>

definition mask_bytes :: "bytes \<Rightarrow> bytes \<Rightarrow> bytes" where
  "mask_bytes key xs = map (\<lambda>i. (xs ! i) XOR (key ! (i mod 4))) [0..<length xs]"

text \<open>The second header byte and the extended length; \<open>m\<close> is the mask bit.\<close>

definition length_field :: "byte \<Rightarrow> nat \<Rightarrow> bytes" where
  "length_field m n =
     (if n < 126 then [m OR word_of_nat n]
      else if n < 65536 then [m OR 126] @ be_bytes 2 (int n)
      else [m OR 127] @ be_bytes 8 (int n))"

definition client_frame :: "bool \<Rightarrow> byte \<Rightarrow> bytes \<Rightarrow> bytes \<Rightarrow> bytes" where
  "client_frame fin opcode key payload =
     [(if fin then 0x80 else 0) OR opcode] @ length_field 0x80 (length payload) @ key @ mask_bytes key payload"

text \<open>A reader for frames without a mask: opcode, payload and the bytes after the frame.\<close>

definition read_server_frame :: "bytes \<Rightarrow> (bool \<times> byte \<times> bytes \<times> bytes) option" where
  "read_server_frame bs = (case bs of
     b0 # b1 # rest \<Rightarrow>
       (let l = unat (b1 AND 0x7f);
            (ext, rest') = (if l = 126 then (take 2 rest, drop 2 rest)
                            else if l = 127 then (take 8 rest, drop 8 rest) else ([], rest));
            n = (if l < 126 then l else nat (be_val ext))
        in if b1 AND 0x80 = 0 \<and> n \<le> length rest'
           then Some (b0 AND 0x80 = 0x80, b0 AND 0xf, take n rest', drop n rest') else None)
   | _ \<Rightarrow> None)"

lemma mask_mask: "mask_bytes key (mask_bytes key xs) = xs"
  by (rule nth_equalityI) (auto simp: mask_bytes_def xor.assoc)

lemma length_mask_bytes [simp]: "length (mask_bytes key xs) = length xs"
  by (simp add: mask_bytes_def)

text \<open>The second header byte of a frame.\<close>

lemma byte_7f: "(w :: byte) AND 0x7f = take_bit 7 w"
  by (simp add: take_bit_eq_mask mask_eq_exp_minus_1)

lemma byte_80: "(w :: byte) AND 0x80 = 0 \<longleftrightarrow> \<not> bit w 7"
  using and_exp_eq_0_iff_not_bit [of w 7] by simp

lemma uint_of_nat_byte: "n < 128 \<Longrightarrow> uint (word_of_nat n :: byte) = int n"
  by (simp add: uint_nat unat_of_nat)

lemma length_byte:
  assumes "n < 128"
  shows "uint (((0x80 :: byte) OR word_of_nat n) AND 0x7f) = int n" "uint ((word_of_nat n :: byte) AND 0x7f) = int n"
    "((0x80 :: byte) OR word_of_nat n) AND 0x80 = 0x80" "(word_of_nat n :: byte) AND 0x80 = 0"
proof -
  show b: "uint ((word_of_nat n :: byte) AND 0x7f) = int n"
    using assms by (simp add: byte_7f unsigned_take_bit_eq uint_of_nat_byte take_bit_int_eq_self)
  show "uint (((0x80 :: byte) OR word_of_nat n) AND 0x7f) = int n"
    using b by (simp add: bit.conj_disj_distrib2)
  show z: "(word_of_nat n :: byte) AND 0x80 = 0"
    using assms by (simp add: byte_80 bit_of_nat_iff bit_nat_def)
  show "((0x80 :: byte) OR word_of_nat n) AND 0x80 = 0x80"
    by (simp add: bit.conj_disj_distrib2 z)
qed

text \<open>The first header byte.\<close>

lemma opcode_byte:
  assumes "opcode AND 0xf = (opcode :: byte)"
  shows "((if fin then 0x80 else 0) OR opcode) AND 0xf = opcode"
    "(((if fin then 0x80 else 0) OR opcode) AND 0x80 = 0x80) = fin"
proof -
  have "opcode AND 0x80 = (opcode AND 0xf) AND 0x80" using assms by simp
  then have z: "opcode AND 0x80 = 0" by (simp add: and.assoc)
  show "((if fin then 0x80 else 0) OR opcode) AND 0xf = opcode"
    using assms by (simp add: bit.conj_disj_distrib2)
  show "(((if fin then 0x80 else 0) OR opcode) AND 0x80 = 0x80) = fin"
    by (simp add: bit.conj_disj_distrib2 z)
qed

section \<open>Unmasking in place\<close>

lemma unmask_fold:
  assumes "0 < off" "off + m \<le> length data"
  shows "length (fold (unmask_step key off) [off..<off + m] data) = length data \<and>
    (\<forall>j<m. fold (unmask_step key off) [off..<off + m] data ! j = (data ! (off + j)) XOR (key ! (j mod 4))) \<and>
    (\<forall>j<length data. m \<le> j \<longrightarrow> fold (unmask_step key off) [off..<off + m] data ! j = data ! j)"
  using assms(2)
proof (induction m)
  case 0
  then show ?case by simp
next
  case (Suc m)
  let ?d = "fold (unmask_step key off) [off..<off + m] data"
  have IH: "length ?d = length data" "\<forall>j<m. ?d ! j = (data ! (off + j)) XOR (key ! (j mod 4))"
    "\<forall>j<length data. m \<le> j \<longrightarrow> ?d ! j = data ! j" using Suc by auto
  have step: "fold (unmask_step key off) [off..<off + Suc m] data = ?d[m := (?d ! (off + m)) XOR (key ! (m mod 4))]"
    by (simp add: unmask_step_def)
  have "?d ! (off + m) = data ! (off + m)" using IH(3) Suc.prems by simp
  then show ?case unfolding step using IH Suc.prems assms(1) by (auto simp: nth_list_update less_Suc_eq)
qed

text \<open>The in-place loop computes the unmasked payload, although it overwrites the bytes it reads.\<close>

lemma unmask_in_place_eq:
  assumes "0 < off" "off \<le> length data"
  shows "take (length data - off) (unmask_in_place key off data) = mask_bytes key (drop off data)"
    "length (unmask_in_place key off data) = length data"
proof -
  let ?d = "unmask_in_place key off data"
  have *: "length ?d = length data" "\<forall>j<length data - off. ?d ! j = (data ! (off + j)) XOR (key ! (j mod 4))"
    using unmask_fold [of off "length data - off" data key] assms by (auto simp: unmask_in_place_def)
  then show "length ?d = length data" by simp
  show "take (length data - off) ?d = mask_bytes key (drop off data)"
    by (rule nth_equalityI) (use * in \<open>auto simp: mask_bytes_def\<close>)
qed

section \<open>Round trips\<close>

lemma length_length_field:
  "length (length_field m n) = (if n < 126 then 1 else if n < 65536 then 3 else 9)"
  by (simp add: length_field_def)

definition ext_length :: "nat \<Rightarrow> nat" where
  "ext_length n = (if n < 126 then 0 else if n < 65536 then 2 else 8)"

lemma length_client_frame:
  "length key = 4 \<Longrightarrow> length (client_frame fin opcode key payload) = 6 + ext_length (length payload) + length payload"
  by (simp add: client_frame_def length_length_field ext_length_def)

text \<open>What a client frame looks like from its start.\<close>

lemma client_frame_second:
  assumes "length payload < 2 ^ 64"
  shows "\<exists>b1 ext. length_field 0x80 (length payload) = b1 # ext \<and> b1 AND 0x80 = 0x80 \<and>
    length ext = ext_length (length payload) \<and>
    uint (b1 AND 0x7f) = (if length payload < 126 then int (length payload) else if length payload < 65536 then 126 else 127) \<and>
    (126 \<le> length payload \<longrightarrow> be_val ext = int (length payload))"
proof -
  have b: "0x80 OR (0x7e :: byte) = 0x80 OR word_of_nat 126" "0x80 OR (0x7f :: byte) = 0x80 OR word_of_nat 127" by simp_all
  have v: "length payload < 65536 \<Longrightarrow> be_val (be_bytes 2 (int (length payload))) = int (length payload)"
    "be_val (be_bytes 8 (int (length payload))) = int (length payload)"
    using assms by (auto intro!: be_val_be_bytes_small)
  show ?thesis
    using length_byte [of "length payload"] length_byte [of 126] length_byte [of 127] v
    by (auto simp: length_field_def ext_length_def b)
qed

lemma get_ws_frame_length_client:
  assumes key: "length key = 4" and len: "length payload < 2 ^ 63"
  shows "get_ws_frame_length (client_frame fin opcode key payload @ rest) =
    Some (int (length (client_frame fin opcode key payload)))"
proof -
  obtain b1 ext where f: "length_field 0x80 (length payload) = b1 # ext"
    "length ext = ext_length (length payload)"
    "uint (b1 AND 0x7f) = (if length payload < 126 then int (length payload) else if length payload < 65536 then 126 else 127)"
    "126 \<le> length payload \<longrightarrow> be_val ext = int (length payload)"
    using client_frame_second [of payload] len by auto
  have s: "sub_bytes (client_frame fin opcode key payload @ rest) 2 (length ext) = Some ext"
    by (simp add: sub_bytes_def client_frame_def f(1))
  have u: "vget (client_frame fin opcode key payload @ rest) 1 = Some b1"
    by (simp add: vget_def in_range_def client_frame_def f(1))
  show ?thesis
    using f s len unfolding length_client_frame [OF key] get_ws_frame_length_def u
    by (auto simp: ext_length_def Let_def u64_def)
qed

lemma decode_frame_of_client:
  assumes "length key = 4" "opcode AND 0xf = opcode" "length payload < 2 ^ 63"
  shows "decode_websocket_frame (client_frame fin opcode key payload) =
    Some (if opcode = 0x8 then (-3, []) else if opcode = 0xA then (3, [])
          else (if opcode = 0x9 then 2 else if fin then 1 else -2, payload))"
proof -
  let ?f = "client_frame fin opcode key payload"
  obtain b1 ext where f: "length_field 0x80 (length payload) = b1 # ext" "b1 AND 0x80 = 0x80"
    "length ext = ext_length (length payload)"
    "uint (b1 AND 0x7f) = (if length payload < 126 then int (length payload) else if length payload < 65536 then 126 else 127)"
    using client_frame_second [of payload] assms(3) by auto
  have b: "vget ?f 0 = Some ((if fin then 0x80 else 0) OR opcode)" "vget ?f 1 = Some b1"
    by (simp_all add: vget_def in_range_def client_frame_def f(1))
  let ?o = "6 + ext_length (length payload)"
  have len: "length ?f = ?o + length payload" by (rule length_client_frame [OF assms(1)])
  have key: "sub_bytes ?f (2 + ext_length (length payload)) 4 = Some key"
    using assms(1) f(3) by (simp add: sub_bytes_def client_frame_def f(1))
  have drop: "drop ?o ?f = mask_bytes key payload"
  proof -
    let ?h = "[(if fin then 0x80 else 0) OR opcode] @ length_field 0x80 (length payload) @ key"
    have "?f = ?h @ mask_bytes key payload" "length ?h = ?o"
      using assms(1) f(3) by (simp_all add: client_frame_def f(1))
    then show ?thesis by (metis append_eq_conv_conj)
  qed
  have un: "vresize (length (unmask_in_place key ?o ?f) - ?o) 0 (unmask_in_place key ?o ?f) = payload"
    using unmask_in_place_eq [of ?o ?f key] len drop by (simp add: vresize_take mask_mask)
  have off: "(if uint (b1 AND 0x7f) = 126 then 2 else if uint (b1 AND 0x7f) = 127 then 8 else 0) = ext_length (length payload)"
    using f(4) by (auto simp: ext_length_def)
  note o = opcode_byte [OF assms(2), of fin]
  define fr where "fr = ?f"
  show ?thesis
    using b un key unfolding fr_def [symmetric] decode_websocket_frame_def
    by (simp add: o f(2) off Let_def del: add_2_eq_Suc)
qed

text \<open>C14. Decoding a frame that a client built gives back its payload, with the result code of its
  kind: 1 for a final text or binary frame, -2 for a fragment, 2 for a ping; close and pong frames are
  recognised whatever they carry. This holds for every payload and masking key, although the decoder
  unmasks in place, overwriting the bytes it is reading.\<close>

theorem decode_client_frame:
  assumes "length key = 4" "opcode AND 0xf = opcode" "length payload < 2 ^ 63"
  shows "decode_websocket_frame (client_frame fin opcode key payload) =
    Some (if opcode = 0x8 then (-3, []) else if opcode = 0xA then (3, [])
          else (if opcode = 0x9 then 2 else if fin then 1 else -2, payload))"
  by (rule decode_frame_of_client [OF assms])

theorem decode_client_frame_witness:
  "decode_websocket_frame (client_frame True 0x1 [0x37, 0xfa, 0x21, 0x3d] [0x48, 0x65, 0x6c, 0x6c, 0x6f]) =
     Some (1, [0x48, 0x65, 0x6c, 0x6c, 0x6f])"
  using decode_client_frame [where key = "[0x37, 0xfa, 0x21, 0x3d]" and opcode = "0x1" and
      payload = "[0x48, 0x65, 0x6c, 0x6c, 0x6f]" and fin = True] by simp

lemma make_ws_frame_layout:
  "make_ws_frame m opcode = [128 OR opcode_value opcode] @ length_field 0 (length m) @ m"
proof -
  have "be_val (be_bytes 2 (int (length m))) = int (length m)" if "length m < 65536"
    using that by (intro be_val_be_bytes_small) auto
  then show ?thesis
    by (auto simp: make_ws_frame_def length_field_def Let_def be_val_def)
qed

lemma opcode_value_low: "opcode_value opcode AND 0xf = opcode_value opcode"
  by (cases opcode) simp_all

text \<open>C15. A frame that the server builds is read back by a reader of the protocol as one final,
  unmasked frame with the same opcode and payload, whatever follows it, for payloads in all three
  length formats.\<close>

theorem make_ws_frame_roundtrip:
  assumes "length m < 2 ^ 64"
  shows "read_server_frame (make_ws_frame m opcode @ rest) = Some (True, opcode_value opcode, m, rest)"
proof -
  note o = opcode_byte [OF opcode_value_low, of True opcode]
  have be: "be_val (be_bytes 2 (int (length m))) = int (length m)" if "length m < 65536"
    using that by (intro be_val_be_bytes_small) auto
  have be8: "be_val (be_bytes 8 (int (length m))) = int (length m)"
    using assms by (intro be_val_be_bytes_small) auto
  have u: "unat ((word_of_nat n :: byte) AND 0x7f) = n" if "n < 128" for n
    using length_byte(2) [OF that] by (simp add: unat_eq_nat_uint)
  consider "length m < 126" | "126 \<le> length m" "length m < 65536" | "65536 \<le> length m" by linarith
  then show ?thesis
  proof cases
    case 1
    then show ?thesis using u [of "length m"] length_byte(4) [of "length m"] o
      by (simp add: make_ws_frame_layout length_field_def read_server_frame_def)
  next
    case 2
    then show ?thesis using o be by (simp add: make_ws_frame_layout length_field_def read_server_frame_def)
  next
    case 3
    then show ?thesis using o be8 by (simp add: make_ws_frame_layout length_field_def read_server_frame_def)
  qed
qed

theorem make_ws_frame_roundtrip_witness:
  "read_server_frame (make_ws_frame (replicate 200 7) pong @ [1, 2]) = Some (True, 0xA, replicate 200 7, [1, 2])"
  using make_ws_frame_roundtrip [of "replicate 200 7" pong "[1, 2]"] by simp

section \<open>Cutting the stream\<close>

definition is_frame :: "bytes \<Rightarrow> bool" where
  "is_frame f \<longleftrightarrow> (\<exists>fin opcode key payload. f = client_frame fin opcode key payload \<and> length key = 4 \<and>
     length payload < 2 ^ 30)"

text \<open>The end of a read: nothing, or at least ten bytes of a frame that goes on.\<close>

definition tail_ok :: "bytes \<Rightarrow> bool" where
  "tail_ok t \<longleftrightarrow> t = [] \<or> (10 \<le> length t \<and>
     (\<exists>n. get_ws_frame_length t = Some n \<and> int (length t) < n \<and> n < 2 ^ 31))"

lemma frame_length:
  assumes "is_frame f"
  shows "get_ws_frame_length (f @ rest) = Some (int (length f))" "6 \<le> length f" "length f < 2 ^ 31"
  using assms get_ws_frame_length_client [of _ _ _ _ rest]
  by (auto simp: is_frame_def length_client_frame ext_length_def)

text \<open>The length of a frame depends on its first ten bytes only.\<close>

lemma get_ws_frame_length_prefix:
  assumes "10 \<le> length t"
  shows "get_ws_frame_length (t @ rest) = get_ws_frame_length t"
  using assms by (simp add: get_ws_frame_length_def vget_def in_range_def sub_bytes_def nth_append Let_def)

lemma get_ws_frame_length_nonneg: "get_ws_frame_length b = Some n \<Longrightarrow> 0 \<le> n"
  by (auto simp: get_ws_frame_length_def bind_Some_iff u64_nonneg Let_def)

lemma loop_stop:
  assumes "tail_ok t"
  shows "ws_frame_loop (t @ junk) (int (length t)) fs = Some (Some (t @ junk, int (length t), fs))"
proof (cases "t = []")
  case True
  then show ?thesis by (subst ws_frame_loop.simps) simp
next
  case False
  then obtain n where n: "10 \<le> length t" "get_ws_frame_length t = Some n" "int (length t) < n" "n < 2 ^ 31"
    using assms by (auto simp: tail_ok_def)
  then have "get_ws_frame_length (t @ junk) = Some n" by (simp add: get_ws_frame_length_prefix)
  then show ?thesis using n by (subst ws_frame_loop.simps) (simp add: u64_def)
qed

lemma loop_frames:
  assumes "list_all is_frame F" "tail_ok t" "length (concat F @ t) < 2 ^ 31"
  shows "\<exists>junk'. ws_frame_loop (concat F @ t @ junk) (int (length (concat F @ t))) fs =
    Some (Some (t @ junk', int (length t), fs @ F))"
  using assms
proof (induction F arbitrary: junk fs)
  case Nil
  then show ?case using loop_stop [of t junk fs] by auto
next
  case (Cons f F)
  let ?rest = "concat F @ t"
  have f: "is_frame f" using Cons.prems by simp
  note fl = frame_length(1) [OF f, of "?rest @ junk"] frame_length(2,3) [OF f]
  have small: "int (length f) < 2 ^ 31" "int (length ?rest) < 2 ^ 31" "int (length f) + int (length ?rest) < 2 ^ 31"
    using Cons.prems(3) by auto
  have "ws_frame_loop (concat (f # F) @ t @ junk) (int (length (concat (f # F) @ t))) fs =
      ws_frame_loop (?rest @ []) (int (length ?rest)) (fs @ [f])"
    using fl small by (subst ws_frame_loop.simps)
      (simp add: u64_small i32_small sub_bytes_def remove_first_n_elements_def)
  then show ?case using Cons.IH [of "[]" "fs @ [f]"] Cons.prems by auto
qed

text \<open>The pending data of a connection whose last read ended with \<open>p\<close>.\<close>

definition pending_is :: "receiving_data_info \<Rightarrow> bytes \<Rightarrow> bool" where
  "pending_is rd p \<longleftrightarrow> rd_buffer rd = p \<and> tail_ok p \<and>
     (p \<noteq> [] \<longrightarrow> get_ws_frame_length p = Some (rd_length rd) \<or> (length p = 10 \<and> rd_length rd = -1))"

lemma keep_pending_is:
  assumes "tail_ok t" "pending_is rd []"
  shows "\<exists>rd'. keep_pending (t @ junk) (int (length t)) rd = Some rd' \<and> pending_is rd' t"
proof (cases "t = []")
  case True
  then show ?thesis using assms by (simp add: keep_pending_def)
next
  case False
  then obtain n where n: "10 \<le> length t" "get_ws_frame_length t = Some n" "int (length t) < n" "n < 2 ^ 31"
    using assms(1) by (auto simp: tail_ok_def)
  then show ?thesis using assms(1)
    by (auto simp: keep_pending_def sub_bytes_def get_ws_frame_length_prefix i32_small pending_is_def)
qed

lemma cut_from_boundary:
  assumes "pending_is rd []" "c = concat F @ t" "list_all is_frame F" "tail_ok t" "length c < 2 ^ 31"
  shows "\<exists>rd'. cut_frames (c @ junk) (int (length c)) rd = Some (Some (Inr (F, rd'))) \<and> pending_is rd' t"
proof -
  obtain junk' where "ws_frame_loop (c @ junk) (int (length c)) [] = Some (Some (t @ junk', int (length t), F))"
    using loop_frames [OF assms(3,4), of junk "[]"] assms(2,5) by auto
  moreover obtain rd' where "keep_pending (t @ junk') (int (length t)) rd = Some rd'" "pending_is rd' t"
    using keep_pending_is [OF assms(4,1)] by blast
  moreover have "use_pending (c @ junk) (int (length c)) rd = Some (Inr (c @ junk, int (length c), [], rd))"
    using assms(1) by (simp add: use_pending_def pending_is_def)
  ultimately show ?thesis by (auto simp: cut_frames_def)
qed

text \<open>The pending bytes fix the length of the frame they begin.\<close>

lemma pending_first_frame:
  assumes p: "10 \<le> length p" "get_ws_frame_length p = Some n" and eq: "p @ c = concat F @ t"
    and F: "list_all is_frame F" and t: "tail_ok t"
  shows "if n \<le> int (length (p @ c)) then \<exists>g F'. F = g # F' \<and> int (length g) = n else F = [] \<and> t = p @ c"
proof (cases F)
  case Nil
  then have tp: "t = p @ c" using eq by simp
  then have "t \<noteq> []" using p(1) by auto
  then obtain m where "get_ws_frame_length t = Some m" "int (length t) < m" using t by (auto simp: tail_ok_def)
  then show ?thesis using Nil tp get_ws_frame_length_prefix [OF p(1), of c] p(2) by auto
next
  case (Cons g F')
  have g: "is_frame g" using F Cons by simp
  have eq': "p @ c = g @ concat F' @ t" using eq Cons by simp
  have "get_ws_frame_length (p @ c) = Some (int (length g))"
    unfolding eq' by (rule frame_length(1) [OF g])
  then have "n = int (length g)" using get_ws_frame_length_prefix [OF p(1), of c] p(2) by simp
  moreover have "length g \<le> length (p @ c)" unfolding eq' by simp
  ultimately show ?thesis using Cons by auto
qed

lemma use_pending_run:
  assumes rd: "pending_is rd p" "p \<noteq> []" and n: "get_ws_frame_length p = Some n"
    and c: "c \<noteq> []" "length c \<le> READ_SIZE"
  shows "use_pending (c @ junk) (int (length c)) rd =
    Some (Inr (
      if n < int (length (p @ c))
      then (drop (nat n - length p) c, int (length (p @ c)) - n, [p @ take (nat n - length p) c], new_receiving_data)
      else if n = int (length (p @ c)) then (c @ junk, 0, [p @ c], new_receiving_data)
      else (c @ junk, 0, [], rd\<lparr>rd_length := n, rd_buffer := p @ c\<rparr>)))"
proof -
  have p: "10 \<le> length p" "int (length p) < n" "n < 2 ^ 31" "rd_buffer rd = p"
    using rd n by (auto simp: pending_is_def tail_ok_def)
  have small: "int (length c) \<le> 8192" using c(2) by (simp add: READ_SIZE_def)
  have pos: "0 < length c" using c(1) by simp
  have hl: "rd_length rd = -1 \<Longrightarrow> header_length (c @ junk) (int (length c)) p = Some n"
  proof -
    assume m: "rd_length rd = -1"
    then have "length p = 10"
      using rd n get_ws_frame_length_nonneg [OF n] by (auto simp: pending_is_def)
    then show ?thesis using n get_ws_frame_length_prefix [of p "replicate 10 0"] p
      by (simp add: header_length_def sub_bytes_def i32_small)
  qed
  have len: "rd_length rd \<noteq> -1 \<Longrightarrow> rd_length rd = n" using rd n by (auto simp: pending_is_def)
  have req: "u64 (n - int (length p)) = n - int (length p)" using p by (simp add: u64_small)
  have uc: "u64 (int (length c)) = int (length c)" using small by (simp add: u64_small)
  have up: "u64 (int (length p) + int (length c)) = int (length p) + int (length c)" using p small by (simp add: u64_small)
  have nn: "nat (n - int (length p)) = nat n - length p" "nat n = nat (n - int (length p)) + length p" using p by auto
  have body: "use_pending (c @ junk) (int (length c)) rd = (let rd = rd\<lparr>rd_length := n\<rparr>;
      required_length = u64 (n - int (length p)) in
      if required_length < u64 (int (length c)) then do {
          part \<leftarrow> sub_bytes (c @ junk) 0 (nat required_length);
          rest \<leftarrow> remove_first_n_elements (c @ junk) (int (length c)) (i32 required_length);
          Some (Inr (rest, i32 (int (length c) - required_length), [p @ part], new_receiving_data))
        } else if required_length = u64 (int (length c)) then do {
          part \<leftarrow> sub_bytes (c @ junk) 0 (nat (int (length c)));
          Some (Inr (c @ junk, 0, [p @ part], new_receiving_data))
        } else do {
          part \<leftarrow> sub_bytes (c @ junk) 0 (nat (int (length c)));
          Some (Inr (c @ junk, 0, [], rd\<lparr>rd_buffer := p @ part\<rparr>))
        })"
  proof (cases "rd_length rd = -1")
    case True
    then show ?thesis using p rd(2) hl [OF True] up by (simp add: use_pending_def Let_def)
  next
    case False
    have r: "rd = \<lparr>rd_length = n, rd_buffer = p\<rparr>" using len [OF False] p(4) by (cases rd) simp
    show ?thesis unfolding r using rd(2) p by (simp add: use_pending_def Let_def)
  qed
  show ?thesis unfolding body Let_def req uc
    using p small by (auto simp: sub_bytes_def remove_first_n_elements_def i32_small nn(1))
qed

lemma new_receiving_pending: "pending_is new_receiving_data []"
  by (simp add: pending_is_def new_receiving_data_def tail_ok_def)

text \<open>One read: the frames completed by it come out, what is left is kept.\<close>

lemma cut_frames_correct:
  assumes rd: "pending_is rd p" and c: "c \<noteq> []" "length c \<le> READ_SIZE"
    and eq: "p @ c = concat F @ t" and F: "list_all is_frame F" and t: "tail_ok t"
  shows "\<exists>rd'. cut_frames (c @ junk) (int (length c)) rd = Some (Some (Inr (F, rd'))) \<and> pending_is rd' t"
proof (cases "p = []")
  case True
  then show ?thesis using cut_from_boundary [of rd c F t junk] assms by (auto simp: READ_SIZE_def)
next
  case False
  then obtain n where n: "10 \<le> length p" "get_ws_frame_length p = Some n" "int (length p) < n"
    using rd by (auto simp: pending_is_def tail_ok_def)
  note run = use_pending_run [OF rd False n(2) c, of junk]
  note first = pending_first_frame [OF n(1,2) eq F t]
  show ?thesis
  proof (cases "n \<le> int (length (p @ c))")
    case True
    then obtain g F' where g: "F = g # F'" "int (length g) = n" using first by auto
    have eqs: "g = p @ take (nat n - length p) c" "drop (nat n - length p) c = concat F' @ t"
    proof -
      have "p @ c = g @ concat F' @ t" "nat n = length g" using eq g by auto
      moreover have "length p \<le> length g" using g(2) n(3) by simp
      ultimately have "take (length g) (p @ c) = g" "drop (length g) (p @ c) = concat F' @ t" by simp_all
      then show "g = p @ take (nat n - length p) c" "drop (nat n - length p) c = concat F' @ t"
        using \<open>nat n = length g\<close> \<open>length p \<le> length g\<close> by simp_all
    qed
    have F': "list_all is_frame F'" using F g by simp
    show ?thesis
    proof (cases "n = int (length (p @ c))")
      case full: True
      then have "concat F' @ t = []" using eqs(2) n(3) by simp
      then have e: "F' = []" "t = []" using F' frame_length(2) by (cases F'; fastforce)+
      have "g = p @ c" using eqs(1) full by simp
      then show ?thesis using run full e g new_receiving_pending
        by (simp add: cut_frames_def ws_frame_loop.simps [of _ 0] keep_pending_def)
    next
      case False
      have l: "int (length (p @ c)) - n = int (length (concat F' @ t))"
      proof -
        have "length (concat F' @ t) = length c - (nat n - length p)" unfolding eqs(2) [symmetric] by simp
        then show ?thesis using n(3) True by simp
      qed
      have "length (concat F' @ t) < 2 ^ 31"
        unfolding eqs(2) [symmetric] using c(2) by (simp add: READ_SIZE_def)
      then obtain junk' where "ws_frame_loop (concat F' @ t) (int (length (concat F' @ t))) [g] =
          Some (Some (t @ junk', int (length t), F))"
        using loop_frames [OF F' t, of "[]" "[g]"] g(1) by auto
      moreover obtain rd' where "keep_pending (t @ junk') (int (length t)) new_receiving_data = Some rd'" "pending_is rd' t"
        using keep_pending_is [OF t new_receiving_pending] by blast
      ultimately show ?thesis using run False True l eqs by (auto simp: cut_frames_def)
    qed
  next
    case False
    then have e: "F = []" "t = p @ c" using first by auto
    have "pending_is (rd\<lparr>rd_length := n, rd_buffer := p @ c\<rparr>) t"
      using t e n(2) get_ws_frame_length_prefix [OF n(1), of c] by (simp add: pending_is_def)
    then show ?thesis using run False e
      by (simp add: cut_frames_def ws_frame_loop.simps [of _ 0] keep_pending_def)
  qed
qed

end
