(* ===== verification/Ws_Stream.thy ===== *)
theory Ws_Stream
  imports Ws_Codec_Props
begin

text \<open>
  The byte stream of a WebSocket connection: reassembly of frames from a sequence of reads, and the
  two inputs that break it, a header split over two reads and a length field close to \<open>2^64\<close>.
\<close>

section \<open>Reassembly\<close>

text \<open>
  A read is the bytes received together with whatever the rest of the read buffer holds.
  \<open>cut_run\<close> passes a sequence of reads to \<open>cut_frames\<close> and collects the frames; it stops
  when the code gives up on the connection.
\<close>

fun cut_run :: "receiving_data_info \<Rightarrow> (bytes \<times> bytes) list \<Rightarrow> (bytes list \<times> receiving_data_info) option option" where
  "cut_run rd [] = Some (Some ([], rd))"
| "cut_run rd ((c, junk) # cs) =
     (case cut_frames (c @ junk) (int (length c)) rd of
        None \<Rightarrow> None
      | Some None \<Rightarrow> Some None
      | Some (Some (Inl _)) \<Rightarrow> Some (Some ([], rd))
      | Some (Some (Inr (F, rd'))) \<Rightarrow>
          (case cut_run rd' cs of
             Some (Some (Fs, rd'')) \<Rightarrow> Some (Some (F @ Fs, rd''))
           | r \<Rightarrow> r))"

text \<open>
  \<open>reads_of p cs Fs\<close>: after pending bytes \<open>p\<close> the reads \<open>cs\<close> carry exactly the frames
  \<open>Fs\<close>, and no read ends within the first nine bytes of a frame.
\<close>

inductive reads_of :: "bytes \<Rightarrow> (bytes \<times> bytes) list \<Rightarrow> bytes list \<Rightarrow> bool" where
  end_of_stream: "reads_of [] [] []"
| next_read: "p @ c = concat F @ t \<Longrightarrow> list_all is_frame F \<Longrightarrow> tail_ok t \<Longrightarrow> c \<noteq> [] \<Longrightarrow> length c \<le> READ_SIZE \<Longrightarrow>
     reads_of t cs Fs \<Longrightarrow> reads_of p ((c, junk) # cs) (F @ Fs)"

lemma reads_of_concat: "reads_of p cs Fs \<Longrightarrow> p @ concat (map fst cs) = concat Fs"
proof (induction rule: reads_of.induct)
  case (next_read p c F t cs Fs junk)
  have "p @ concat (map fst ((c, junk) # cs)) = (p @ c) @ concat (map fst cs)" by simp
  also have "\<dots> = concat F @ t @ concat (map fst cs)" by (simp add: next_read.hyps(1))
  finally show ?case using next_read.IH by simp
qed simp

lemma cut_run_correct:
  "reads_of p cs Fs \<Longrightarrow> pending_is rd p \<Longrightarrow>
     \<exists>rd'. cut_run rd cs = Some (Some (Fs, rd')) \<and> pending_is rd' []"
proof (induction arbitrary: rd rule: reads_of.induct)
  case end_of_stream
  then show ?case by simp
next
  case (next_read p c F t cs Fs junk)
  obtain rd' where 1: "cut_frames (c @ junk) (int (length c)) rd = Some (Some (Inr (F, rd')))" "pending_is rd' t"
    using cut_frames_correct [OF next_read.prems next_read.hyps(4,5,1,2,3), of junk] by blast
  obtain rd'' where "cut_run rd' cs = Some (Some (Fs, rd''))" "pending_is rd'' []"
    using next_read.IH [OF 1(2)] by blast
  then show ?case using 1(1) by simp
qed

text \<open>C13. Reassembly: when a stream of client frames arrives in any sequence of reads, each of at
  most \<open>READ_SIZE\<close> bytes and none ending within the first nine bytes of a frame, the server
  cuts out exactly the frames the client sent, in order and complete, whatever the unused part of the
  read buffers holds; every call returns, and nothing is pending at the end.\<close>

theorem stream_reassembled:
  assumes "reads_of [] cs Fs"
  shows "\<exists>rd'. cut_run new_receiving_data cs = Some (Some (Fs, rd')) \<and> rd_buffer rd' = [] \<and>
    concat (map fst cs) = concat Fs"
  using cut_run_correct [OF assms new_receiving_pending] reads_of_concat [OF assms]
  by (auto simp: pending_is_def)

definition hello :: bytes where
  "hello = client_frame True 0x1 [0x37, 0xfa, 0x21, 0x3d] [0x48, 0x65, 0x6c, 0x6c, 0x6f]"

lemma hello_bytes: "hello = [0x81, 0x85, 0x37, 0xfa, 0x21, 0x3d, 0x7f, 0x9f, 0x4d, 0x51, 0x58]"
  by (simp add: hello_def client_frame_def length_field_def mask_bytes_def upt_rec)

lemma hello_frame: "is_frame hello"
  unfolding is_frame_def hello_def
  by (intro exI conjI) (rule refl, simp_all)

theorem stream_reassembled_witness:
  "\<exists>rd'. cut_run new_receiving_data [(hello @ take 10 hello, [1, 2]), (drop 10 hello @ hello, [])] =
     Some (Some ([hello, hello, hello], rd')) \<and> rd_buffer rd' = []"
proof -
  have t: "tail_ok (take 10 hello)"
    by (simp add: tail_ok_def hello_bytes get_ws_frame_length_def vget_def in_range_def u64_def)
  have 2: "reads_of (take 10 hello) [(drop 10 hello @ hello, [])] ([hello, hello] @ [])"
    by (rule reads_of.next_read [where t = "[]"])
      (use hello_frame in \<open>simp_all add: tail_ok_def hello_bytes READ_SIZE_def reads_of.end_of_stream\<close>)
  have "reads_of [] [(hello @ take 10 hello, [1, 2]), (drop 10 hello @ hello, [])] ([hello] @ [hello, hello])"
    by (rule reads_of.next_read [where t = "take 10 hello"])
      (use hello_frame t 2 in \<open>simp_all add: hello_bytes READ_SIZE_def\<close>)
  from stream_reassembled [OF this] show ?thesis by simp
qed

section \<open>Inputs that break it\<close>

lemmas cut_eval = cut_frames_def use_pending_def new_receiving_data_def ws_frame_loop.simps
  get_ws_frame_length_def vget_def in_range_def sub_bytes_def u64_def i32_def keep_pending_def
  header_length_def remove_first_n_elements_def be_val_def Let_def


text \<open>A frame that claims a payload of \<open>2^64 - 14\<close> bytes has length 0 after the additions
  wrap around, and the loop takes it off the buffer again and again.\<close>

lemma loop_forever:
  assumes "get_ws_frame_length (take (nat len) buffer) = Some 0" "10 \<le> len" "len < 2 ^ 31" "nat len \<le> length buffer"
  shows "ws_frame_loop buffer len frames = None"
proof -
  define bad where "bad = (\<lambda>len buffer. get_ws_frame_length (take (nat len) buffer) = Some 0 \<and>
    10 \<le> len \<and> len < 2 ^ 31 \<and> nat len \<le> length buffer)"
  have never: "\<not> bad len buffer" if h: "ws_frame_loop buffer len frames = Some y" for y
  proof (rule ws_frame_loop.raw_induct [where P = "\<lambda>buffer len frames y. \<not> bad len buffer", OF _ h], goal_cases)
    case (1 loop buffer len frames y)
    show ?case
    proof
      assume a: "bad len buffer"
      then have "10 \<le> nat len" unfolding bad_def by linarith
      then have "get_ws_frame_length buffer = Some 0" using a
          get_ws_frame_length_prefix [of "take (nat len) buffer" "drop (nat len) buffer"] by (simp add: bad_def)
      then have "loop (take (nat len) buffer) len (frames @ [[]]) = Some y"
      proof -
        have "i32 0 = 0" "i32 len = len" "len \<le> int (length buffer)" "u64 len = len" "5 < len" "0 \<le> len"
          using a by (auto simp: bad_def i32_small u64_small)
        then show ?thesis using 1(2) \<open>get_ws_frame_length buffer = Some 0\<close>
          by (simp add: sub_bytes_def remove_first_n_elements_def)
      qed
      from 1(1) [OF this] a show False by (simp add: bad_def)
    qed
  qed
  show ?thesis using never assms by (cases "ws_frame_loop buffer len frames") (auto simp: bad_def)
qed

text \<open>C21. A client can stop a server thread with ten bytes: a frame header announcing
  \<open>2^64 - 14\<close> bytes of payload makes the call that cuts the frames run for ever, adding an empty
  frame in every round.\<close>

theorem huge_length_never_returns:
  assumes "rd_buffer rd = []" "length header = 10" "uint (header ! 1 AND 0x7f) = 127"
    "be_val (drop 2 header) = 2 ^ 64 - 14"
  shows "cut_frames (header @ junk) 10 rd = None"
proof -
  have "get_ws_frame_length (header @ junk') = Some 0" for junk'
    using assms by (simp add: get_ws_frame_length_def vget_def in_range_def sub_bytes_def nth_append u64_def)
  from this [of "[]"] have "ws_frame_loop (header @ junk) 10 [] = None"
    by (intro loop_forever) (simp_all add: assms(2))
  then show ?thesis using assms(1) by (simp add: cut_frames_def use_pending_def)
qed

theorem huge_length_never_returns_witness:
  "cut_frames ([0x82, 0xff, 0xff, 0xff, 0xff, 0xff, 0xff, 0xff, 0xff, 0xf2] @ replicate 8182 0) 10 new_receiving_data = None"
  by (rule huge_length_never_returns) (simp_all add: new_receiving_data_def be_val_def)

end
