(* ===== verification/Tls_Server.thy ===== *)
theory Tls_Server
  imports Tcp_Plain
begin

text \<open>
  The TLS server, \<open>server<server_type::TLS>\<close> of \<open>tcp_server/server_tls.cpp\<close> with its
  templates in \<open>header/server.h\<close>, and the two I/O callbacks that it registers with wolfSSL,
  \<open>tcp_server/wolfssl_callbacks.cpp\<close>.

  wolfSSL is a library of its own and enters as a parameter, a record of type \<open>wolfssl\<close>. A call
  into the library is a \<open>wolf_call\<close>: it returns, or it calls the send or the receive callback and
  goes on with what the callback returned. \<open>run_wolf\<close> runs such a call with the callbacks of the
  server, so that every way in which the library can call back into the server is covered.
\<close>

section \<open>wolfSSL\<close>

datatype 'ssl wolf_call =
    Return int bytes 'ssl
  | Send bytes "int \<Rightarrow> 'ssl wolf_call"
  | Recv nat "int \<Rightarrow> bytes \<Rightarrow> 'ssl wolf_call"

text \<open>
  The functions of the library that the server calls, on the state of one session. A returned call
  carries its result, the bytes that \<open>wolfSSL_read\<close> stored and the session.
\<close>

record 'ssl wolfssl =
  wolf_new :: 'ssl
  wolf_accept :: "'ssl \<Rightarrow> 'ssl wolf_call"
  wolf_read :: "nat \<Rightarrow> 'ssl \<Rightarrow> 'ssl wolf_call"
  wolf_write :: "bytes \<Rightarrow> 'ssl \<Rightarrow> 'ssl wolf_call"
  wolf_shutdown :: "'ssl \<Rightarrow> 'ssl wolf_call"

definition WANT_WRITE :: int where "WANT_WRITE = -2"
definition WANT_READ :: int where "WANT_READ = -2"

section \<open>State\<close>

record 'ssl tls_client = client_base +
  ssl :: "'ssl option"
  accept_last_written :: int
  recv_data :: bytes

definition new_tls_client :: "'ssl tls_client" where
  "new_tls_client = \<lparr>cl_id = -1, sockfd = -1, send_data = [], read_req_active = False,
     num_write_reqs = 0, ssl = None, accept_last_written = -1, recv_data = []\<rparr>"

type_synonym ('ssl, 'w) tls = "(('ssl, unit) tls_client_ext, 'w) server"

section \<open>The callbacks of wolfSSL\<close>

definition tls_send :: "int \<Rightarrow> bytes \<Rightarrow> ('ssl, 'w) tls \<Rightarrow> (int \<times> ('ssl, 'w) tls) option" where
  "tls_send client_idx buff s = do {
     c \<leftarrow> vget (clients s) client_idx;
     if client_idx \<in> active_connections s then
       case send_data c of
         [] \<Rightarrow> None
       | current # rest \<Rightarrow>
           if last_written current = -1 then do {
             s \<leftarrow> add_write_req client_idx WRITE (Ptr Wolfssl_buffer buff) (int (length buff)) s;
             Some (WANT_WRITE, s)
           } else do {
             s \<leftarrow> upd_client client_idx (\<lambda>c. c\<lparr>send_data := current\<lparr>last_written := -1\<rparr> # rest\<rparr>) s;
             Some (last_written current, s)
           }
     else if accept_last_written c = -1 then do {
       s \<leftarrow> add_write_req client_idx ACCEPT_WRITE (Ptr Wolfssl_buffer buff) (int (length buff)) s;
       Some (WANT_WRITE, s)
     } else do {
       s \<leftarrow> upd_client client_idx (\<lambda>c. c\<lparr>accept_last_written := -1\<rparr>) s;
       Some (accept_last_written c, s)
     }
   }"

text \<open>\<open>utility::remove_first_n_elements\<close> on a vector: \<open>memmove\<close> to the front, then \<open>resize\<close>.\<close>

definition remove_first_n :: "nat \<Rightarrow> bytes \<Rightarrow> bytes option" where
  "remove_first_n n data =
     (if n \<le> length data then
        let new_size = length data - n;
            moved = take new_size (drop n data) @ drop new_size data
        in Some (vresize new_size 0 moved)
      else None)"

text \<open>The result is the value returned, the bytes copied to \<open>buff\<close> and the server.\<close>

definition tls_recv_helper ::
    "int \<Rightarrow> nat \<Rightarrow> bool \<Rightarrow> ('ssl, 'w) tls \<Rightarrow> (int \<times> bytes \<times> ('ssl, 'w) tls) option" where
  "tls_recv_helper client_idx sz accept s = do {
     c \<leftarrow> vget (clients s) client_idx;
     let data = recv_data c;
     if length data > sz then do {
       data' \<leftarrow> remove_first_n sz data;
       s \<leftarrow> upd_client client_idx (\<lambda>c. c\<lparr>recv_data := data'\<rparr>) s;
       Some (int sz, take sz data, s)
     } else if length data < sz then do {
       s \<leftarrow> (if accept then map_option snd (add_read_req client_idx ACCEPT_READ s) else Some s);
       Some (WANT_READ, [], s)
     } else do {
       s \<leftarrow> upd_client client_idx (\<lambda>c. c\<lparr>recv_data := []\<rparr>) s;
       Some (int (length data), data, s)
     }
   }"

definition tls_recv :: "int \<Rightarrow> nat \<Rightarrow> ('ssl, 'w) tls \<Rightarrow> (int \<times> bytes \<times> ('ssl, 'w) tls) option" where
  "tls_recv client_idx sz s = do {
     c \<leftarrow> vget (clients s) client_idx;
     if client_idx \<in> active_connections s then
       if recv_data c \<noteq> [] then tls_recv_helper client_idx sz False s
       else do {
         s \<leftarrow> map_option snd (add_read_req client_idx READ s);
         Some (WANT_READ, [], s)
       }
     else
       if recv_data c \<noteq> [] then tls_recv_helper client_idx sz True s
       else do {
         s \<leftarrow> map_option snd (add_read_req client_idx ACCEPT_READ s);
         Some (WANT_READ, [], s)
       }
   }"

primrec run_wolf :: "int \<Rightarrow> 'ssl wolf_call \<Rightarrow> ('ssl, 'w) tls \<Rightarrow> (int \<times> bytes \<times> ('ssl, 'w) tls) option" where
  "run_wolf idx (Return r out st) = (\<lambda>s. do { s \<leftarrow> upd_client idx (\<lambda>c. c\<lparr>ssl := Some st\<rparr>) s; Some (r, out, s) })"
| "run_wolf idx (Send b k) = (\<lambda>s. do { (n, s) \<leftarrow> tls_send idx b s; run_wolf idx (k n) s })"
| "run_wolf idx (Recv sz k) = (\<lambda>s. do { (r, bs, s) \<leftarrow> tls_recv idx sz s; run_wolf idx (k r bs) s })"

text \<open>A call on the session of a client; on a null session every function fails.\<close>

definition call_wolf ::
    "int \<Rightarrow> ('ssl \<Rightarrow> 'ssl wolf_call) \<Rightarrow> ('ssl, 'w) tls \<Rightarrow> (int \<times> bytes \<times> ('ssl, 'w) tls) option" where
  "call_wolf idx f s = do {
     c \<leftarrow> vget (clients s) idx;
     case ssl c of None \<Rightarrow> Some (-1, [], s) | Some st \<Rightarrow> run_wolf idx (f st) s
   }"

section \<open>Connections\<close>

definition tls_write :: "'ssl wolfssl \<Rightarrow> int \<Rightarrow> cptr \<Rightarrow> int \<Rightarrow> ('ssl, 'w) tls \<Rightarrow> (int \<times> ('ssl, 'w) tls) option" where
  "tls_write W idx p len s =
     map_option (\<lambda>(r, _, s). (r, s)) (call_wolf idx (wolf_write W (take (nat (i32 len)) (ptr_bytes p))) s)"

definition tls_close_connection :: "'ssl wolfssl \<Rightarrow> int \<Rightarrow> (('ssl, unit) tls_client_ext, 'w) op" where
  "tls_close_connection W client_idx s = do {
     c \<leftarrow> vget (clients s) client_idx;
     if num_write_reqs c = 0 then do {
       (_, _, s) \<leftarrow> call_wolf client_idx (wolf_shutdown W) s;
       s \<leftarrow> upd_client client_idx (\<lambda>c. c\<lparr>ssl := None\<rparr>) (s\<lparr>closed_fds := closed_fds s @ [sockfd c]\<rparr>);
       s \<leftarrow> clear_send_data client_idx (s\<lparr>active_connections := active_connections s - {client_idx}\<rparr>);
       Some (s\<lparr>freed_indexes := insert client_idx (freed_indexes s)\<rparr>)
     } else Some s
   }"

text \<open>Queueing an entry: wolfSSL is called when it is the only one.\<close>

definition tls_enqueue :: "'ssl wolfssl \<Rightarrow> int \<Rightarrow> write_data \<Rightarrow> cptr \<Rightarrow> int \<Rightarrow> (('ssl, unit) tls_client_ext, 'w) op" where
  "tls_enqueue W idx wd p len s = do {
     s \<leftarrow> enqueue_write idx wd s;
     c \<leftarrow> vget (clients s) idx;
     if length (send_data c) = 1 then map_option snd (tls_write W idx p len s) else Some s
   }"

definition tls_write_connection_vec :: "'ssl wolfssl \<Rightarrow> int \<Rightarrow> bytes \<Rightarrow> (('ssl, unit) tls_client_ext, 'w) op" where
  "tls_write_connection_vec W idx buff s =
     tls_enqueue W idx (write_data_vec buff) (Ptr Queue_entry buff) (int (length buff)) s"

definition tls_write_connection_ptr :: "'ssl wolfssl \<Rightarrow> int \<Rightarrow> cptr \<Rightarrow> int \<Rightarrow> (('ssl, unit) tls_client_ext, 'w) op" where
  "tls_write_connection_ptr W idx buff len s = tls_enqueue W idx (write_data_ptr buff len False 0) buff len s"

fun tls_broadcast_loop ::
    "'ssl wolfssl \<Rightarrow> write_data \<Rightarrow> cptr \<Rightarrow> int \<Rightarrow> int list \<Rightarrow> (('ssl, unit) tls_client_ext, 'w) op" where
  "tls_broadcast_loop W wd p len [] s = Some s"
| "tls_broadcast_loop W wd p len (idx # rest) s = do {
     s \<leftarrow> tls_enqueue W idx wd p len s;
     tls_broadcast_loop W wd p len rest s
   }"

definition tls_broadcast_message_ptr ::
    "'ssl wolfssl \<Rightarrow> int list \<Rightarrow> int \<Rightarrow> cptr \<Rightarrow> int \<Rightarrow> int \<Rightarrow> (('ssl, unit) tls_client_ext, 'w) op" where
  "tls_broadcast_message_ptr W idxs num_clients buff len info s =
     (if num_clients > 0 then tls_broadcast_loop W (write_data_ptr buff len True info) buff len idxs s else Some s)"

definition tls_broadcast_message_vec ::
    "'ssl wolfssl \<Rightarrow> int list \<Rightarrow> int \<Rightarrow> bytes \<Rightarrow> (('ssl, unit) tls_client_ext, 'w) op" where
  "tls_broadcast_message_vec W idxs num_clients buff s =
     (if num_clients > 0
      then tls_broadcast_loop W (write_data_multi (length (multi_writes s))) (Ptr Queue_entry buff) (int (length buff)) idxs
             (s\<lparr>multi_writes := multi_writes s @ [Some (buff, num_clients)]\<rparr>)
      else Some s)"

definition tls_accept :: "'ssl wolfssl \<Rightarrow> int \<Rightarrow> (('ssl, unit) tls_client_ext, 'w) op" where
  "tls_accept W client_idx s = do {
     s \<leftarrow> upd_client client_idx (\<lambda>c. c\<lparr>ssl := Some (wolf_new W)\<rparr>) s;
     (_, _, s) \<leftarrow> call_wolf client_idx (wolf_accept W) s;
     Some s
   }"

section \<open>The handler\<close>

text \<open>Adding what was read to the data that waits for wolfSSL.\<close>

definition store_received :: "request \<Rightarrow> int \<Rightarrow> (('ssl, unit) tls_client_ext, 'w) op" where
  "store_received req res s =
     upd_client (rq_client_idx req) (\<lambda>c. c\<lparr>read_req_active := False,
       recv_data := if recv_data c = [] then vresize (nat res) 0 (rq_read_data req)
                    else recv_data c @ take (nat res) (rq_read_data req)\<rparr>) s"

text \<open>
  A result of \<open>wolfSSL_read\<close> is stored in \<open>buffer\<close>: more bytes than asked for would be stored
  past its end.
\<close>

definition handle_tls_accept_read ::
    "'ssl wolfssl \<Rightarrow> (('ssl, unit) tls_client_ext, 'w) callbacks \<Rightarrow> request \<Rightarrow> int \<Rightarrow> (('ssl, unit) tls_client_ext, 'w) op" where
  "handle_tls_accept_read W CB req res s = do {
     let idx = rq_client_idx req;
     s \<leftarrow> store_received req res s;
     (r, _, s) \<leftarrow> call_wolf idx (wolf_accept W) s;
     if r = 1 then do {
       s \<leftarrow> call0 (map_option (\<lambda>f. f idx) (accept_cb CB)) s;
       let s = s\<lparr>active_connections := insert idx (active_connections s)\<rparr>;
       (amount_read, out, s) \<leftarrow> call_wolf idx (wolf_read W READ_SIZE) s;
       s \<leftarrow> upd_client idx (\<lambda>c. c\<lparr>recv_data := []\<rparr>) s;
       if amount_read > -1 then
         if length out \<le> READ_SIZE then do {
           s \<leftarrow> upd_client idx (\<lambda>c. c\<lparr>read_req_active := False\<rparr>) s;
           call0 (map_option (\<lambda>f. f idx (out @ replicate (READ_SIZE - length out) 0) amount_read) (read_cb CB)) s
         } else None
       else Some s
     } else Some s
   }"

definition handle_tls_accept_write :: "'ssl wolfssl \<Rightarrow> request \<Rightarrow> int \<Rightarrow> (('ssl, unit) tls_client_ext, 'w) op" where
  "handle_tls_accept_write W req res s = do {
     let idx = rq_client_idx req;
     s \<leftarrow> upd_client idx (\<lambda>c. c\<lparr>num_write_reqs := num_write_reqs c - 1, accept_last_written := res\<rparr>) s;
     (_, _, s) \<leftarrow> call_wolf idx (wolf_accept W) s;
     Some s
   }"

text \<open>Starting the write of the front of the queue, if there is one.\<close>

definition tls_write_front :: "'ssl wolfssl \<Rightarrow> int \<Rightarrow> (('ssl, unit) tls_client_ext, 'w) op" where
  "tls_write_front W idx s = do {
     c \<leftarrow> vget (clients s) idx;
     case send_data c of
       [] \<Rightarrow> Some s
     | wd # _ \<Rightarrow> do {
         (buff, len) \<leftarrow> get_ptr_and_size s wd;
         map_option snd (tls_write W idx buff len s)
       }
   }"

definition handle_tls_write ::
    "'ssl wolfssl \<Rightarrow> (('ssl, unit) tls_client_ext, 'w) callbacks \<Rightarrow> request \<Rightarrow> int \<Rightarrow> (('ssl, unit) tls_client_ext, 'w) op" where
  "handle_tls_write W CB req res s = do {
     let idx = rq_client_idx req;
     s \<leftarrow> upd_client idx (\<lambda>c. c\<lparr>num_write_reqs := num_write_reqs c - 1\<rparr>) s;
     c \<leftarrow> vget (clients s) idx;
     case send_data c of
       [] \<Rightarrow> Some s
     | data_ref # rest \<Rightarrow> do {
         (buff, len) \<leftarrow> get_ptr_and_size s data_ref;
         s \<leftarrow> upd_client idx (\<lambda>c. c\<lparr>send_data := data_ref\<lparr>last_written := res\<rparr> # rest\<rparr>) s;
         (written, s) \<leftarrow> tls_write W idx buff len s;
         if written > -1 then do {
           s \<leftarrow> pop_send_data idx s;
           s \<leftarrow> call0 (map_option (\<lambda>f. f idx (broadcast_info data_ref)) (write_cb CB)) s;
           tls_write_front W idx s
         } else Some s
       }
   }"

text \<open>
  The loop that empties \<open>recv_data\<close> through \<open>wolfSSL_read\<close>; \<open>acc\<close> holds the \<open>total_read\<close>
  bytes read so far.
\<close>

partial_function (option) tls_read_loop ::
    "'ssl wolfssl \<Rightarrow> int \<Rightarrow> nat \<Rightarrow> bytes \<Rightarrow> ('ssl, 'w) tls \<Rightarrow> (bytes \<times> ('ssl, 'w) tls) option" where
  "tls_read_loop W idx to_read acc s = do {
     c \<leftarrow> vget (clients s) idx;
     if recv_data c = [] then Some (acc, s)
     else Option.bind (call_wolf idx (wolf_read W (to_read - length acc)) s)
       (\<lambda>t. if fst t \<le> 0 then Some (acc, snd (snd t))
            else if length (fst (snd t)) \<le> to_read - length acc
            then tls_read_loop W idx to_read (acc @ fst (snd t)) (snd (snd t))
            else None)
   }"

definition handle_tls_read ::
    "'ssl wolfssl \<Rightarrow> (('ssl, unit) tls_client_ext, 'w) callbacks \<Rightarrow> request \<Rightarrow> int \<Rightarrow> (('ssl, unit) tls_client_ext, 'w) op" where
  "handle_tls_read W CB req res s = do {
     let idx = rq_client_idx req;
     s \<leftarrow> store_received req res s;
     c \<leftarrow> vget (clients s) idx;
     let to_read = length (recv_data c);
     (acc, s) \<leftarrow> tls_read_loop W idx to_read [] s;
     if acc = [] then map_option snd (add_read_req idx READ s)
     else call0 (map_option (\<lambda>f. f idx (acc @ replicate (to_read - length acc) 0) (int (length acc))) (read_cb CB)) s
   }"

definition handle_tls_accept :: "'ssl wolfssl \<Rightarrow> int \<Rightarrow> (('ssl, unit) tls_client_ext, 'w) op" where
  "handle_tls_accept W res s = do {
     (idx, s) \<leftarrow> setup_client new_tls_client res s;
     tls_accept W idx (add_tcp_accept_req s)
   }"

definition tls_handler ::
    "'ssl wolfssl \<Rightarrow> (('ssl, unit) tls_client_ext, 'w) callbacks \<Rightarrow> request \<Rightarrow> int \<Rightarrow> (('ssl, unit) tls_client_ext, 'w) op" where
  "tls_handler W CB req res s =
     (case rq_event req of
        ACCEPT \<Rightarrow> handle_tls_accept W res s
      | ACCEPT_READ \<Rightarrow> handle_tls_accept_read W CB req res s
      | ACCEPT_WRITE \<Rightarrow> handle_tls_accept_write W req res s
      | WRITE \<Rightarrow> handle_tls_write W CB req res s
      | READ \<Rightarrow> handle_tls_read W CB req res s
      | _ \<Rightarrow> Some s)"

definition tls_derived ::
    "'ssl wolfssl \<Rightarrow> (('ssl, unit) tls_client_ext, 'w) callbacks \<Rightarrow> (('ssl, unit) tls_client_ext, 'w) derived" where
  "tls_derived W CB = \<lparr>close_connection_T = tls_close_connection W, req_event_handler_T = tls_handler W CB\<rparr>"

section \<open>Construction\<close>

text \<open>The results of creating the context and of loading the two files are arguments.\<close>

definition tls_server_new :: "bool \<Rightarrow> int \<Rightarrow> int \<Rightarrow> string + ('ssl, 'w) tls \<Rightarrow> string + ('ssl, 'w) tls" where
  "tls_server_new ctx_ok chain_res key_res base =
     (case base of
        Inl e \<Rightarrow> Inl e
      | Inr s \<Rightarrow>
          if \<not> ctx_ok then Inl ''Failed to create the WOLFSSL_CTX''
          else if chain_res \<noteq> 1 then Inl ''Failed to load the certificate files''
          else if key_res \<noteq> 1 then Inl ''Failed to load the private key file''
          else Inr s)"

definition tls_kill_all_servers :: "('ssl, 'w) tls list \<Rightarrow> ('ssl, 'w) tls list" where
  "tls_kill_all_servers = map kill_server"

end
