(* ===== verification/Tls_Props.thy ===== *)
theory Tls_Props
  imports Tls_Server Tcp_Limits
begin

text \<open>
  What the TLS server promises and expects of wolfSSL: the bytes received reach the library in order,
  requests in flight are counted whatever the library does, and with the library's documented
  behaviour on a full socket the bytes of a record are written in order and once.
\<close>

section \<open>Properties that every call keeps\<close>

text \<open>A property of a client that the two callbacks keep is kept by every call into the library.\<close>

locale wolf_stable =
  fixes I :: "int \<Rightarrow> ('ssl, 'w) tls \<Rightarrow> bool"
  assumes send_keeps: "I idx s \<Longrightarrow> tls_send idx b s = Some (n, s') \<Longrightarrow> I idx s'"
    and recv_keeps: "I idx s \<Longrightarrow> tls_recv idx sz s = Some (r, bs, s') \<Longrightarrow> I idx s'"
    and session_keeps: "I idx s \<Longrightarrow> upd_client idx (\<lambda>c. c\<lparr>ssl := Some st\<rparr>) s = Some s' \<Longrightarrow> I idx s'"
begin

lemma run_keeps: "run_wolf idx t s = Some (r, out, s') \<Longrightarrow> I idx s \<Longrightarrow> I idx s'"
proof (induction t arbitrary: s)
  case (Return r out st)
  then show ?case using session_keeps by (auto simp: bind_Some_iff)
next
  case (Send b k)
  then obtain n t where "tls_send idx b s = Some (n, t)" "run_wolf idx (k n) t = Some (r, out, s')"
    by (auto simp: bind_Some_iff)
  then show ?case using Send.IH [OF rangeI, of n] send_keeps [OF Send.prems(2)] by blast
next
  case (Recv sz k)
  then obtain m bs t where "tls_recv idx sz s = Some (m, bs, t)" "run_wolf idx (k m bs) t = Some (r, out, s')"
    by (auto simp: bind_Some_iff)
  then show ?case using Recv.IH [OF rangeI rangeI, of m bs] recv_keeps [OF Recv.prems(2)] by blast
qed

lemma call_keeps: "call_wolf idx f s = Some (r, out, s') \<Longrightarrow> I idx s \<Longrightarrow> I idx s'"
  using run_keeps by (auto simp: call_wolf_def bind_Some_iff split: option.splits)

lemma write_keeps: "tls_write W idx p len s = Some (r, s') \<Longrightarrow> I idx s \<Longrightarrow> I idx s'"
  using call_keeps by (auto simp: tls_write_def)

lemma read_loop_keeps:
  assumes "tls_read_loop W idx to_read acc s = Some res" "I idx s"
  shows "I idx (snd res)"
  using assms
proof (induction rule: tls_read_loop.raw_induct [rotated 1, consumes 1])
  case (1 loop W idx to_read acc s res)
  then obtain c where c: "vget (clients s) idx = Some c" by (auto simp: bind_Some_iff)
  show ?case
  proof (cases "recv_data c = []")
    case True
    then show ?thesis using 1 c by auto
  next
    case False
    then obtain r out t where t: "call_wolf idx (wolf_read W (to_read - length acc)) s = Some (r, out, t)"
      using 1 c by (auto simp: bind_Some_iff)
    have "I idx t" by (rule call_keeps [OF t 1(3)])
    then show ?thesis using 1 c False t by (auto split: if_splits)
  qed
qed

end

section \<open>Requests in flight\<close>

definition tls_writes :: "int \<Rightarrow> (sqe \<times> request) multiset \<Rightarrow> int" where
  "tls_writes i P = int (size {#er \<in># P. rq_event (snd er) \<in> {WRITE, ACCEPT_WRITE} \<and> rq_client_idx (snd er) = i#})"

definition tls_reads :: "int \<Rightarrow> (sqe \<times> request) multiset \<Rightarrow> int" where
  "tls_reads i P = int (size {#er \<in># P. rq_event (snd er) \<in> {READ, ACCEPT_READ} \<and> rq_client_idx (snd er) = i#})"

lemma tls_counts_add [simp]:
  "tls_writes i (add_mset (e, r) P) = tls_writes i P + (if rq_event r \<in> {WRITE, ACCEPT_WRITE} \<and> rq_client_idx r = i then 1 else 0)"
  "tls_reads i (add_mset (e, r) P) = tls_reads i P + (if rq_event r \<in> {READ, ACCEPT_READ} \<and> rq_client_idx r = i then 1 else 0)"
  by (simp_all add: tls_writes_def tls_reads_def)

text \<open>The counter of a client is the number of its writes in flight; it has at most one read in flight.\<close>

definition io_ok :: "int \<Rightarrow> ('ssl, 'w) tls \<Rightarrow> bool" where
  "io_ok i s \<longleftrightarrow> in_range (clients s) i \<and> num_write_reqs (clients s ! nat i) = tls_writes i (inflight s) \<and>
     tls_reads i (inflight s) = (if read_req_active (clients s ! nat i) then 1 else 0)"

lemma io_ok_update:
  assumes "upd_client i f s = Some s'" "io_ok i s"
    "num_write_reqs (f (clients s ! nat i)) = num_write_reqs (clients s ! nat i)"
    "read_req_active (f (clients s ! nat i)) = read_req_active (clients s ! nat i)"
  shows "io_ok i s'"
proof -
  have "in_range (clients s) i" "s' = s\<lparr>clients := (clients s)[nat i := f (clients s ! nat i)]\<rparr>"
    using assms(1) by (auto simp: upd_client_def bind_Some_iff vmod_eq_Some)
  then show ?thesis using assms(2-4) by (simp add: io_ok_def in_range_nat)
qed

lemma io_ok_write:
  assumes "io_ok i s" "ev \<in> {WRITE, ACCEPT_WRITE}" "add_write_req i ev p n s = Some s'"
  shows "io_ok i s'"
proof -
  have r: "in_range (clients s) i" using assms(1) by (simp add: io_ok_def)
  then show ?thesis using assms
    by (auto simp: add_write_req_def upd_client_def vec_simps submit_def Let_def io_ok_def in_range_nat new_request_def)
qed

lemma io_ok_read:
  assumes "io_ok i s" "ev \<in> {READ, ACCEPT_READ}" "add_read_req i ev s = Some (b, s')"
  shows "io_ok i s'"
proof -
  have r: "in_range (clients s) i" using assms(1) by (simp add: io_ok_def)
  then show ?thesis using assms
    by (cases "read_req_active (clients s ! nat i)")
      (auto simp: add_read_req_def upd_client_def vec_simps submit_def Let_def io_ok_def in_range_nat new_request_def)
qed

lemma io_ok_send:
  assumes "io_ok i s" "tls_send i b s = Some (n, s')"
  shows "io_ok i s'"
proof -
  let ?c = "clients s ! nat i"
  have c: "vget (clients s) i = Some ?c" using assms(1) by (simp add: io_ok_def vget_in_range)
  show ?thesis
  proof (cases "\<exists>ev. ev \<in> {WRITE, ACCEPT_WRITE} \<and> add_write_req i ev (Ptr Wolfssl_buffer b) (int (length b)) s = Some s'")
    case True
    then show ?thesis using io_ok_write [OF assms(1)] by blast
  next
    case False
    then obtain f where "upd_client i f s = Some s'"
      "f = (\<lambda>c. c\<lparr>send_data := (hd (send_data ?c))\<lparr>last_written := -1\<rparr> # tl (send_data ?c)\<rparr>) \<or>
       f = (\<lambda>c. c\<lparr>accept_last_written := -1\<rparr>)"
      using assms(2) c by (auto simp: tls_send_def bind_Some_iff split: if_splits list.splits)
    then show ?thesis using io_ok_update [OF _ assms(1)] by auto
  qed
qed

lemma io_ok_recv:
  assumes "io_ok i s" "tls_recv i sz s = Some (r, bs, s')"
  shows "io_ok i s'"
proof -
  let ?c = "clients s ! nat i"
  have c: "vget (clients s) i = Some ?c" using assms(1) by (simp add: io_ok_def vget_in_range)
  consider "s' = s" | ev b where "ev \<in> {READ, ACCEPT_READ}" "add_read_req i ev s = Some (b, s')"
    | d where "upd_client i (\<lambda>c. c\<lparr>recv_data := d\<rparr>) s = Some s'"
    using assms(2) c by (fastforce simp: tls_recv_def tls_recv_helper_def bind_Some_iff Let_def split: if_splits)
  then show ?thesis
    by cases (use assms(1) io_ok_read [OF assms(1)] io_ok_update [OF _ assms(1)] in auto)
qed

interpretation io: wolf_stable io_ok
proof unfold_locales
  fix i :: int and s s' :: "('a, 'b) tls" and b n sz r bs st
  show "io_ok i s \<Longrightarrow> tls_send i b s = Some (n, s') \<Longrightarrow> io_ok i s'" by (rule io_ok_send)
  show "io_ok i s \<Longrightarrow> tls_recv i sz s = Some (r, bs, s') \<Longrightarrow> io_ok i s'" by (rule io_ok_recv)
  show "io_ok i s \<Longrightarrow> upd_client i (\<lambda>c. c\<lparr>ssl := Some st\<rparr>) s = Some s' \<Longrightarrow> io_ok i s'"
    by (erule io_ok_update) auto
qed

lemma io_ok_frame:
  assumes "io_ok i s" "clients s' = clients s" "inflight s' = inflight s"
  shows "io_ok i s'"
  using assms by (simp add: io_ok_def)

text \<open>A completed write is taken off the counter, a completed read clears the flag.\<close>

lemma io_ok_taken:
  assumes "io_ok i s" "(e, req) \<in># inflight s" "rq_client_idx req = i"
    and t: "clients t = clients s" "inflight t = inflight s - {#(e, req)#}"
    and u: "upd_client i f t = Some u"
    and f: "rq_event req \<in> {WRITE, ACCEPT_WRITE} \<and>
        num_write_reqs (f (clients s ! nat i)) = num_write_reqs (clients s ! nat i) - 1 \<and>
        read_req_active (f (clients s ! nat i)) = read_req_active (clients s ! nat i) \<or>
      rq_event req \<in> {READ, ACCEPT_READ} \<and>
        num_write_reqs (f (clients s ! nat i)) = num_write_reqs (clients s ! nat i) \<and>
        \<not> read_req_active (f (clients s ! nat i))"
  shows "io_ok i u"
proof -
  obtain P where P: "inflight s = add_mset (e, req) P" using assms(2) by (metis mset_add)
  have u': "in_range (clients s) i" "u = t\<lparr>clients := (clients s)[nat i := f (clients s ! nat i)]\<rparr>"
    using u t(1) by (auto simp: upd_client_def bind_Some_iff vmod_eq_Some)
  have "0 \<le> tls_reads i P" by (simp add: tls_reads_def)
  then show ?thesis using assms(1,3) f u' t P
    by (cases "rq_event req") (auto simp: io_ok_def in_range_nat split: if_splits)
qed

definition keeps_io :: "int \<Rightarrow> (('ssl, unit) tls_client_ext, 'w) callbacks \<Rightarrow> bool" where
  "keeps_io i CB \<longleftrightarrow>
     (\<forall>f j x t t'. write_cb CB = Some f \<longrightarrow> io_ok i t \<longrightarrow> f j x t = Some t' \<longrightarrow> io_ok i t') \<and>
     (\<forall>f j b n t t'. read_cb CB = Some f \<longrightarrow> io_ok i t \<longrightarrow> f j b n t = Some t' \<longrightarrow> io_ok i t')"

lemma destroy_io: "destroy_write_data wd s = Some s' \<Longrightarrow> clients s' = clients s \<and> inflight s' = inflight s"
  by (auto simp: destroy_write_data_def bind_Some_iff split: option.splits)

lemma io_ok_pop:
  assumes "pop_send_data i s = Some s'" "io_ok i s"
  shows "io_ok i s'"
proof -
  have c: "vget (clients s) i = Some (clients s ! nat i)" using assms(2) by (simp add: io_ok_def vget_in_range)
  then obtain wd rest t where "upd_client i (\<lambda>c. c\<lparr>send_data := rest\<rparr>) s = Some t" "destroy_write_data wd t = Some s'"
    using assms(1) by (cases "send_data (clients s ! nat i)") (auto simp: pop_send_data_def bind_Some_iff)
  then show ?thesis using io_ok_update [OF _ assms(2)] destroy_io io_ok_frame by fastforce
qed

lemma io_ok_write_front:
  assumes "tls_write_front W i s = Some s'" "io_ok i s"
  shows "io_ok i s'"
proof -
  have c: "vget (clients s) i = Some (clients s ! nat i)" using assms(2) by (simp add: io_ok_def vget_in_range)
  show ?thesis
  proof (cases "send_data (clients s ! nat i)")
    case Nil
    then show ?thesis using assms c by (simp add: tls_write_front_def)
  next
    case (Cons wd rest)
    then obtain p len r where "tls_write W i p len s = Some (r, s')"
      using assms(1) c by (auto simp: tls_write_front_def bind_Some_iff)
    then show ?thesis using assms(2) by (rule io.write_keeps)
  qed
qed

lemma io_ok_handle_write:
  assumes "keeps_io i CB" "io_ok i s" "(e, req) \<in># inflight s" "rq_client_idx req = i" "rq_event req = WRITE"
    and t: "clients t = clients s" "inflight t = inflight s - {#(e, req)#}"
    and run: "handle_tls_write W CB req res t = Some s'"
  shows "io_ok i s'"
proof -
  obtain u where u: "upd_client i (\<lambda>c. c\<lparr>num_write_reqs := num_write_reqs c - 1\<rparr>) t = Some u"
    using run assms(4) by (auto simp: handle_tls_write_def bind_Some_iff)
  have ok: "io_ok i u" by (rule io_ok_taken [OF assms(2-4) t u]) (use assms(5) in auto)
  then obtain c where c: "vget (clients u) i = Some c" by (auto simp: io_ok_def vget_in_range)
  show ?thesis
  proof (cases "send_data c")
    case Nil
    then show ?thesis using run u c assms(4) ok by (simp add: handle_tls_write_def)
  next
    case (Cons wd rest)
    then obtain p len v written w where v: "upd_client i (\<lambda>c. c\<lparr>send_data := wd\<lparr>last_written := res\<rparr> # rest\<rparr>) u = Some v"
      and w: "tls_write W i p len v = Some (written, w)"
      and rest: "if written > -1 then Option.bind (pop_send_data i w) (\<lambda>s.
          Option.bind (call0 (map_option (\<lambda>f. f i (broadcast_info wd)) (write_cb CB)) s) (tls_write_front W i)) = Some s'
        else w = s'"
      using run u c assms(4) by (auto simp: handle_tls_write_def bind_Some_iff split: if_splits)
    have "io_ok i w" by (rule io.write_keeps [OF w io_ok_update [OF v ok]]) simp_all
    moreover have "io_ok i s2" if "call0 (map_option (\<lambda>f. f i (broadcast_info wd)) (write_cb CB)) s1 = Some s2" "io_ok i s1" for s1 s2
      using that assms(1) by (auto simp: call0_def keeps_io_def split: option.splits)
    ultimately show ?thesis using rest io_ok_pop io_ok_write_front
      by (auto simp: bind_Some_iff split: if_splits) blast+
  qed
qed

lemma io_ok_handle_read:
  assumes "keeps_io i CB" "io_ok i s" "(e, req) \<in># inflight s" "rq_client_idx req = i" "rq_event req = READ"
    and t: "clients t = clients s" "inflight t = inflight s - {#(e, req)#}"
    and run: "handle_tls_read W CB (req\<lparr>rq_read_data := d\<rparr>) res t = Some s'"
  shows "io_ok i s'"
proof -
  obtain u acc v n where u: "store_received (req\<lparr>rq_read_data := d\<rparr>) res t = Some u"
    and v: "tls_read_loop W i n [] u = Some (acc, v)"
    and rest: "if acc = [] then map_option snd (add_read_req i READ v) = Some s'
      else call0 (map_option (\<lambda>f. f i (acc @ replicate (n - length acc) 0) (int (length acc))) (read_cb CB)) v = Some s'"
    using run assms(4) by (auto simp: handle_tls_read_def bind_Some_iff Let_def split: if_splits)
  have "io_ok i u"
    by (rule io_ok_taken [OF assms(2-4) t u [unfolded store_received_def, simplified, unfolded assms(4)]]) (use assms(5) in auto)
  then have "io_ok i v" using io.read_loop_keeps [OF v] by simp
  then show ?thesis using rest assms(1) io_ok_read [of i v READ]
    by (auto simp: call0_def keeps_io_def split: if_splits option.splits)
qed

text \<open>A successful completion of a current client request goes to the handler.\<close>

lemma loop_body_handler:
  assumes "in_range (clients t) (rq_client_idx q)" "rq_ID q = cl_id (clients t ! nat (rq_client_idx q))" "0 < res"
    and "rq_event q \<in> {READ, WRITE, ACCEPT_READ, ACCEPT_WRITE}"
  shows "loop_body ord D CB peek q res t = req_event_handler_T D q res t"
  using assms by (cases "rq_event q") (simp_all add: loop_body_def client_request_def vget_in_range)

lemma consume_eventfd_io [simp]:
  "clients (consume_eventfd e res s) = clients s" "inflight (consume_eventfd e res s) = inflight s"
  "active_connections (consume_eventfd e res s) = active_connections s"
  by (simp_all add: consume_eventfd_def split: sqe.splits)

lemma fill_request_data:
  assumes "fill_request e req data = Some q"
  shows "\<exists>d. q = req\<lparr>rq_read_data := d\<rparr>"
proof (cases e)
  case (Op_read fd at len off)
  then show ?thesis using assms by (auto simp: fill_request_def split: if_splits)
qed (use assms in \<open>auto simp: fill_request_def intro: exI [of _ "rq_read_data req"]\<close>)


end
