(* ===== verification/Tls_Stream.thy ===== *)
theory Tls_Stream
  imports Tls_Props
begin

text \<open>
  The bytes of a TLS connection in both directions, and where the server loses them or reads a
  queue that is empty.
\<close>

section \<open>Received bytes\<close>

text \<open>The bytes that the receive callback hands to the library during a call.\<close>

primrec fed :: "int \<Rightarrow> 'ssl wolf_call \<Rightarrow> ('ssl, 'w) tls \<Rightarrow> bytes" where
  "fed idx (Return r out st) = (\<lambda>s. [])"
| "fed idx (Send b k) = (\<lambda>s. case tls_send idx b s of None \<Rightarrow> [] | Some (n, s') \<Rightarrow> fed idx (k n) s')"
| "fed idx (Recv sz k) = (\<lambda>s. case tls_recv idx sz s of None \<Rightarrow> [] | Some (r, bs, s') \<Rightarrow> bs @ fed idx (k r bs) s')"

definition waiting :: "int \<Rightarrow> ('ssl, 'w) tls \<Rightarrow> bytes" where
  "waiting idx s = recv_data (clients s ! nat idx)"

lemma remove_first_n_drop: "n \<le> length xs \<Longrightarrow> remove_first_n n xs = Some (drop n xs)"
  by (simp add: remove_first_n_def vresize_def Let_def)

lemma waiting_send:
  assumes "tls_send idx b s = Some (n, s')"
  shows "waiting idx s' = waiting idx s"
  using assms
  by (auto simp: tls_send_def add_write_req_def upd_client_def submit_def bind_Some_iff vmod_eq_Some vget_eq_Some waiting_def in_range_nat Let_def
      split: if_splits list.splits)

lemma waiting_read:
  "add_read_req idx ev s = Some (b, s') \<Longrightarrow> waiting idx s' = waiting idx s"
  by (auto simp: add_read_req_def upd_client_def submit_def bind_Some_iff vmod_eq_Some vget_eq_Some waiting_def in_range_nat Let_def
      split: if_splits)

text \<open>A receive gets all the bytes it asks for, from the front, or none.\<close>

lemma tls_recv_cases:
  assumes "tls_recv idx sz s = Some (r, bs, s')"
  shows "waiting idx s = bs @ waiting idx s'" "bs = [] \<and> r = WANT_READ \<or> r = int sz \<and> length bs = sz"
proof -
  obtain c where c: "vget (clients s) idx = Some c" using assms by (auto simp: tls_recv_def bind_Some_iff)
  then have w: "in_range (clients s) idx" "waiting idx s = recv_data c" by (auto simp: vget_eq_Some waiting_def)
  consider ev b where "add_read_req idx ev s = Some (b, s')" "bs = []" "r = WANT_READ"
    | "s' = s" "bs = []" "r = WANT_READ"
    | d where "upd_client idx (\<lambda>c. c\<lparr>recv_data := d\<rparr>) s = Some s'" "recv_data c = bs @ d" "r = int sz" "length bs = sz"
    using assms c
    by (fastforce simp: tls_recv_def tls_recv_helper_def bind_Some_iff Let_def remove_first_n_drop split: if_splits)
  then have "waiting idx s = bs @ waiting idx s' \<and> (bs = [] \<and> r = WANT_READ \<or> r = int sz \<and> length bs = sz)"
  proof cases
    case 1
    then show ?thesis using waiting_read [OF 1(1)] by simp
  next
    case 3
    then show ?thesis using w by (auto simp: upd_client_def bind_Some_iff vmod_eq_Some waiting_def in_range_nat)
  qed simp
  then show "waiting idx s = bs @ waiting idx s'" "bs = [] \<and> r = WANT_READ \<or> r = int sz \<and> length bs = sz" by auto
qed


section \<open>Written bytes\<close>

text \<open>
  How wolfSSL documents writing to a transport that would block: what a call could not write stays
  pending in the session; the same call, made again, goes on with it; the value the send callback
  returns is the number of bytes it took.
\<close>

function flush :: "(bytes \<Rightarrow> 'ssl) \<Rightarrow> int \<Rightarrow> bytes \<Rightarrow> 'ssl wolf_call" where
  "flush keep r out =
     (if out = [] then Return r [] (keep [])
      else Send out (\<lambda>n. if n \<le> 0 \<or> int (length out) < n then Return (-1) [] (keep out)
                         else flush keep r (drop (nat n) out)))"
  by pat_completeness auto
termination
  by (relation "measure (\<lambda>(keep, r, out). length out)") auto

declare flush.simps [simp del]

definition resumes_writes :: "'ssl wolfssl \<Rightarrow> ('ssl \<Rightarrow> bytes) \<Rightarrow> (bytes \<Rightarrow> 'ssl \<Rightarrow> bytes) \<Rightarrow> ('ssl \<Rightarrow> bytes \<Rightarrow> 'ssl) \<Rightarrow> bool" where
  "resumes_writes W pending seal keep \<longleftrightarrow>
     (\<forall>b st. wolf_write W b st = flush (keep st) (int (length b)) (if pending st = [] then seal b st else pending st)) \<and>
     (\<forall>st out. pending (keep st out) = out) \<and> (\<forall>b st. seal b st \<noteq> [] \<and> length (seal b st) < 2 ^ 31)"

text \<open>
  The state of an established connection with the entries \<open>q\<close> to write: idle, or with the pending
  bytes \<open>out\<close> of the front's record in flight.
\<close>

definition tls_sending :: "('ssl \<Rightarrow> bytes) \<Rightarrow> int \<Rightarrow> write_data list \<Rightarrow> bytes \<Rightarrow> ('ssl, 'w) tls \<Rightarrow> bool" where
  "tls_sending pending idx q out s \<longleftrightarrow> in_range (clients s) idx \<and> idx \<in> active_connections s \<and>
     (\<forall>wd\<in>set q. multi_write_data wd = None \<and> last_written wd = -1) \<and> length out < 2 ^ 31 \<and>
     (let c = clients s ! nat idx in
        send_data c = q \<and> (q = [] \<longleftrightarrow> out = []) \<and> (\<exists>st. ssl c = Some st \<and> pending st = out) \<and>
        {#er \<in># inflight s. is_write idx er#} = (if q = [] then {#} else
          {#(Op_write (sockfd c) (Ptr Wolfssl_buffer out) (int (length out)),
             (new_request WRITE)\<lparr>rq_client_idx := idx, rq_total_length := int (length out),
               rq_buffer := Ptr Wolfssl_buffer out, rq_ID := cl_id c\<rparr>)#}) \<and>
        num_write_reqs c = (if q = [] then 0 else 1))"

lemma u32_len: "length (out :: bytes) < 2 ^ 31 \<Longrightarrow> u32 (int (length out)) = int (length out)"
  by (rule u32_small) auto

text \<open>A record that is not in flight yet is submitted, and the call reports that it would block.\<close>

lemma run_flush_submit:
  assumes "in_range (clients s) idx" "idx \<in> active_connections s" "c = clients s ! nat idx"
    and "send_data c = wd # rest" "last_written wd = -1" "out \<noteq> []" "length out < 2 ^ 31"
  shows "run_wolf idx (flush keep r out) s = Some (-1, [], s\<lparr>
     clients := (clients s)[nat idx := c\<lparr>num_write_reqs := num_write_reqs c + 1, ssl := Some (keep out)\<rparr>],
     inflight := add_mset (Op_write (sockfd c) (Ptr Wolfssl_buffer out) (int (length out)),
       (new_request WRITE)\<lparr>rq_client_idx := idx, rq_total_length := int (length out),
         rq_buffer := Ptr Wolfssl_buffer out, rq_ID := cl_id c\<rparr>) (inflight s)\<rparr>)"
  using assms u32_len [OF assms(7)]
  by (simp add: flush.simps [of keep r out] tls_send_def vec_simps add_write_req_step WANT_WRITE_def upd_client_def Let_def in_range_nat)

text \<open>The bytes a completed write took are taken off the record.\<close>

lemma run_flush_resume:
  assumes "in_range (clients s) idx" "idx \<in> active_connections s" "c = clients s ! nat idx"
    and "send_data c = wd # rest" "last_written wd = res" "0 < res" "res \<le> int (length out)"
  shows "run_wolf idx (flush keep r out) s = run_wolf idx (flush keep r (drop (nat res) out))
    (s\<lparr>clients := (clients s)[nat idx := c\<lparr>send_data := wd\<lparr>last_written := -1\<rparr> # rest\<rparr>]\<rparr>)"
proof -
  have "out \<noteq> []" using assms(6,7) by auto
  then show ?thesis using assms
    by (simp add: flush.simps [of keep r out] tls_send_def vec_simps upd_client_def)
qed

lemma write_in_flight:
  assumes "tls_sending pending idx (wd # rest) out s" "(e, req) \<in># inflight s" "is_write idx (e, req)"
  shows "rq_event req = WRITE" "rq_client_idx req = idx" "rq_ID req = cl_id (clients s ! nat idx)"
    "fill_request e req [] = Some req" "{#er \<in># inflight s - {#(e, req)#}. is_write idx er#} = {#}"
proof -
  obtain P where P: "inflight s = add_mset (e, req) P" using assms(2) by (metis mset_add)
  have "{#er \<in># inflight s. is_write idx er#} = {#(Op_write (sockfd (clients s ! nat idx)) (Ptr Wolfssl_buffer out) (int (length out)),
      (new_request WRITE)\<lparr>rq_client_idx := idx, rq_total_length := int (length out), rq_buffer := Ptr Wolfssl_buffer out,
        rq_ID := cl_id (clients s ! nat idx)\<rparr>)#}"
    using assms(1) by (simp add: tls_sending_def Let_def)
  then have "(e, req) = (Op_write (sockfd (clients s ! nat idx)) (Ptr Wolfssl_buffer out) (int (length out)),
      (new_request WRITE)\<lparr>rq_client_idx := idx, rq_total_length := int (length out), rq_buffer := Ptr Wolfssl_buffer out,
        rq_ID := cl_id (clients s ! nat idx)\<rparr>) \<and> {#er \<in># P. is_write idx er#} = {#}"
    using assms(3) P by (auto simp: add_eq_conv_ex)
  then show "rq_event req = WRITE" "rq_client_idx req = idx" "rq_ID req = cl_id (clients s ! nat idx)"
    "fill_request e req [] = Some req" "{#er \<in># inflight s - {#(e, req)#}. is_write idx er#} = {#}"
    by (auto simp: P new_request_def fill_request_def)
qed

lemma same_front:
  fixes c :: "'ssl tls_client"
  assumes "send_data c = wd # rest" "last_written wd = -1"
  shows "c\<lparr>send_data := wd\<lparr>last_written := -1\<rparr> # rest\<rparr> = c"
proof -
  have "wd\<lparr>last_written := -1\<rparr> = wd" using assms(2) by (cases wd) simp
  then show ?thesis using assms(1) by (cases c) simp
qed

text \<open>The call that follows a completed write goes on with the rest of the record.\<close>

lemma tls_write_resumed:
  assumes W: "resumes_writes W pending seal keep"
    and t: "in_range (clients t) idx" "idx \<in> active_connections t" "c = clients t ! nat idx"
    and c: "send_data c = wd # rest" "last_written wd = -1" "ssl c = Some st" "pending st = out"
    and res: "0 < res" "res \<le> int (length out)"
  shows "\<exists>r \<ge> 0. tls_write W idx p len (t\<lparr>clients := (clients t)[nat idx := c\<lparr>send_data := wd\<lparr>last_written := res\<rparr> # rest\<rparr>]\<rparr>) =
    map_option (\<lambda>(r, _, s). (r, s)) (run_wolf idx (flush (keep st) r (drop (nat res) out)) t)"
proof -
  let ?v = "t\<lparr>clients := (clients t)[nat idx := c\<lparr>send_data := wd\<lparr>last_written := res\<rparr> # rest\<rparr>]\<rparr>"
  let ?b = "take (nat (i32 len)) (ptr_bytes p)"
  have "out \<noteq> []" using res by auto
  then have w: "wolf_write W ?b st = flush (keep st) (int (length ?b)) out"
    using W c(4) unfolding resumes_writes_def by simp
  have "run_wolf idx (flush (keep st) (int (length ?b)) out) ?v =
      run_wolf idx (flush (keep st) (int (length ?b)) (drop (nat res) out)) t"
    using t run_flush_resume [of ?v idx "clients ?v ! nat idx" "wd\<lparr>last_written := res\<rparr>" rest res out] res same_front [OF c(1,2)]
    by (simp add: in_range_nat list_update_same_conv)
  then show ?thesis using t c(3) w
    by (intro exI [of _ "int (length ?b)"]) (simp add: tls_write_def call_wolf_def vec_simps in_range_nat)
qed

lemma handle_write_cases:
  assumes W: "resumes_writes W pending seal keep"
    and t: "in_range (clients t) idx" "idx \<in> active_connections t" "c = clients t ! nat idx" "rq_client_idx req = idx"
    and c: "send_data c = wd # rest" "last_written wd = -1" "multi_write_data wd = None" "ssl c = Some st" "pending st = out"
    and res: "0 < res" "res \<le> int (length out)" and len: "length out < 2 ^ 31"
  defines "d \<equiv> c\<lparr>num_write_reqs := num_write_reqs c - 1\<rparr>"
  shows "res < int (length out) \<Longrightarrow> handle_tls_write W CB req res t = Some (t\<lparr>
      clients := (clients t)[nat idx := c\<lparr>ssl := Some (keep st (drop (nat res) out))\<rparr>],
      inflight := add_mset (Op_write (sockfd c) (Ptr Wolfssl_buffer (drop (nat res) out)) (int (length (drop (nat res) out))),
       (new_request WRITE)\<lparr>rq_client_idx := idx, rq_total_length := int (length (drop (nat res) out)),
         rq_buffer := Ptr Wolfssl_buffer (drop (nat res) out), rq_ID := cl_id c\<rparr>) (inflight t)\<rparr>)"
    and "res = int (length out) \<Longrightarrow> write_cb CB = None \<Longrightarrow> handle_tls_write W CB req res t =
      tls_write_front W idx (t\<lparr>clients := (clients t)[nat idx := d\<lparr>ssl := Some (keep st []), send_data := rest\<rparr>]\<rparr>)"
proof -
  let ?t = "t\<lparr>clients := (clients t)[nat idx := d]\<rparr>"
  obtain p len where view: "entry_view wd = (p, len)" by fastforce
  have d: "send_data d = wd # rest" "ssl d = Some st" using c by (simp_all add: d_def)
  obtain r where r: "0 \<le> r" and w: "tls_write W idx p len (?t\<lparr>clients := (clients ?t)[nat idx := d\<lparr>send_data := wd\<lparr>last_written := res\<rparr> # rest\<rparr>]\<rparr>) =
      map_option (\<lambda>(r, _, s). (r, s)) (run_wolf idx (flush (keep st) r (drop (nat res) out)) ?t)"
    using tls_write_resumed [OF W, of ?t idx d wd rest st out res p len] t d c(2,5) res by (auto simp: in_range_nat)
  have run: "handle_tls_write W CB req res t = Option.bind (map_option (\<lambda>(r, _, s). (r, s))
      (run_wolf idx (flush (keep st) r (drop (nat res) out)) ?t)) (\<lambda>(written, s).
        if written > -1 then Option.bind (pop_send_data idx s) (\<lambda>s.
          Option.bind (call0 (map_option (\<lambda>f. f idx (broadcast_info wd)) (write_cb CB)) s) (tls_write_front W idx))
        else Some s)"
    using t d c(3) w view
    by (simp add: handle_tls_write_def upd_client_def vec_simps get_ptr_and_size_entry Let_def in_range_nat d_def)
  show "handle_tls_write W CB req res t = Some (t\<lparr>
      clients := (clients t)[nat idx := c\<lparr>ssl := Some (keep st (drop (nat res) out))\<rparr>],
      inflight := add_mset (Op_write (sockfd c) (Ptr Wolfssl_buffer (drop (nat res) out)) (int (length (drop (nat res) out))),
       (new_request WRITE)\<lparr>rq_client_idx := idx, rq_total_length := int (length (drop (nat res) out)),
         rq_buffer := Ptr Wolfssl_buffer (drop (nat res) out), rq_ID := cl_id c\<rparr>) (inflight t)\<rparr>)"
    if "res < int (length out)"
  proof -
    have ne: "drop (nat res) out \<noteq> []" "length (drop (nat res) out) < 2 ^ 31" using that res len by auto
    show ?thesis
      unfolding run using run_flush_submit [of ?t idx d wd rest "drop (nat res) out" "keep st" r] t d c(2) ne
      by (simp add: in_range_nat d_def)
  qed
  show "handle_tls_write W CB req res t =
      tls_write_front W idx (t\<lparr>clients := (clients t)[nat idx := d\<lparr>ssl := Some (keep st []), send_data := rest\<rparr>]\<rparr>)"
    if "res = int (length out)" "write_cb CB = None"
  proof -
    have "drop (nat res) out = []" using that by simp
    then show ?thesis
      unfolding run using t d c(3) r that(2)
      by (simp add: flush.simps upd_client_def vec_simps in_range_nat pop_send_data_plain call0_def)
  qed
qed

definition entry_payload :: "write_data \<Rightarrow> bytes" where
  "entry_payload wd = (case entry_view wd of (p, len) \<Rightarrow> take (nat (i32 len)) (ptr_bytes p))"

lemma sending_intro:
  assumes "in_range (clients t) idx" "idx \<in> active_connections t" "{#er \<in># inflight t. is_write idx er#} = {#}"
    and "send_data c = q" "\<forall>wd\<in>set q. multi_write_data wd = None \<and> last_written wd = -1" "q \<noteq> []"
    and "ssl c = Some st" "pending st = out" "out \<noteq> []" "length out < 2 ^ 31" "num_write_reqs c = 1"
  shows "tls_sending pending idx q out (t\<lparr>clients := (clients t)[nat idx := c],
      inflight := add_mset (Op_write (sockfd c) (Ptr Wolfssl_buffer out) (int (length out)),
       (new_request WRITE)\<lparr>rq_client_idx := idx, rq_total_length := int (length out),
         rq_buffer := Ptr Wolfssl_buffer out, rq_ID := cl_id c\<rparr>) (inflight t)\<rparr>)"
  using assms by (simp add: tls_sending_def in_range_nat is_write_def new_request_def)

text \<open>Starting the next entry seals its bytes into a record and puts it in flight.\<close>

lemma write_front_sends:
  assumes W: "resumes_writes W pending seal keep"
    and u: "in_range (clients u) idx" "idx \<in> active_connections u" "c = clients u ! nat idx"
    and c: "send_data c = q" "\<forall>wd\<in>set q. multi_write_data wd = None \<and> last_written wd = -1"
      "ssl c = Some st" "pending st = []" "num_write_reqs c = 0" "{#er \<in># inflight u. is_write idx er#} = {#}"
  shows "\<exists>s' out. tls_write_front W idx u = Some s' \<and> tls_sending pending idx q out s' \<and>
    (case q of [] \<Rightarrow> out = [] | wd # _ \<Rightarrow> out = seal (entry_payload wd) st)"
proof (cases q)
  case Nil
  then show ?thesis using u c by (simp add: tls_write_front_def vget_in_range tls_sending_def)
next
  case (Cons wd rest)
  let ?out = "seal (entry_payload wd) st"
  obtain p len where view: "entry_view wd = (p, len)" by fastforce
  have out: "?out \<noteq> []" "length ?out < 2 ^ 31" "pending (keep st ?out) = ?out"
    and w: "wolf_write W (take (nat (i32 len)) (ptr_bytes p)) st = flush (keep st) (int (length (entry_payload wd))) ?out"
    using W c(4) view unfolding resumes_writes_def by (simp_all add: entry_payload_def)
  have "tls_write_front W idx u = map_option (\<lambda>x. snd (snd x)) (run_wolf idx (flush (keep st) (int (length (entry_payload wd))) ?out) u)"
    using u c(1-3) Cons view w
    by (simp add: tls_write_front_def vget_in_range get_ptr_and_size_entry tls_write_def call_wolf_def option.map_comp o_def case_prod_beta)
  then show ?thesis
    using run_flush_submit [OF u(1,2,3), of wd rest ?out "keep st" "int (length (entry_payload wd))"] u c Cons out
      sending_intro [OF u(1,2) c(6), of "c\<lparr>num_write_reqs := num_write_reqs c + 1, ssl := Some (keep st ?out)\<rparr>" q "keep st ?out" pending ?out]
    by simp
qed


section \<open>Where bytes are lost or a queue is read empty\<close>

text \<open>C37. Closing an established TLS connection reads the front of an empty queue: the failed read
  of a connection that is in use empties its queue and closes it while it is still in
  \<open>active_connections\<close>; when \<open>wolfSSL_shutdown\<close> sends its close notification, the send callback
  looks at the front of that queue.\<close>

theorem tls_close_reads_empty_queue:
  assumes "in_range (clients s) i" "i \<in> active_connections s" "c = clients s ! nat i" "num_write_reqs c = 0"
    and "\<forall>wd\<in>set (send_data c). multi_write_data wd = None" "ssl c = Some st" "wolf_shutdown W st = Send b k"
    and "rq_event req = READ" "rq_client_idx req = i" "rq_ID req = cl_id c" "res \<le> 0" "close_cb CB = None"
  shows "complete ord (tls_derived W CB) CB peek e req res [] s = None"
proof (cases "fill_request e req []")
  case None
  then show ?thesis by (simp add: complete_def)
next
  case (Some q)
  let ?t = "consume_eventfd e res (s\<lparr>inflight := inflight s - {#(e, req)#}\<rparr>)"
  let ?u = "?t\<lparr>clients := (clients s)[nat i := c\<lparr>send_data := []\<rparr>]\<rparr>"
  obtain d where q: "q = req\<lparr>rq_read_data := d\<rparr>" using fill_request_data [OF Some] by blast
  have "drain_send_data CB i ?t = Some ?u" using drain_no_callback [OF assms(12), of ?t i] assms(1,3,5) by simp
  moreover have "tls_close_connection W i ?u = None"
    using assms(1-4,6,7) by (simp add: tls_close_connection_def vec_simps call_wolf_def tls_send_def in_range_nat)
  ultimately have "close_client (tls_derived W CB) CB i ?t = None"
    using assms(12) by (simp add: close_client_def call0_def tls_derived_def)
  then show ?thesis using Some q assms(1,3,4,8-11)
    by (simp add: complete_def loop_body_def client_request_def handle_failure_def vget_in_range)
qed

text \<open>Bytes that arrive together with the end of the handshake are lost: when they are less than
  a record header, \<open>wolfSSL_read\<close> wants more; the server then empties \<open>recv_data\<close> and asks for no
  further read, so the bytes are gone and nothing of this connection is in flight any more.\<close>

theorem tls_accept_drops_early_data:
  assumes "in_range (clients s) i" "c = clients s ! nat i" "recv_data c = []" "ssl c = Some st" "i \<notin> active_connections s"
    and "rq_event req = ACCEPT_READ" "rq_client_idx req = i" "rq_ID req = cl_id c"
    and "e = Op_read fd 0 len 0" "length (rq_read_data req) = READ_SIZE"
    and "data = hs @ early" "hs \<noteq> []" "early \<noteq> []" "length early < 5" "length data \<le> READ_SIZE"
    and "wolf_accept W st = Recv (length hs) (\<lambda>r bs. Return 1 [] st')"
    and "wolf_read W READ_SIZE st' = Recv 5 (\<lambda>r bs. if r = WANT_READ then Return (-1) [] st' else k r bs)"
    and "accept_cb CB = None"
  shows "\<exists>s'. complete ord (tls_derived W CB) CB peek e req (int (length data)) data s = Some s' \<and>
    recv_data (clients s' ! nat i) = [] \<and> \<not> read_req_active (clients s' ! nat i) \<and> inflight s' = inflight s - {#(e, req)#}"
proof -
  let ?t = "consume_eventfd e (int (length data)) (s\<lparr>inflight := inflight s - {#(e, req)#}\<rparr>)"
  let ?q = "req\<lparr>rq_read_data := data @ drop (length data) (rq_read_data req)\<rparr>"
  have fill: "fill_request e req data = Some ?q" using assms(9,10,15) by (simp add: fill_request_def)
  have "data \<noteq> []" using assms(11,12) by simp
  then have pos: "0 < int (length data)" by simp
  have body: "loop_body ord (tls_derived W CB) CB peek ?q (int (length data)) ?t = handle_tls_accept_read W CB ?q (int (length data)) ?t"
    using loop_body_handler [of ?t ?q "int (length data)" ord "tls_derived W CB" CB peek] assms(1,2,6-8) pos
    by (simp add: tls_derived_def tls_handler_def)
  have stored: "store_received ?q (int (length data)) ?t =
      Some (?t\<lparr>clients := (clients s)[nat i := c\<lparr>read_req_active := False, recv_data := hs @ early\<rparr>]\<rparr>)"
    using assms(1-3,7,11) by (simp add: store_received_def upd_client_def vec_simps vresize_def)
  let ?u = "?t\<lparr>clients := (clients s)[nat i := c\<lparr>read_req_active := False, recv_data := early, ssl := Some st'\<rparr>]\<rparr>"
  have acc: "call_wolf i (wolf_accept W) (?t\<lparr>clients := (clients s)[nat i := c\<lparr>read_req_active := False, recv_data := hs @ early\<rparr>]\<rparr>) =
      Some (1, [], ?u)"
    using assms(1,4,5,12,13,16)
    by (simp add: call_wolf_def vec_simps in_range_nat tls_recv_def tls_recv_helper_def remove_first_n_drop upd_client_def)
  have rd: "call_wolf i (wolf_read W READ_SIZE) (?u\<lparr>active_connections := insert i (active_connections ?u)\<rparr>) =
      Some (-1, [], ?u\<lparr>active_connections := insert i (active_connections ?u)\<rparr>)"
    using assms(1,13,14,17)
    by (simp add: call_wolf_def vec_simps in_range_nat tls_recv_def tls_recv_helper_def upd_client_def)
  show ?thesis using fill body stored acc rd assms(1,7,18)
    by (simp add: complete_def handle_tls_accept_read_def call0_def upd_client_def vec_simps in_range_nat Let_def)
qed

section \<open>A session that keeps what it could not write\<close>

text \<open>
  A concrete library for the examples: a session is its pending output; a record is a type byte and
  at most 16384 bytes; the handshake is two bytes long.
\<close>

definition ex_wolf :: "bytes wolfssl" where
  "ex_wolf = \<lparr>wolf_new = [], wolf_accept = (\<lambda>st. Recv 2 (\<lambda>r bs. Return 1 [] st)),
     wolf_read = (\<lambda>n st. Recv 5 (\<lambda>r bs. if r = WANT_READ then Return (-1) [] st else Return 5 bs st)),
     wolf_write = (\<lambda>b st. flush (\<lambda>out. out) (int (length b)) (if st = [] then 23 # take 16384 b else st)),
     wolf_shutdown = (\<lambda>st. Send [21, 0] (\<lambda>n. Return 0 [] st))\<rparr>"

definition ex_seal :: "bytes \<Rightarrow> bytes \<Rightarrow> bytes" where
  "ex_seal b st = 23 # take 16384 b"

lemma ex_wolf_resumes: "resumes_writes ex_wolf id ex_seal (\<lambda>st out. out)"
  by (auto simp: resumes_writes_def ex_wolf_def ex_seal_def min_def)

definition ex_tls_client :: "bytes tls_client" where
  "ex_tls_client = new_tls_client\<lparr>sockfd := 5, send_data := [write_data_vec [1, 2]], num_write_reqs := 1, ssl := Some [23, 1, 2]\<rparr>"

definition ex_tls_req :: request where
  "ex_tls_req = (new_request WRITE)\<lparr>rq_client_idx := 0, rq_total_length := 3, rq_buffer := Ptr Wolfssl_buffer [23, 1, 2], rq_ID := -1\<rparr>"

definition ex_tls :: "bytes tls_client \<Rightarrow> int set \<Rightarrow> (sqe \<times> request) multiset \<Rightarrow> (bytes, unit) tls" where
  "ex_tls c A P = \<lparr>clients = [c], active_connections = A, freed_indexes = {}, inflight = P,
     multi_writes = [], closed_fds = [], notification_count = 0, kill_count = 0, listener_fd = 3,
     notification_efd = 10, kill_efd = 11, timerfd = 12, ran_server = True, is_active = True, custom_obj = ()\<rparr>"

definition ex_tls_busy :: "(bytes, unit) tls" where
  "ex_tls_busy = ex_tls ex_tls_client {0} {#(Op_write 5 (Ptr Wolfssl_buffer [23, 1, 2]) 3, ex_tls_req)#}"

lemmas ex_tls_defs = ex_tls_busy_def ex_tls_def ex_tls_client_def ex_tls_req_def new_tls_client_def new_request_def write_data_vec_def

lemma ex_tls_sending: "tls_sending id 0 [write_data_vec [1, 2]] [23, 1, 2] ex_tls_busy"
  by (simp add: tls_sending_def ex_tls_defs in_range_def is_write_def)



theorem tls_close_reads_empty_queue_witness:
  "complete ascending (tls_derived ex_wolf no_callbacks) no_callbacks (\<lambda>_. 1) (Op_read 5 0 8192 0)
     ((new_request READ)\<lparr>rq_client_idx := 0\<rparr>) 0 [] (ex_tls (ex_tls_client\<lparr>send_data := [], num_write_reqs := 0\<rparr>) {0} {#}) = None"
  by (rule tls_close_reads_empty_queue [where i = 0 and st = "[23, 1, 2]" and b = "[21, 0]" and k = "\<lambda>n. Return 0 [] [23, 1, 2]"])
    (simp add: ex_tls_def in_range_def ex_tls_client_def new_tls_client_def ex_wolf_def new_request_def no_callbacks_def)+

theorem tls_accept_drops_early_data_witness:
  "\<exists>s'. complete ascending (tls_derived ex_wolf no_callbacks) no_callbacks (\<lambda>_. 1) (Op_read 5 0 8192 0)
      ((new_request ACCEPT_READ)\<lparr>rq_client_idx := 0, rq_read_data := replicate READ_SIZE 0\<rparr>) 4 [22, 0, 23, 3]
      (ex_tls (new_tls_client\<lparr>ssl := Some []\<rparr>) {} {#}) = Some s' \<and>
     recv_data (clients s' ! 0) = [] \<and> inflight s' = {#}"
  using tls_accept_drops_early_data [where s = "ex_tls (new_tls_client\<lparr>ssl := Some []\<rparr>) {} {#}" and i = 0 and c = "new_tls_client\<lparr>ssl := Some []\<rparr>"
      and st = "[]" and st' = "[]" and hs = "[22, 0]" and early = "[23, 3]" and data = "[22, 0, 23, 3]" and W = ex_wolf
      and CB = no_callbacks and fd = 5 and len = 8192 and ord = ascending and peek = "\<lambda>_. 1" and e = "Op_read 5 0 8192 0"
      and req = "(new_request ACCEPT_READ)\<lparr>rq_client_idx := 0, rq_read_data := replicate READ_SIZE 0\<rparr>" and k = "\<lambda>r bs. Return 5 bs []"]
  by (auto simp: ex_tls_def in_range_def new_tls_client_def ex_wolf_def new_request_def no_callbacks_def READ_SIZE_def)


end
