(* ===== verification/C_Strings.thy ===== *)
theory C_Strings
  imports Prelude "HOL-Library.Sublist"
begin

text \<open>
  C strings and the functions of the C and C++ libraries the program uses on them.

  Memory that holds text is a \<open>string\<close>; \<open>NUL\<close> terminates a C string. A function that runs
  over the end of the memory without finding a \<open>NUL\<close> is undefined (\<open>None\<close>). The state that
  \<open>strtok_r\<close> keeps in \<open>saveptr\<close> is the memory from there on.
\<close>

abbreviation NUL :: char where "NUL \<equiv> CHR 0x00"
abbreviation CR :: char where "CR \<equiv> CHR 0x0D"
abbreviation LF :: char where "LF \<equiv> CHR 0x0A"

definition c_str :: "string \<Rightarrow> string option" where
  "c_str mem = (if NUL \<in> set mem then Some (takeWhile (\<lambda>c. c \<noteq> NUL) mem) else None)"

text \<open>
  One call of \<open>strtok_r\<close>: the token, or \<open>None\<close> for a null pointer, and the new
  \<open>saveptr\<close>.
\<close>

definition strtok_r :: "string \<Rightarrow> string \<Rightarrow> (string option \<times> string) option" where
  "strtok_r delims mem = (
     let s = dropWhile (\<lambda>c. c \<in> set delims \<and> c \<noteq> NUL) mem;
         token = takeWhile (\<lambda>c. c \<notin> set delims \<and> c \<noteq> NUL) s;
         rest = dropWhile (\<lambda>c. c \<notin> set delims \<and> c \<noteq> NUL) s
     in case s of
          [] \<Rightarrow> None
        | c # _ \<Rightarrow>
            if c = NUL then Some (None, s)
            else case rest of
                   [] \<Rightarrow> None
                 | d # r \<Rightarrow> Some (Some token, if d = NUL then rest else r))"

lemma strtok_r_shrinks:
  assumes "strtok_r delims mem = Some (Some token, rest)"
  shows "length rest < length mem"
proof -
  let ?s = "dropWhile (\<lambda>c. c \<in> set delims \<and> c \<noteq> NUL) mem"
  let ?P = "\<lambda>c. c \<notin> set delims \<and> c \<noteq> NUL"
  obtain c s' where s: "?s = c # s'" and c: "c \<noteq> NUL"
    using assms by (auto simp: strtok_r_def Let_def split: list.splits if_splits)
  then have P: "?P c" using hd_dropWhile [of "\<lambda>c. c \<in> set delims \<and> c \<noteq> NUL" mem] by auto
  have "length rest \<le> length (dropWhile ?P ?s)"
    using assms s c by (auto simp: strtok_r_def Let_def split: list.splits if_splits)
      (metis le_refl length_Cons)
  also have "\<dots> \<le> length s'" using P s length_dropWhile_le [of ?P s'] by simp
  also have "length s' < length ?s" using s by simp
  also have "\<dots> \<le> length mem" by (rule length_dropWhile_le)
  finally show ?thesis .
qed

text \<open>The loop \<open>while((line = strtok_r(p, delims, &saveptr)))\<close>: all tokens.\<close>

function tokens :: "string \<Rightarrow> string \<Rightarrow> string list option" where
  "tokens delims mem =
     (case strtok_r delims mem of
        None \<Rightarrow> None
      | Some (None, _) \<Rightarrow> Some []
      | Some (Some token, rest) \<Rightarrow> map_option (Cons token) (tokens delims rest))"
  by pat_completeness auto
termination
  by (relation "measure (\<lambda>(delims, mem). length mem)") (auto dest: strtok_r_shrinks)

declare tokens.simps [simp del]

text \<open>A token that is followed by a delimiter or by the end of the string.\<close>

lemma strtok_r_token:
  assumes "t \<noteq> []" "set t \<inter> insert NUL (set delims) = {}" "d \<in> set delims" "d \<noteq> NUL"
  shows "strtok_r delims (t @ d # rest) = Some (Some t, rest)"
    "strtok_r delims (t @ NUL # rest) = Some (Some t, NUL # rest)"
proof -
  obtain c t' where t: "t = c # t'" using assms(1) by (cases t) auto
  have c: "c \<notin> set delims" "c \<noteq> NUL" using assms(2) t by auto
  have all: "\<forall>x\<in>set t. x \<notin> set delims \<and> x \<noteq> NUL" using assms(2) by auto
  have "dropWhile (\<lambda>c. c \<in> set delims \<and> c \<noteq> NUL) (t @ e # rest) = t @ e # rest" for e using t c by simp
  moreover have "takeWhile (\<lambda>c. c \<notin> set delims \<and> c \<noteq> NUL) (t @ e # rest) = t"
    "dropWhile (\<lambda>c. c \<notin> set delims \<and> c \<noteq> NUL) (t @ e # rest) = e # rest"
    if "e \<in> set delims \<or> e = NUL" for e
    using all that by (auto simp: takeWhile_append2 dropWhile_append2)
  ultimately show "strtok_r delims (t @ d # rest) = Some (Some t, rest)"
    "strtok_r delims (t @ NUL # rest) = Some (Some t, NUL # rest)"
    using assms(3,4) c by (simp_all add: strtok_r_def t)
qed

lemma strtok_r_end: "strtok_r delims (NUL # rest) = Some (None, NUL # rest)"
  by (simp add: strtok_r_def)

lemma strtok_r_skip:
  "d \<in> set delims \<Longrightarrow> d \<noteq> NUL \<Longrightarrow> strtok_r delims (d # mem) = strtok_r delims mem"
  by (simp add: strtok_r_def)

lemma tokens_join:
  assumes "d \<in> set delims" "d \<noteq> NUL"
    and "\<And>t. t \<in> set ts \<Longrightarrow> t \<noteq> [] \<and> set t \<inter> insert NUL (set delims) = {}"
  shows "tokens delims (concat (map (\<lambda>t. t @ [d]) ts) @ NUL # rest) = Some ts"
  using assms(3)
proof (induction ts)
  case Nil
  then show ?case by (subst tokens.simps) (simp add: strtok_r_end)
next
  case (Cons t ts)
  have "strtok_r delims (t @ d # (concat (map (\<lambda>t. t @ [d]) ts) @ NUL # rest)) =
      Some (Some t, concat (map (\<lambda>t. t @ [d]) ts) @ NUL # rest)"
    using Cons.prems assms(1,2) by (intro strtok_r_token(1)) auto
  then show ?case using Cons by (subst tokens.simps) simp
qed

section \<open>std::stoi\<close>

text \<open>Decimal digits after optional white space and sign; no digits or an overflow is an exception.\<close>

definition is_digit :: "char \<Rightarrow> bool" where
  "is_digit c \<longleftrightarrow> 48 \<le> (of_char c :: nat) \<and> (of_char c :: nat) \<le> 57"

definition is_space :: "char \<Rightarrow> bool" where
  "is_space c \<longleftrightarrow> (of_char c :: nat) \<in> {9, 10, 11, 12, 13, 32}"

definition digits_value :: "string \<Rightarrow> int" where
  "digits_value ds = foldl (\<lambda>a c. a * 10 + (of_char c - 48)) 0 ds"

definition stoi :: "string \<Rightarrow> int option" where
  "stoi s = (
     let s = dropWhile is_space s;
         (neg, s) = (case s of c # r \<Rightarrow> if c = CHR ''-'' then (True, r) else if c = CHR ''+'' then (False, r) else (False, s)
                     | [] \<Rightarrow> (False, s));
         ds = takeWhile is_digit s;
         v = (if neg then - digits_value ds else digits_value ds)
     in if ds = [] \<or> v < - (2 ^ 31) \<or> 2 ^ 31 \<le> v then None else Some v)"

end
