(* ===== verification/Config.thy ===== *)
theory Config
  imports C_Strings Tcp_Base
begin

text \<open>
  Reading and parsing the configuration file, \<open>central_web_server::start_server\<close> in
  \<open>web_server/central_web_server.cpp\<close>, up to the call of \<open>run\<close>.

  The outcomes of the program are a \<open>startup\<close> value; \<open>None\<close> is undefined behaviour or an
  exception that ends the program (constructing a \<open>std::string\<close> from a null pointer, a failing
  \<open>std::stoi\<close>).
\<close>

section \<open>Reading the file\<close>

text \<open>
  \<open>utility::get_file_size\<close>: the result of \<open>fstat\<close> is an argument; a block device reports
  its own size.
\<close>

datatype file_kind = Block_device "int option" | Regular_file int | Other_file

definition get_file_size :: "file_kind option \<Rightarrow> string + int" where
  "get_file_size st = (case st of
     None \<Rightarrow> Inl ''file stat''
   | Some (Block_device None) \<Rightarrow> Inl ''file stat ioctl''
   | Some (Block_device (Some size_bytes)) \<Rightarrow> Inr (u64 size_bytes)
   | Some (Regular_file st_size) \<Rightarrow> Inr (u64 st_size)
   | Some Other_file \<Rightarrow> Inr (u64 (-1)))"

text \<open>
  The loop that fills \<open>config\<close>. The list holds what the successive calls of \<open>read\<close> return:
  consecutive pieces of the file, or \<open>None\<close> for the error \<open>-1\<close>; every piece is stored at
  the start of the vector. The result is \<open>None\<close> when the list is used up before the loop is
  done, or a piece does not fit.
\<close>

fun read_config :: "string option list \<Rightarrow> int \<Rightarrow> int \<Rightarrow> string \<Rightarrow> (string \<times> int) option" where
  "read_config results read_amount file_size config =
     (if u64 read_amount \<noteq> file_size then
        case results of
          [] \<Rightarrow> None
        | None # rs \<Rightarrow> read_config rs (i32 (read_amount - 1)) file_size config
        | Some p # rs \<Rightarrow>
            if int (length p) \<le> u64 (file_size - read_amount) \<and> length p \<le> length config
            then read_config rs (i32 (read_amount + int (length p))) file_size (p @ drop (length p) config)
            else None
      else Some (config, read_amount))"

declare read_config.simps [simp del]

section \<open>Parsing\<close>

text \<open>The loop that removes the spaces of a line, with \<open>i\<close> and \<open>shrink_by\<close> explicit.\<close>

function squeeze :: "nat \<Rightarrow> nat \<Rightarrow> string \<Rightarrow> string \<times> nat" where
  "squeeze i shrink_by line =
     (if i < length line then
        if line ! i = CHR '' '' then squeeze (i + 1) (shrink_by + 1) line
        else squeeze (i + 1) shrink_by (line[i - shrink_by := line ! i])
      else (line, shrink_by))"
  by pat_completeness auto
termination
  by (relation "measure (\<lambda>(i, shrink_by, line). length line - i)") auto

declare squeeze.simps [simp del]

definition squeeze_line :: "string \<Rightarrow> string" where
  "squeeze_line line = (
     let (line, shrink_by) = squeeze 0 0 line
     in if shrink_by \<noteq> 0 then line[length line - shrink_by := NUL] else line)"

definition parse_line :: "string \<Rightarrow> (string \<times> string) option option" where
  "parse_line line = (
     let line = squeeze_line line
     in do {
       first \<leftarrow> vget line 0;
       if first = CHR ''#'' then Some None
       else do {
         (key, saveptr) \<leftarrow> strtok_r '':'' line;
         key \<leftarrow> key;
         (value, saveptr) \<leftarrow> strtok_r '':'' saveptr;
         value \<leftarrow> value;
         Some (Some (key, value))
       }
     })"

fun parse_lines :: "string list \<Rightarrow> (string \<rightharpoonup> string) \<Rightarrow> (string \<rightharpoonup> string) option" where
  "parse_lines [] config_data_map = Some config_data_map"
| "parse_lines (l # ls) config_data_map =
     (case parse_line l of
        None \<Rightarrow> None
      | Some None \<Rightarrow> parse_lines ls config_data_map
      | Some (Some (key, value)) \<Rightarrow> parse_lines ls (config_data_map(key \<mapsto> value)))"

definition parse_config :: "string \<Rightarrow> (string \<rightharpoonup> string) option" where
  "parse_config config = do {
     lines \<leftarrow> tokens [LF] config;
     parse_lines lines (\<lambda>_. None)
   }"

section \<open>Starting\<close>

datatype startup = Fatal string | Run server_type int

definition check_config :: "(string \<rightharpoonup> string) \<Rightarrow> startup option" where
  "check_config config_data_map =
     (if config_data_map ''TLS'' = Some ''yes'' \<and>
         (config_data_map ''FULLCHAIN'' = None \<or> config_data_map ''PKEY'' = None \<or> config_data_map ''TLS_PORT'' = None)
      then Some (Fatal ''Please provide FULLCHAIN, PKEY and TLS_PORT settings in the config file'')
      else if config_data_map ''TLS'' \<noteq> Some ''yes'' \<and> config_data_map ''PORT'' = None
      then Some (Fatal ''Please provide the PORT setting in the config file'')
      else do {
        num_threads \<leftarrow> (case config_data_map ''SERVER_THREADS'' of None \<Rightarrow> Some 3 | Some v \<Rightarrow> stoi v);
        Some (Run (if config_data_map ''TLS'' = Some ''yes'' then TLS else NON_TLS) num_threads)
      })"

definition start_server :: "int \<Rightarrow> file_kind option \<Rightarrow> string option list \<Rightarrow> startup option" where
  "start_server file_fd st results =
     (if file_fd = -1 then Some (Fatal ''Ensure the .config file is in this directory'')
      else case get_file_size st of
        Inl msg \<Rightarrow> Some (Fatal msg)
      | Inr file_size \<Rightarrow> do {
          (config, read_amount) \<leftarrow> read_config results 0 file_size (replicate (nat (u64 (file_size + 1))) NUL);
          config \<leftarrow> vset config read_amount NUL;
          config_data_map \<leftarrow> parse_config config;
          check_config config_data_map
        })"

end
