(* ===== verification/Config_Props.thy ===== *)
theory Config_Props
  imports Config
begin

text \<open>
  The configuration parser: files in the format of the README are read back, the squeezing loop
  removes exactly the spaces, and three inputs on which the parser misbehaves.
\<close>

lemma squeeze_correct:
  "s \<le> i \<Longrightarrow> i \<le> length line \<Longrightarrow> squeeze i s line = (line', s') \<Longrightarrow>
     length line' = length line \<and> s' = s + length (filter (\<lambda>c. c = CHR '' '') (drop i line)) \<and>
     take (length line - s') line' = take (i - s) line @ filter (\<lambda>c. c \<noteq> CHR '' '') (drop i line)"
proof (induction i s line arbitrary: line' s' rule: squeeze.induct)
  case (1 i s line)
  show ?case
  proof (cases "i < length line")
    case False
    then have "squeeze i s line = (line, s)" by (subst squeeze.simps) simp
    then show ?thesis using 1(3-5) False by simp
  next
    case i: True
    have d: "drop i line = line ! i # drop (i + 1) line" using i by (simp add: Cons_nth_drop_Suc)
    show ?thesis
    proof (cases "line ! i = CHR '' ''")
      case True
      then have "squeeze i s line = squeeze (i + 1) (s + 1) line" using i by (subst squeeze.simps) simp
      then have sq: "squeeze (i + 1) (s + 1) line = (line', s')" using 1(5) by simp
      have "s + 1 \<le> i + 1" "i + 1 \<le> length line" using 1(3) i by simp_all
      from 1(1) [OF i True this sq] show ?thesis unfolding d using True by auto
    next
      case False
      let ?l = "line[i - s := line ! i]"
      have "squeeze i s line = squeeze (i + 1) s ?l" using i False by (subst squeeze.simps) simp
      then have sq: "squeeze (i + 1) s ?l = (line', s')" using 1(5) by simp
      have "s \<le> i + 1" "i + 1 \<le> length ?l" using 1(3) i by simp_all
      from 1(2) [OF i False this sq] have IH: "length line' = length line" "s' = s + length (filter (\<lambda>c. c = CHR '' '') (drop (i + 1) ?l))"
        "take (length line - s') line' = take (i + 1 - s) ?l @ filter (\<lambda>c. c \<noteq> CHR '' '') (drop (i + 1) ?l)"
        by auto
      have "drop (i + 1) ?l = drop (i + 1) line" using 1(3) by simp
      moreover have "take (i + 1 - s) ?l = take (i - s) line @ [line ! i]"
        using 1(3) i by (simp add: Suc_diff_le take_Suc_conv_app_nth)
      ultimately show ?thesis unfolding d using IH False by auto
    qed
  qed
qed

lemma squeeze_line_spaces:
  assumes "CHR '' '' \<in> set line"
  shows "\<exists>rest. squeeze_line line = filter (\<lambda>c. c \<noteq> CHR '' '') line @ NUL # rest"
proof -
  obtain l s where sq: "squeeze 0 0 line = (l, s)" by fastforce
  have s: "s = length (filter (\<lambda>c. c = CHR '' '') line)" and len: "length l = length line"
    and t: "take (length line - s) l = filter (\<lambda>c. c \<noteq> CHR '' '') line"
    using squeeze_correct [OF _ _ sq] by auto
  have pos: "s \<noteq> 0" "s \<le> length line" using assms s by (auto simp: filter_empty_conv)
  have "l = take (length line - s) l @ l ! (length line - s) # drop (Suc (length line - s)) l"
    using pos len by (simp add: id_take_nth_drop)
  then have "l[length l - s := NUL] = take (length line - s) l @ NUL # drop (Suc (length line - s)) l"
    using pos len by (metis diff_less length_greater_0_conv list.size(3) neq0_conv upd_conv_take_nth_drop zero_less_diff le_zero_eq)
  then show ?thesis using sq pos t by (auto simp: squeeze_line_def Let_def)
qed

lemma squeeze_line_no_spaces: "CHR '' '' \<notin> set line \<Longrightarrow> squeeze_line line = line"
proof -
  assume a: "CHR '' '' \<notin> set line"
  obtain l s where sq: "squeeze 0 0 line = (l, s)" by fastforce
  have "s = 0" "length l = length line" "take (length line - s) l = filter (\<lambda>c. c \<noteq> CHR '' '') line"
    using squeeze_correct [OF _ _ sq] a by (auto simp: filter_empty_conv)
  moreover have "filter (\<lambda>c. c \<noteq> CHR '' '') line = line" using a by (auto simp: filter_id_conv)
  ultimately show ?thesis using sq by (simp add: squeeze_line_def)
qed

section \<open>Files in the documented format\<close>

text \<open>A word is a key or a value: not empty, without colon, space, newline and \<open>NUL\<close>.\<close>

definition word_ok :: "string \<Rightarrow> bool" where
  "word_ok w \<longleftrightarrow> w \<noteq> [] \<and> set w \<inter> {CHR '':'', CHR '' '', LF, NUL} = {}"

definition setting_ok :: "string \<times> string \<Rightarrow> bool" where
  "setting_ok kv \<longleftrightarrow> word_ok (fst kv) \<and> word_ok (snd kv) \<and> hd (fst kv) \<noteq> CHR ''#''"

definition render_line :: "string \<times> string \<Rightarrow> string" where
  "render_line kv = fst kv @ '': '' @ snd kv"

definition render :: "(string \<times> string) list \<Rightarrow> string" where
  "render kvs = concat (map (\<lambda>kv. render_line kv @ [LF]) kvs)"

lemma parse_render_line: "setting_ok kv \<Longrightarrow> parse_line (render_line kv) = Some (Some kv)"
proof -
  assume ok: "setting_ok kv"
  obtain k v where kv: "kv = (k, v)" by fastforce
  have k: "k \<noteq> []" "set k \<inter> insert NUL (set '':'') = {}" "hd k \<noteq> CHR ''#''" "CHR '' '' \<notin> set k"
    and v: "v \<noteq> []" "set v \<inter> insert NUL (set '':'') = {}" "CHR '' '' \<notin> set v"
    using ok kv by (auto simp: setting_ok_def word_ok_def)
  have "filter (\<lambda>c. c \<noteq> CHR '' '') k = k" by (rule filter_True) (use k(4) in blast)
  moreover have "filter (\<lambda>c. c \<noteq> CHR '' '') v = v" by (rule filter_True) (use v(3) in blast)
  ultimately have "filter (\<lambda>c. c \<noteq> CHR '' '') (render_line kv) = k @ CHR '':'' # v"
    using kv by (simp add: render_line_def)
  then obtain rest where sq: "squeeze_line (render_line kv) = k @ CHR '':'' # (v @ NUL # rest)"
    using squeeze_line_spaces [of "render_line kv"] by (auto simp: render_line_def)
  have "strtok_r '':'' (k @ CHR '':'' # (v @ NUL # rest)) = Some (Some k, v @ NUL # rest)"
    by (rule strtok_r_token(1)) (use k in auto)
  moreover have "strtok_r '':'' (v @ NUL # rest) = Some (Some v, NUL # rest)"
    by (rule strtok_r_token(2) [where d = "CHR '':''"]) (use v in auto)
  moreover have "vget (k @ CHR '':'' # (v @ NUL # rest)) 0 = Some (hd k)"
    using k(1) by (simp add: vget_def in_range_def hd_conv_nth nth_append)
  ultimately show ?thesis unfolding parse_line_def sq using k(3) kv by simp
qed

lemma parse_render_lines:
  "list_all setting_ok kvs \<Longrightarrow> parse_lines (map render_line kvs) m = Some (m ++ map_of (rev kvs))"
  by (induction kvs arbitrary: m) (auto simp: parse_render_line map_add_def fun_eq_iff split: option.splits)

lemma parse_render:
  assumes "list_all setting_ok kvs"
  shows "parse_config (render kvs @ NUL # rest) = Some (map_of (rev kvs))"
proof -
  have "tokens [LF] (concat (map (\<lambda>t. t @ [LF]) (map render_line kvs)) @ NUL # rest) = Some (map render_line kvs)"
    by (rule tokens_join) (use assms in \<open>auto simp: list_all_iff setting_ok_def word_ok_def render_line_def\<close>)
  then show ?thesis using parse_render_lines [OF assms, of "\<lambda>_. None"]
    by (simp add: parse_config_def render_def comp_def)
qed

lemma read_config_one:
  assumes "0 < length content" "int (length content) < 2 ^ 31"
  shows "read_config [Some content] 0 (int (length content)) (replicate (length content + 1) NUL) =
    Some (content @ [NUL], int (length content))"
proof -
  have r: "replicate (length content + 1) NUL = replicate (length content) NUL @ [NUL]"
    by (simp add: replicate_append_same)
  show ?thesis unfolding r using assms by (simp add: read_config.simps u64_small i32_small)
qed

text \<open>C39. A configuration file with a line \<open>KEY: value\<close> per setting, as in the README, that is
  read in one piece starts the server its settings ask for: the parser recovers exactly the settings
  (the last one, when a key is repeated), and the program starts with them or names what is missing.\<close>

theorem start_server_documented_format:
  assumes "list_all setting_ok kvs" "kvs \<noteq> []" "int (length (render kvs)) < 2 ^ 31" "file_fd \<noteq> -1"
  shows "start_server file_fd (Some (Regular_file (int (length (render kvs))))) [Some (render kvs)] =
    check_config (map_of (rev kvs))"
proof -
  let ?n = "length (render kvs)"
  have pos: "0 < ?n" using assms(2) by (cases kvs) (simp_all add: render_def)
  have "nat (u64 (int ?n + 1)) = ?n + 1" using assms(3) by (simp add: u64_small)
  moreover have "vset (render kvs @ [NUL]) (int ?n) NUL = Some (render kvs @ [NUL])"
    by (simp add: vset_def in_range_def)
  ultimately show ?thesis
    using read_config_one [OF pos assms(3)] parse_render [OF assms(1), of "[]"] assms(3,4)
    by (simp add: start_server_def get_file_size_def u64_small)
qed

definition readme_settings :: "(string \<times> string) list" where
  "readme_settings = [(''TLS'', ''yes''), (''FULLCHAIN'', ''f.cer''), (''PKEY'', ''p.key''),
     (''PORT'', ''80''), (''TLS_PORT'', ''443''), (''SERVER_THREADS'', ''10'')]"

theorem start_server_documented_format_witness:
  "start_server 3 (Some (Regular_file (int (length (render readme_settings))))) [Some (render readme_settings)] =
     Some (Run TLS 10)"
proof -
  have ok: "list_all setting_ok readme_settings"
    by (simp add: readme_settings_def setting_ok_def word_ok_def)
  have "check_config (map_of (rev readme_settings)) = Some (Run TLS 10)"
    by (simp add: readme_settings_def check_config_def stoi_def is_space_def is_digit_def digits_value_def)
  then show ?thesis
    using start_server_documented_format [OF ok, of 3]
    by (simp add: readme_settings_def render_def render_line_def)
qed

section \<open>Other files\<close>

text \<open>A setting written without a space, \<open>KEY:value\<close>, makes the parser read past the end
  of the vector that holds the line: the vector has no terminating zero unless spaces were removed.\<close>

theorem line_without_space_overreads:
  assumes "word_ok k" "word_ok v" "hd k \<noteq> CHR ''#''"
  shows "parse_line (k @ '':'' @ v) = None"
proof -
  have k: "k \<noteq> []" "set k \<inter> insert NUL (set '':'') = {}" and v: "set v \<inter> {CHR '':'', NUL} = {}" "v \<noteq> []"
    and s: "CHR '' '' \<notin> set (k @ '':'' @ v)"
    using assms by (auto simp: word_ok_def)
  have "strtok_r '':'' (k @ CHR '':'' # v) = Some (Some k, v)"
    by (rule strtok_r_token(1)) (use k in auto)
  moreover have "strtok_r '':'' v = None"
  proof -
    obtain c v' where c: "v = c # v'" "c \<noteq> CHR '':''" "c \<noteq> NUL" using v by (cases v) auto
    have "\<forall>x\<in>set v'. x \<noteq> CHR '':'' \<and> x \<noteq> NUL" using v(1) c(1) by auto
    then have e: "dropWhile (\<lambda>c. c \<noteq> CHR '':'' \<and> c \<noteq> NUL) v' = []" by (simp add: dropWhile_eq_Nil_conv)
    show ?thesis unfolding c(1) using c(2,3) by (simp add: strtok_r_def e)
  qed
  moreover have "vget (k @ CHR '':'' # v) 0 = Some (hd k)"
    using k(1) by (simp add: vget_def in_range_def hd_conv_nth nth_append)
  ultimately show ?thesis using squeeze_line_no_spaces [OF s] assms(3)
    by (simp add: parse_line_def)
qed

theorem line_without_space_overreads_witness: "parse_line ''PORT:8080'' = None"
  using line_without_space_overreads [of "''PORT''" "''8080''"] by (simp add: word_ok_def)

text \<open>When the kernel returns the file in two pieces, the second overwrites the start of the
  first: every piece is stored at the beginning of the vector, so what is parsed is not the file.\<close>

theorem short_read_overwrites_config:
  assumes "p \<noteq> []" "q \<noteq> []" "int (length (p @ q)) < 2 ^ 31"
  shows "read_config [Some p, Some q] 0 (int (length (p @ q))) (replicate (length (p @ q) + 1) NUL) =
    Some (q @ drop (length q) (p @ replicate (length q + 1) NUL), int (length (p @ q)))"
proof -
  have pos: "0 < length p" "0 < length q" using assms by auto
  have r: "replicate (length (p @ q) + 1) NUL = replicate (length p) NUL @ replicate (length q + 1) NUL"
    by (simp only: length_append add.assoc replicate_add)
  show ?thesis unfolding r using pos assms(3)
    by (simp add: read_config.simps u64_small i32_small add_nonneg_eq_0_iff)
qed

theorem short_read_overwrites_config_witness:
  "read_config [Some ''PORT: '', Some ''80''] 0 8 (replicate 9 NUL) = Some (''80RT: '' @ [NUL, NUL, NUL], 8)"
  using short_read_overwrites_config [of "''PORT: ''" "''80''"] by (simp add: eval_nat_numeral)

end
