(* ===== verification/Http.thy ===== *)
theory Http
  imports C_Strings Ws_Codec Config
begin

text \<open>
  The HTTP side of the web server: recognising a request (\<open>is_valid_http_req\<close>), taking its first line
  and its headers apart (the start of \<open>read_cb\<close> in \<open>web_server/callbacks.tcc\<close>), the content type and
  the headers of a response (\<open>web_server/web_server.tcc\<close>).

  Text is a \<open>string\<close>; \<open>bytes_of\<close> and \<open>str_of\<close> convert to and from the bytes of the TCP layer. An
  exception thrown by \<open>std::string::substr\<close> and a null pointer given to \<open>strcmp\<close> or \<open>std::string\<close> are
  \<open>None\<close>.
\<close>

definition bytes_of :: "string \<Rightarrow> bytes" where
  "bytes_of s = map of_char s"

definition str_of :: "bytes \<Rightarrow> string" where
  "str_of bs = map (\<lambda>b. char_of (unat b)) bs"

section \<open>Recognising a request\<close>

definition http_types :: "string list" where
  "http_types = [''GET '', ''POST '', ''PUT '', ''DELETE '', ''PATCH '']"

text \<open>The body of the two loops: clears the bit of a method whose character differs.\<close>

definition check_char :: "string \<Rightarrow> nat \<times> nat \<Rightarrow> 8 word \<Rightarrow> 8 word" where
  "check_char buff = (\<lambda>(i, j) valid.
     if i < length (http_types ! j) \<and> drop_bit j valid AND 1 \<noteq> 0 \<and> http_types ! j ! i \<noteq> buff ! i
     then valid AND (0x1f XOR push_bit j 1) else valid)"

definition is_valid_http_req :: "string \<Rightarrow> int \<Rightarrow> bool option" where
  "is_valid_http_req buff len =
     (if len < 16 then Some False
      else if length buff < 7 then None
      else Some (fold (check_char buff) [(i, j). i \<leftarrow> [0..<7], j \<leftarrow> [0..<5]] 0x1f \<noteq> 0))"

section \<open>Taking a request apart\<close>

text \<open>\<open>s.find(sub) != npos\<close> and \<open>s.substr(n)\<close>.\<close>

fun contains :: "string \<Rightarrow> string \<Rightarrow> bool" where
  "contains sub [] \<longleftrightarrow> sub = []"
| "contains sub (c # cs) \<longleftrightarrow> take (length sub) (c # cs) = sub \<or> contains sub cs"

definition substr :: "nat \<Rightarrow> string \<Rightarrow> string option" where
  "substr n s = (if n \<le> length s then Some (drop n s) else None)"

definition websocket_key_token :: string where
  "websocket_key_token = ''Sec-WebSocket-Key: ''"

fun scan_headers :: "string list \<Rightarrow> bool \<Rightarrow> string \<Rightarrow> (bool \<times> string) option" where
  "scan_headers [] accept_bytes sec_websocket_key = Some (accept_bytes, sec_websocket_key)"
| "scan_headers (h # hs) accept_bytes sec_websocket_key = do {
     let accept_bytes = (accept_bytes \<or> contains ''Range: bytes='' h);
     sec_websocket_key \<leftarrow> (if contains ''Sec-WebSocket-Key'' h
       then substr (length websocket_key_token) h else Some sec_websocket_key);
     scan_headers hs accept_bytes sec_websocket_key
   }"

record http_request =
  hr_is_GET :: bool
  hr_path :: string
  hr_accept_bytes :: bool
  hr_websocket_key :: string

definition parse_request :: "string \<Rightarrow> http_request option" where
  "parse_request buffer = do {
     headers \<leftarrow> tokens [CR, LF] buffer;
     (accept_bytes, sec_websocket_key) \<leftarrow> scan_headers headers False '''';
     first \<leftarrow> (case headers of [] \<Rightarrow> None | h # _ \<Rightarrow> Some h);
     (verb, saveptr) \<leftarrow> strtok_r '' '' (first @ [NUL]);
     verb \<leftarrow> verb;
     (target, saveptr) \<leftarrow> strtok_r '' '' saveptr;
     target \<leftarrow> target;
     Some \<lparr>hr_is_GET = (verb = ''GET''), hr_path = drop 1 target, hr_accept_bytes = accept_bytes,
           hr_websocket_key = sec_websocket_key\<rparr>
   }"

text \<open>The decision of \<open>get_process\<close>: the first component of the path is \<open>ws\<close> and a key was sent.\<close>

definition is_ws_request :: "string \<Rightarrow> string \<Rightarrow> bool option" where
  "is_ws_request path sec_websocket_key = do {
     (token, saveptr) \<leftarrow> strtok_r ''/'' (path @ [NUL]);
     let subdir = (case token of Some t \<Rightarrow> t | None \<Rightarrow> '''');
     Some (subdir = ''ws'' \<and> sec_websocket_key \<noteq> '''')
   }"

definition file_path :: "string \<Rightarrow> string" where
  "file_path original_path = (if original_path = '''' then ''public/index.html'' else ''public/'' @ original_path)"

section \<open>Responses\<close>

definition content_type_of :: "string \<Rightarrow> string" where
  "content_type_of file_extension =
     (if file_extension = ''html'' \<or> file_extension = ''htm'' then ''Content-Type: text/html'' @ [CR, LF]
      else if file_extension = ''css'' then ''Content-Type: text/css'' @ [CR, LF]
      else if file_extension = ''js'' then ''Content-Type: text/javascript'' @ [CR, LF]
      else if file_extension = ''opus'' then ''Content-Type: audio/opus'' @ [CR, LF]
      else if file_extension = ''mp3'' then ''Content-Type: audio/mpeg'' @ [CR, LF]
      else if file_extension = ''mp4'' then ''Content-Type: video/mp4'' @ [CR, LF]
      else if file_extension = ''gif'' then ''Content-Type: image/gif'' @ [CR, LF]
      else if file_extension = ''png'' then ''Content-Type: image/png'' @ [CR, LF]
      else if file_extension = ''jpg'' \<or> file_extension = ''jpeg'' then ''Content-Type: image/jpeg'' @ [CR, LF]
      else if file_extension = ''txt'' then ''Content-Type: text/plain'' @ [CR, LF]
      else if file_extension = ''wasm'' then ''Content-Type: application/wasm'' @ [CR, LF]
      else ''Content-Type: application/octet-stream'' @ [CR, LF])"

text \<open>The loop over the parts between dots keeps the last one.\<close>

definition get_content_type :: "string \<Rightarrow> string option" where
  "get_content_type filepath = do {
     parts \<leftarrow> tokens ''.'' (filepath @ [NUL]);
     Some (content_type_of (if parts = [] then '''' else last parts))
   }"

text \<open>\<open>std::to_string\<close> of an unsigned number.\<close>

fun to_string :: "nat \<Rightarrow> string" where
  "to_string n = (if n < 10 then [char_of (48 + n)] else to_string (n div 10) @ [char_of (48 + n mod 10)])"

declare to_string.simps [simp del]

definition response_headers :: "int \<Rightarrow> string \<Rightarrow> string \<Rightarrow> bool \<Rightarrow> bool \<Rightarrow> string" where
  "response_headers response_code content_type content_length accept_bytes cached = (
     let header_first_line = (if response_code = 200 then ''HTTP/1.0 200 OK'' @ [CR, LF]
                              else ''HTTP/1.0 404 Not Found'' @ [CR, LF]);
         headers = (if accept_bytes
           then header_first_line @ content_type @ ''Accept-Ranges: bytes'' @ [CR, LF] @ ''Content-Length: '' @
             content_length @ [CR, LF] @ ''Range: bytes=0-'' @ content_length @ ''/''
           else header_first_line @ content_type @ ''Content-Length: '') @ content_length @ [CR, LF]
     in headers @
        (if \<not> cached then ''Cache-Control: no-cache, no-store, must-revalidate'' @ [CR, LF] @ ''Pragma: no-cache'' @ [CR, LF] @
           ''Expires: 0'' @ [CR, LF] else []) @ [CR, LF])"

text \<open>\<open>SHA1\<close> and \<open>EVP_EncodeBlock\<close> are OpenSSL's: their composition is a parameter.\<close>

definition get_accept_header_value :: "(string \<Rightarrow> string) \<Rightarrow> string \<Rightarrow> string" where
  "get_accept_header_value sha1_base64 input = vresize 28 NUL (sha1_base64 (input @ ''258EAFA5-E914-47DA-95CA-C5AB0DC85B11''))"

definition upgrade_response :: "(string \<Rightarrow> string) \<Rightarrow> string \<Rightarrow> string" where
  "upgrade_response sha1_base64 sec_websocket_key =
     ''HTTP/1.1 101 Switching Protocols'' @ [CR, LF] @ ''Upgrade: websocket'' @ [CR, LF] @ ''Connection: Upgrade'' @ [CR, LF] @
     ''Sec-WebSocket-Accept: '' @ get_accept_header_value sha1_base64 sec_websocket_key @ [CR, LF, CR, LF]"

end
