(* ===== verification/Web_Cache.thy ===== *)
theory Web_Cache
  imports Tcp_Base
begin

text \<open>
  The file cache of \<open>header/web_server/cache.h\<close>.

  The cache is an array of \<open>N\<close> items linked by \<open>next_item_idx\<close> and
  \<open>prev_item_idx\<close> from the least recently used item \<open>lowest_idx\<close> to the most
  recently used one \<open>highest_idx\<close>, two maps between file paths and items, a map from
  clients to the items they lock, and a map from inotify watches to items. The operations come
  first; the invariant and the refinement of an abstract least-recently-used store by them are
  in \<open>Web_Cache_Links\<close> and \<open>Web_Cache_Lru\<close>.

  The result of \<open>inotify_add_watch\<close> is an argument of \<open>try_insert_item\<close>; the watches
  the kernel holds are the field \<open>kernel_watches\<close>. The iteration order of the set of free
  items is an \<open>uorder\<close>.
\<close>

section \<open>Data\<close>

record tcp_client =
  last_requested_read_filepath :: string
  ws_client_idx :: int
  using_file :: bool

definition new_tcp_client_value :: tcp_client where
  "new_tcp_client_value = \<lparr>last_requested_read_filepath = '''', ws_client_idx = -1, using_file = False\<rparr>"

record cache_item =
  item_buffer :: bytes
  lock_number :: int
  next_item_idx :: int
  prev_item_idx :: int
  outdated :: bool
  watch :: int

definition new_cache_item :: cache_item where
  "new_cache_item = \<lparr>item_buffer = [], lock_number = 0, next_item_idx = -1, prev_item_idx = -1,
     outdated = False, watch = 0\<rparr>"

record cache_fetch_item =
  found :: bool
  fetch_size :: int
  fetch_buff :: cptr

definition not_found :: cache_fetch_item where
  "not_found = \<lparr>found = False, fetch_size = u64 (-1), fetch_buff = Nullptr\<rparr>"

record cache =
  filepath_to_cache_idx :: "string \<rightharpoonup> int"
  cache_idx_to_filepath :: "int \<rightharpoonup> string"
  cache_buffer :: "cache_item list"
  cache_free_idxs :: "int set"
  client_idx_to_cache_idx :: "int \<rightharpoonup> int"
  highest_idx :: int
  lowest_idx :: int
  watch_to_cache_idx :: "int \<rightharpoonup> int"
  kernel_watches :: "int set"

text \<open>The constructor, for a cache of \<open>N\<close> items.\<close>

definition new_cache :: "nat \<Rightarrow> cache" where
  "new_cache N = \<lparr>filepath_to_cache_idx = (\<lambda>_. None), cache_idx_to_filepath = (\<lambda>_. None),
     cache_buffer = replicate N new_cache_item, cache_free_idxs = {0..<int N},
     client_idx_to_cache_idx = (\<lambda>_. None), highest_idx = -1, lowest_idx = -1,
     watch_to_cache_idx = (\<lambda>_. None), kernel_watches = {}\<rparr>"

section \<open>Operations\<close>

definition mod_item :: "int \<Rightarrow> (cache_item \<Rightarrow> cache_item) \<Rightarrow> cache \<Rightarrow> cache option" where
  "mod_item i f c = do { b \<leftarrow> vmod (cache_buffer c) i f; Some (c\<lparr>cache_buffer := b\<rparr>) }"

text \<open>
  \<open>{ true, &buffer[0], buffer.size() }\<close>; \<open>operator[]\<close> on an empty vector is
  undefined.
\<close>

definition found_item :: "int \<Rightarrow> cache \<Rightarrow> cache_fetch_item option" where
  "found_item i c = do {
     it \<leftarrow> vget (cache_buffer c) i;
     if item_buffer it = [] then None
     else Some \<lparr>found = True, fetch_size = int (length (item_buffer it)),
                 fetch_buff = Ptr (Cache_slot i) (item_buffer it)\<rparr>
   }"

text \<open>Removing the watch of an outdated item, freeing its index and resetting it.\<close>

definition drop_outdated :: "int \<Rightarrow> cache \<Rightarrow> cache option" where
  "drop_outdated i c = do {
     it \<leftarrow> vget (cache_buffer c) i;
     let c = c\<lparr>kernel_watches := kernel_watches c - {watch it},
               watch_to_cache_idx := (watch_to_cache_idx c)(watch it := None),
               cache_free_idxs := insert i (cache_free_idxs c)\<rparr>;
     mod_item i (\<lambda>_. new_cache_item) c
   }"

text \<open>Taking an item with a successor out of the list.\<close>

definition unlink_item :: "cache_item \<Rightarrow> cache \<Rightarrow> cache option" where
  "unlink_item it c =
     (if prev_item_idx it \<noteq> -1 then do {
        c \<leftarrow> mod_item (prev_item_idx it) (\<lambda>p. p\<lparr>next_item_idx := next_item_idx it\<rparr>) c;
        mod_item (next_item_idx it) (\<lambda>n. n\<lparr>prev_item_idx := prev_item_idx it\<rparr>) c
      } else do {
        c \<leftarrow> mod_item (next_item_idx it) (\<lambda>n. n\<lparr>prev_item_idx := -1\<rparr>) c;
        Some (c\<lparr>lowest_idx := next_item_idx it\<rparr>)
      })"

definition fetch_item ::
    "string \<Rightarrow> int \<Rightarrow> tcp_client \<Rightarrow> cache \<Rightarrow> (cache \<times> tcp_client \<times> cache_fetch_item) option" where
  "fetch_item filepath client_idx client c =
     (case filepath_to_cache_idx c filepath of
        None \<Rightarrow> Some (c, client, not_found)
      | Some current_idx \<Rightarrow> do {
          let client = client\<lparr>using_file := True\<rparr>;
          c \<leftarrow> mod_item current_idx (\<lambda>it. it\<lparr>lock_number := lock_number it + 1\<rparr>) c;
          let c = c\<lparr>client_idx_to_cache_idx := (client_idx_to_cache_idx c)(client_idx \<mapsto> current_idx)\<rparr>;
          it \<leftarrow> vget (cache_buffer c) current_idx;
          if next_item_idx it = -1 then
            if \<not> outdated it then do {
              r \<leftarrow> found_item current_idx c;
              Some (c, client, r)
            } else do {
              c \<leftarrow> (if prev_item_idx it \<noteq> -1
                    then mod_item (prev_item_idx it) (\<lambda>p. p\<lparr>next_item_idx := -1\<rparr>) c else Some c);
              c \<leftarrow> drop_outdated current_idx c;
              Some (c, client, not_found)
            }
          else do {
            c \<leftarrow> unlink_item it c;
            if outdated it then do {
              c \<leftarrow> drop_outdated current_idx c;
              Some (c, client, not_found)
            } else do {
              c \<leftarrow> mod_item (highest_idx c) (\<lambda>h. h\<lparr>next_item_idx := current_idx\<rparr>) c;
              c \<leftarrow> mod_item current_idx
                    (\<lambda>x. x\<lparr>next_item_idx := -1, prev_item_idx := highest_idx c\<rparr>) c;
              let c = c\<lparr>highest_idx := current_idx\<rparr>;
              r \<leftarrow> found_item current_idx c;
              Some (c, client, r)
            }
          }
        })"

text \<open>Choosing the item for an insertion: a free one, or the lowest one if nobody uses it.\<close>

definition take_lowest :: "cache \<Rightarrow> (cache \<times> int) option" where
  "take_lowest c = do {
     low \<leftarrow> vget (cache_buffer c) (lowest_idx c);
     if lock_number low = 0 then do {
       c \<leftarrow> mod_item (next_item_idx low) (\<lambda>n. n\<lparr>prev_item_idx := -1\<rparr>) c;
       let c = c\<lparr>kernel_watches := kernel_watches c - {watch low},
                 watch_to_cache_idx := (watch_to_cache_idx c)(watch low := None)\<rparr>;
       c \<leftarrow> mod_item (lowest_idx c) (\<lambda>_. new_cache_item) c;
       let path = (case cache_idx_to_filepath c (lowest_idx c) of Some p \<Rightarrow> p | None \<Rightarrow> '''');
       let c = c\<lparr>filepath_to_cache_idx := (filepath_to_cache_idx c)(path := None),
                 cache_idx_to_filepath := (cache_idx_to_filepath c)(lowest_idx c := None)\<rparr>;
       Some (c\<lparr>lowest_idx := next_item_idx low\<rparr>, lowest_idx c)
     } else Some (c, -1)
   }"

definition choose_item :: "uorder \<Rightarrow> cache \<Rightarrow> (cache \<times> int) option" where
  "choose_item ord c =
     (if cache_free_idxs c \<noteq> {} then
        let current_idx = cbegin ord (cache_free_idxs c);
            c = c\<lparr>cache_free_idxs := cache_free_idxs c - {current_idx}\<rparr>
        in Some (if lowest_idx c = -1 then c\<lparr>lowest_idx := current_idx\<rparr> else c, current_idx)
      else take_lowest c)"

text \<open>Linking the chosen item in as the most recently used one.\<close>

definition place_item :: "int \<Rightarrow> string \<Rightarrow> bytes \<Rightarrow> int \<Rightarrow> cache \<Rightarrow> cache option" where
  "place_item wd filepath buff current_idx c = do {
     c \<leftarrow> (if highest_idx c \<noteq> -1
           then mod_item (highest_idx c) (\<lambda>h. h\<lparr>next_item_idx := current_idx\<rparr>) c else Some c);
     let c = c\<lparr>filepath_to_cache_idx := (filepath_to_cache_idx c)(filepath \<mapsto> current_idx),
               cache_idx_to_filepath := (cache_idx_to_filepath c)(current_idx \<mapsto> filepath),
               watch_to_cache_idx := (watch_to_cache_idx c)(wd \<mapsto> current_idx),
               kernel_watches := (if wd = -1 then kernel_watches c else insert wd (kernel_watches c))\<rparr>;
     c \<leftarrow> mod_item current_idx
           (\<lambda>it. it\<lparr>watch := wd, prev_item_idx := highest_idx c, next_item_idx := -1,
                     item_buffer := buff\<rparr>) c;
     Some (c\<lparr>highest_idx := current_idx\<rparr>)
   }"

definition try_insert_item ::
    "uorder \<Rightarrow> int \<Rightarrow> int \<Rightarrow> string \<Rightarrow> bytes \<Rightarrow> cache \<Rightarrow> (cache \<times> bool) option" where
  "try_insert_item ord wd client_idx filepath buff c = do {
     (c, current_idx) \<leftarrow> choose_item ord c;
     if current_idx \<noteq> -1
     then do { c \<leftarrow> place_item wd filepath buff current_idx c; Some (c, True) }
     else Some (c, False)
   }"

definition inotify_event_handler :: "int \<Rightarrow> cache \<Rightarrow> cache option" where
  "inotify_event_handler wd c =
     (case watch_to_cache_idx c wd of
        None \<Rightarrow> Some c
      | Some cache_idx \<Rightarrow>
          if u64 cache_idx < int (length (cache_buffer c))
          then mod_item cache_idx (\<lambda>it. it\<lparr>outdated := True\<rparr>) c
          else Some c)"

text \<open>\<open>client_idx_to_cache_idx[client_idx]\<close> creates an entry \<open>0\<close> for an unknown client.\<close>

definition finished_with_item :: "int \<Rightarrow> tcp_client \<Rightarrow> cache \<Rightarrow> (cache \<times> tcp_client) option" where
  "finished_with_item client_idx client c =
     (if using_file client then
        let cache_idx = (case client_idx_to_cache_idx c client_idx of Some i \<Rightarrow> i | None \<Rightarrow> 0);
            c = c\<lparr>client_idx_to_cache_idx := (client_idx_to_cache_idx c)(client_idx \<mapsto> cache_idx)\<rparr>
        in do {
          c \<leftarrow> mod_item cache_idx (\<lambda>it. it\<lparr>lock_number := lock_number it - 1\<rparr>) c;
          Some (c, client\<lparr>using_file := False\<rparr>)
        }
      else Some (c, client))"

end
