(* ===== verification/Threads.thy ===== *)
theory Threads
  imports Tcp_Base
begin

text \<open>
  The communication between the program thread and the server threads,
  \<open>header/web_server/web_server.h\<close>: messages, the two queues of a server, and the event counters
  that wake the two sides.

  The queues are \<open>moodycamel::ReaderWriterQueue\<close>s, a library of its own: the operations take them
  as a parameter \<open>queue_impl\<close>, and \<open>is_fifo\<close> states what its documentation promises, that
  elements come out in the order they went in.
\<close>

section \<open>Messages\<close>

datatype message_type = websocket_broadcast | broadcast_finished

record message_post_data =
  msg_type :: message_type
  msg_buff_ptr :: cptr
  msg_length :: int
  msg_item_idx :: int
  msg_additional_info :: int

definition new_message :: message_post_data where
  "new_message = \<lparr>msg_type = websocket_broadcast, msg_buff_ptr = Nullptr, msg_length = 0,
     msg_item_idx = 0, msg_additional_info = 0\<rparr>"

section \<open>Queues\<close>

record 'q queue_impl =
  q_emplace :: "message_post_data \<Rightarrow> 'q \<Rightarrow> 'q"
  q_try_dequeue :: "'q \<Rightarrow> (message_post_data \<times> 'q) option"

definition is_fifo :: "'q queue_impl \<Rightarrow> ('q \<Rightarrow> message_post_data list) \<Rightarrow> bool" where
  "is_fifo Q contents \<longleftrightarrow>
     (\<forall>m q. contents (q_emplace Q m q) = contents q @ [m]) \<and>
     (\<forall>q. case q_try_dequeue Q q of
        None \<Rightarrow> contents q = []
      | Some (m, q') \<Rightarrow> contents q = m # contents q')"

text \<open>A queue kept as a list, for concrete runs.\<close>

definition list_queue :: "message_post_data list queue_impl" where
  "list_queue = \<lparr>q_emplace = (\<lambda>m q. q @ [m]),
     q_try_dequeue = (\<lambda>q. case q of [] \<Rightarrow> None | m # q' \<Rightarrow> Some (m, q'))\<rparr>"

lemma list_queue_fifo: "is_fifo list_queue id"
  by (auto simp: is_fifo_def list_queue_def split: list.splits option.splits)

lemma fifo_emplace: "is_fifo Q contents \<Longrightarrow> contents (q_emplace Q m q) = contents q @ [m]"
  by (simp add: is_fifo_def)

lemma fifo_dequeue:
  assumes "is_fifo Q contents"
  shows "q_try_dequeue Q q = None \<longleftrightarrow> contents q = []"
    "q_try_dequeue Q q = Some (m, q') \<Longrightarrow> contents q = m # contents q'"
proof -
  have "case q_try_dequeue Q q of None \<Rightarrow> contents q = [] | Some (m, q') \<Rightarrow> contents q = m # contents q'"
    using assms unfolding is_fifo_def by blast
  then show "q_try_dequeue Q q = None \<longleftrightarrow> contents q = []"
    "q_try_dequeue Q q = Some (m, q') \<Longrightarrow> contents q = m # contents q'"
    by (auto split: option.splits)
qed

section \<open>The channel of a server thread\<close>

text \<open>
  The part of \<open>basic_web_server\<close> that both threads use. \<open>server_efd\<close> is the counter of the TCP
  server's notification event, \<open>central_efd\<close> that of \<open>central_communication_eventfd\<close>;
  \<open>tcp_server_set\<close> says that \<open>tcp_server\<close> is not null, \<open>server_kill\<close> is the counter of
  the TCP server's kill event.
\<close>

record 'q channel =
  to_server_queue :: 'q
  to_program_queue :: 'q
  tcp_server_set :: bool
  server_efd :: nat
  server_kill :: nat
  central_efd :: nat
  central_communication_eventfd :: int

definition post_message_to_server_thread ::
    "'q queue_impl \<Rightarrow> message_type \<Rightarrow> cptr \<Rightarrow> int \<Rightarrow> int \<Rightarrow> int \<Rightarrow> 'q channel \<Rightarrow> 'q channel" where
  "post_message_to_server_thread Q mt buff_ptr len item_idx additional_info ch =
     (if \<not> tcp_server_set ch then ch
      else ch\<lparr>to_server_queue := q_emplace Q \<lparr>msg_type = mt, msg_buff_ptr = buff_ptr, msg_length = len,
                msg_item_idx = item_idx, msg_additional_info = additional_info\<rparr> (to_server_queue ch),
              server_efd := server_efd ch + 1\<rparr>)"

definition post_message_to_program ::
    "'q queue_impl \<Rightarrow> message_type \<Rightarrow> cptr \<Rightarrow> int \<Rightarrow> int \<Rightarrow> int \<Rightarrow> 'q channel \<Rightarrow> 'q channel" where
  "post_message_to_program Q mt buff_ptr len item_idx additional_info ch =
     (if \<not> tcp_server_set ch then ch
      else ch\<lparr>to_program_queue := q_emplace Q \<lparr>msg_type = mt, msg_buff_ptr = buff_ptr, msg_length = len,
                msg_item_idx = item_idx, msg_additional_info = additional_info\<rparr> (to_program_queue ch),
              central_efd := central_efd ch + 1\<rparr>)"

definition get_from_to_program_queue :: "'q queue_impl \<Rightarrow> 'q channel \<Rightarrow> message_post_data \<times> 'q channel" where
  "get_from_to_program_queue Q ch =
     (case q_try_dequeue Q (to_program_queue ch) of
        None \<Rightarrow> (new_message, ch)
      | Some (data, q) \<Rightarrow> (data, ch\<lparr>to_program_queue := q\<rparr>))"

definition get_from_to_server_queue :: "'q queue_impl \<Rightarrow> 'q channel \<Rightarrow> message_post_data \<times> 'q channel" where
  "get_from_to_server_queue Q ch =
     (case q_try_dequeue Q (to_server_queue ch) of
        None \<Rightarrow> (new_message, ch)
      | Some (data, q) \<Rightarrow> (data, ch\<lparr>to_server_queue := q\<rparr>))"

end
