(* ===== verification/Web_Server.thy ===== *)
theory Web_Server
  imports Http Web_Cache Ws_Codec Threads Tls_Server
begin

text \<open>
  The web server, \<open>basic_web_server<T>\<close> of \<open>web_server/web_server.tcc\<close> and
  \<open>web_server/websockets.tcc\<close>, and the callbacks of \<open>web_server/callbacks.tcc\<close> that connect it to
  the TCP server below and to the program thread.

  The object is the \<open>custom_obj\<close> of the TCP server, so an operation is a function on the server
  state. The template parameter \<open>T\<close> is a record \<open>tcp_ops\<close> of the operations whose code depends on
  it; \<open>plain_ops\<close> and \<open>tls_ops\<close> are the two instances. What the operating system and OpenSSL answer
  is a record \<open>web_env\<close>. Ending the program by \<open>fatal_error\<close> is \<open>None\<close>, as undefined behaviour is.
\<close>

section \<open>State\<close>

record ws_client =
  currently_writing :: int
  ws_close :: bool
  websocket_frames :: bytes
  receiving_data :: receiving_data_info
  ws_id :: int
  ws_tcp_idx :: int

definition new_ws_client_value :: ws_client where
  "new_ws_client_value = \<lparr>currently_writing = 0, ws_close = False, websocket_frames = [],
     receiving_data = new_receiving_data, ws_id = -1, ws_tcp_idx = -1\<rparr>"

record broadcast_data_items =
  bd_buff_ptr :: cptr
  bd_data_len :: int
  bd_uses :: int

definition new_broadcast_data_items :: broadcast_data_items where
  "new_broadcast_data_items = \<lparr>bd_buff_ptr = Nullptr, bd_data_len = u64 (-1), bd_uses = u64 (-1)\<rparr>"

record 'q web =
  web_cache :: cache
  inotify_fd :: int
  tcp_clients :: "tcp_client list"
  websocket_clients :: "ws_client list"
  ws_freed_indexes :: "int set"
  all_websocket_connections :: "int set"
  active_websocket_connections :: "int set"
  broadcast_data :: "broadcast_data_items list"
  web_channel :: "'q channel"

record 'q web_env =
  env_queue :: "'q queue_impl"
  env_order :: uorder
  env_open :: "string \<Rightarrow> int"
  env_stat :: "int \<Rightarrow> file_kind option"
  env_watch :: "string \<Rightarrow> int"
  env_sha1_base64 :: "string \<Rightarrow> string"

record ('c, 'w) tcp_ops =
  op_write_vec :: "int \<Rightarrow> bytes \<Rightarrow> ('c, 'w) op"
  op_write_ptr :: "int \<Rightarrow> cptr \<Rightarrow> int \<Rightarrow> ('c, 'w) op"
  op_broadcast :: "int list \<Rightarrow> int \<Rightarrow> cptr \<Rightarrow> int \<Rightarrow> int \<Rightarrow> ('c, 'w) op"
  op_close :: "int \<Rightarrow> ('c, 'w) op"

definition plain_ops :: "(unit, 'w) tcp_ops" where
  "plain_ops = \<lparr>op_write_vec = write_connection_vec, op_write_ptr = write_connection_ptr,
     op_broadcast = broadcast_message_ptr, op_close = close_connection\<rparr>"

definition tls_ops :: "'ssl wolfssl \<Rightarrow> (('ssl, unit) tls_client_ext, 'w) tcp_ops" where
  "tls_ops W = \<lparr>op_write_vec = tls_write_connection_vec W, op_write_ptr = tls_write_connection_ptr W,
     op_broadcast = tls_broadcast_message_ptr W, op_close = tls_close_connection W\<rparr>"

text \<open>An operation on the object alone, run on the server.\<close>

definition on_web :: "('q web \<Rightarrow> 'q web option) \<Rightarrow> ('c, 'q web) op" where
  "on_web f s = do { w \<leftarrow> f (custom_obj s); Some (s\<lparr>custom_obj := w\<rparr>) }"

section \<open>Clients\<close>

definition new_tcp_client :: "int \<Rightarrow> 'q web \<Rightarrow> 'q web option" where
  "new_tcp_client client_idx w = do {
     let cs = (if int (length (tcp_clients w)) \<le> client_idx + 1
               then vresize (nat (client_idx + 1)) new_tcp_client_value (tcp_clients w) else tcp_clients w);
     cs \<leftarrow> vset cs client_idx new_tcp_client_value;
     Some (w\<lparr>tcp_clients := cs\<rparr>)
   }"

definition kill_client :: "int \<Rightarrow> 'q web \<Rightarrow> 'q web option" where
  "kill_client client_idx w = do {
     c \<leftarrow> vget (tcp_clients w) client_idx;
     (cache', c) \<leftarrow> finished_with_item client_idx c (web_cache w);
     cs \<leftarrow> vset (tcp_clients w) client_idx (c\<lparr>using_file := False\<rparr>);
     let ws = ws_client_idx c;
     let w = w\<lparr>web_cache := cache', tcp_clients := cs,
               all_websocket_connections := all_websocket_connections w - {ws}\<rparr>;
     Some (if client_idx \<in> active_websocket_connections w
           then w\<lparr>active_websocket_connections := active_websocket_connections w - {client_idx},
                  ws_freed_indexes := insert ws (ws_freed_indexes w)\<rparr>
           else w)
   }"

definition web_close_connection :: "('c, 'q web) tcp_ops \<Rightarrow> int \<Rightarrow> ('c, 'q web) op" where
  "web_close_connection T client_idx s = do {
     s \<leftarrow> on_web (kill_client client_idx) s;
     op_close T client_idx s
   }"

section \<open>Files\<close>

definition send_file_request ::
    "'q web_env \<Rightarrow> ('c, 'q web) tcp_ops \<Rightarrow> int \<Rightarrow> string \<Rightarrow> bool \<Rightarrow> int \<Rightarrow> ('c, 'q web) server \<Rightarrow>
      (bool \<times> ('c, 'q web) server) option" where
  "send_file_request E T client_idx filepath accept_bytes response_code s = (
     let file_fd = env_open E filepath in
     if file_fd < 0 then Some (False, s)
     else case get_file_size (env_stat E file_fd) of
       Inl _ \<Rightarrow> None
     | Inr file_size \<Rightarrow> do {
         let content_length = to_string (nat file_size);
         content_type \<leftarrow> get_content_type filepath;
         c \<leftarrow> vget (tcp_clients (custom_obj s)) client_idx;
         (cache', c, cache_data) \<leftarrow> fetch_item filepath client_idx c (web_cache (custom_obj s));
         cs \<leftarrow> vset (tcp_clients (custom_obj s)) client_idx c;
         let s = s\<lparr>custom_obj := (custom_obj s)\<lparr>web_cache := cache', tcp_clients := cs\<rparr>\<rparr>;
         let headers = response_headers response_code content_type content_length accept_bytes (found cache_data);
         let size = nat (u64 (file_size + int (length headers)));
         if size < length headers then None
         else if found cache_data then do {
           s \<leftarrow> op_write_ptr T client_idx (fetch_buff cache_data) (fetch_size cache_data) s;
           Some (True, s)
         } else do {
           let send_buffer = bytes_of headers @ replicate (size - length headers) 0;
           cs \<leftarrow> vset cs client_idx (c\<lparr>last_requested_read_filepath := filepath\<rparr>);
           s \<leftarrow> custom_read_req file_fd file_size client_idx send_buffer (int (length headers))
                  (s\<lparr>custom_obj := (custom_obj s)\<lparr>tcp_clients := cs\<rparr>\<rparr>);
           Some (True, s)
         }
       })"

section \<open>WebSockets\<close>

definition new_ws_client :: "int \<Rightarrow> 'q web \<Rightarrow> (int \<times> 'q web) option" where
  "new_ws_client client_idx w = do {
     (index, w) \<leftarrow>
       (if ws_freed_indexes w \<noteq> {} then do {
          let index = Min (ws_freed_indexes w);
          freed_client \<leftarrow> vget (websocket_clients w) index;
          let new_id = (ws_id freed_client + 1) mod 100;
          wcs \<leftarrow> vset (websocket_clients w) index (new_ws_client_value\<lparr>ws_id := new_id\<rparr>);
          Some (index, w\<lparr>ws_freed_indexes := ws_freed_indexes w - {index}, websocket_clients := wcs\<rparr>)
        } else Some (int (length (websocket_clients w)),
                     w\<lparr>websocket_clients := websocket_clients w @ [new_ws_client_value]\<rparr>));
     wcs \<leftarrow> vmod (websocket_clients w) index (\<lambda>c. c\<lparr>ws_tcp_idx := client_idx\<rparr>);
     Some (index, w\<lparr>websocket_clients := wcs,
       all_websocket_connections := insert index (all_websocket_connections w),
       active_websocket_connections := insert client_idx (active_websocket_connections w)\<rparr>)
   }"

definition websocket_accept_read_cb ::
    "'q web_env \<Rightarrow> ('c, 'q web) tcp_ops \<Rightarrow> string \<Rightarrow> int \<Rightarrow> ('c, 'q web) op" where
  "websocket_accept_read_cb E T sec_websocket_key client_idx s = do {
     let send_buffer = bytes_of (upgrade_response (env_sha1_base64 E) sec_websocket_key);
     (ws, w) \<leftarrow> new_ws_client client_idx (custom_obj s);
     cs \<leftarrow> vmod (tcp_clients w) client_idx (\<lambda>c. c\<lparr>ws_client_idx := ws\<rparr>);
     op_write_vec T client_idx send_buffer (s\<lparr>custom_obj := w\<lparr>tcp_clients := cs\<rparr>\<rparr>)
   }"

definition upd_ws :: "int \<Rightarrow> (ws_client \<Rightarrow> ws_client) \<Rightarrow> 'q web \<Rightarrow> 'q web option" where
  "upd_ws ws f w = do { wcs \<leftarrow> vmod (websocket_clients w) ws f; Some (w\<lparr>websocket_clients := wcs\<rparr>) }"

definition websocket_write :: "('c, 'q web) tcp_ops \<Rightarrow> int \<Rightarrow> bytes \<Rightarrow> ('c, 'q web) op" where
  "websocket_write T ws buff s = do {
     s \<leftarrow> on_web (upd_ws ws (\<lambda>c. c\<lparr>currently_writing := currently_writing c + 1\<rparr>)) s;
     c \<leftarrow> vget (websocket_clients (custom_obj s)) ws;
     op_write_vec T (ws_tcp_idx c) buff s
   }"

definition close_ws_connection_req :: "('c, 'q web) tcp_ops \<Rightarrow> int \<Rightarrow> bool \<Rightarrow> ('c, 'q web) op" where
  "close_ws_connection_req T ws client_already_closed s = do {
     c \<leftarrow> vget (websocket_clients (custom_obj s)) ws;
     s \<leftarrow> on_web (upd_ws ws (\<lambda>c. c\<lparr>currently_writing := currently_writing c + 1, websocket_frames := []\<rparr>)) s;
     s \<leftarrow> on_web (\<lambda>w. Some (w\<lparr>active_websocket_connections := active_websocket_connections w - {ws_tcp_idx c}\<rparr>)) s;
     if \<not> client_already_closed
     then op_write_vec T (ws_tcp_idx c) (make_ws_frame [] close_connection_op) s
     else Some s
   }"

definition close_ws_connection_potential_confirm :: "('c, 'q web) tcp_ops \<Rightarrow> int \<Rightarrow> ('c, 'q web) op" where
  "close_ws_connection_potential_confirm T ws s = do {
     c \<leftarrow> vget (websocket_clients (custom_obj s)) ws;
     if currently_writing c = 1 then
       if ws_close c then do {
         s \<leftarrow> web_close_connection T (ws_tcp_idx c) s;
         on_web (\<lambda>w. Some (w\<lparr>ws_freed_indexes := insert ws (ws_freed_indexes w)\<rparr>)) s
       } else Some s
     else on_web (upd_ws ws (\<lambda>c. c\<lparr>currently_writing := currently_writing c - 1\<rparr>)) s
   }"

definition websocket_process_write_cb :: "('c, 'q web) tcp_ops \<Rightarrow> int \<Rightarrow> ('c, 'q web) server \<Rightarrow> (bool \<times> ('c, 'q web) server) option" where
  "websocket_process_write_cb T client_idx s = do {
     c \<leftarrow> vget (tcp_clients (custom_obj s)) client_idx;
     if ws_client_idx c \<in> all_websocket_connections (custom_obj s) then do {
       s \<leftarrow> close_ws_connection_potential_confirm T (ws_client_idx c) s;
       Some (True, s)
     } else Some (False, s)
   }"

text \<open>The frames of a read, or \<open>None\<close> when the connection is being closed because of it.\<close>

definition get_ws_frames ::
    "('c, 'q web) tcp_ops \<Rightarrow> bytes \<Rightarrow> int \<Rightarrow> int \<Rightarrow> ('c, 'q web) server \<Rightarrow> (bytes list option \<times> ('c, 'q web) server) option" where
  "get_ws_frames T buffer len ws s = do {
     c \<leftarrow> vget (websocket_clients (custom_obj s)) ws;
     r \<leftarrow> cut_frames buffer len (receiving_data c);
     r \<leftarrow> r;
     case r of
       Inl _ \<Rightarrow> do { s \<leftarrow> close_ws_connection_req T ws False s; Some (None, s) }
     | Inr (frames, rd) \<Rightarrow> do {
         s \<leftarrow> on_web (upd_ws ws (\<lambda>c. c\<lparr>receiving_data := rd\<rparr>)) s;
         Some (Some frames, s)
       }
   }"

text \<open>
  One frame. The result says whether the connection is being closed and what \<open>frame_contents\<close> is
  afterwards: the message for the application, if it is not empty.
\<close>

definition process_frame ::
    "('c, 'q web) tcp_ops \<Rightarrow> int \<Rightarrow> bytes \<Rightarrow> bytes \<Rightarrow> ('c, 'q web) server \<Rightarrow> (bool \<times> bytes \<times> ('c, 'q web) server) option" where
  "process_frame T ws frame_contents frame s =
     (if frame = [] then Some (False, frame_contents, s)
      else do {
        (code, data) \<leftarrow> decode_websocket_frame frame;
        c \<leftarrow> vget (websocket_clients (custom_obj s)) ws;
        if code = 1 then do {
          s \<leftarrow> on_web (upd_ws ws (\<lambda>c. c\<lparr>websocket_frames := []\<rparr>)) s;
          Some (False, websocket_frames c @ data, s)
        } else if code = -2 then do {
          s \<leftarrow> on_web (upd_ws ws (\<lambda>c. c\<lparr>websocket_frames := data @ websocket_frames c\<rparr>)) s;
          Some (False, [], s)
        } else if code = -3 then do {
          s \<leftarrow> on_web (upd_ws ws (\<lambda>c. c\<lparr>currently_writing := currently_writing c + 1\<rparr>)) s;
          s \<leftarrow> close_ws_connection_req T ws False s;
          Some (True, [], s)
        } else if code = 2 then
          if data = [] then None
          else do {
            s \<leftarrow> websocket_write T ws (make_ws_frame data pong) s;
            Some (False, [], s)
          }
        else Some (False, [], s)
      })"

fun process_frames ::
    "('c, 'q web) tcp_ops \<Rightarrow> int \<Rightarrow> bytes \<Rightarrow> bytes list \<Rightarrow> ('c, 'q web) server \<Rightarrow> (bool \<times> bytes list \<times> ('c, 'q web) server) option" where
  "process_frames T ws frame_contents [] s = Some (False, [], s)"
| "process_frames T ws frame_contents (frame # frames) s = do {
     (closed, frame_contents, s) \<leftarrow> process_frame T ws frame_contents frame s;
     let messages = (if frame_contents = [] then [] else [frame_contents]);
     if closed then Some (True, messages, s)
     else do {
       (closed, messages', s) \<leftarrow> process_frames T ws frame_contents frames s;
       Some (closed, messages @ messages', s)
     }
   }"

definition websocket_process_read_cb :: "('c, 'q web) tcp_ops \<Rightarrow> int \<Rightarrow> bytes \<Rightarrow> int \<Rightarrow> ('c, 'q web) op" where
  "websocket_process_read_cb T client_idx buffer len s = do {
     c \<leftarrow> vget (tcp_clients (custom_obj s)) client_idx;
     let ws = ws_client_idx c;
     (frames, s) \<leftarrow> get_ws_frames T buffer len ws s;
     (closed, messages, s) \<leftarrow> (case frames of None \<Rightarrow> Some (False, [], s) | Some fs \<Rightarrow> process_frames T ws [] fs s);
     if \<not> closed then read_connection client_idx s else Some s
   }"

section \<open>Requests\<close>

definition get_process ::
    "'q web_env \<Rightarrow> ('c, 'q web) tcp_ops \<Rightarrow> string \<Rightarrow> bool \<Rightarrow> string \<Rightarrow> int \<Rightarrow> ('c, 'q web) server \<Rightarrow>
      (bool \<times> ('c, 'q web) server) option" where
  "get_process E T path accept_bytes sec_websocket_key client_idx s = do {
     ws \<leftarrow> is_ws_request path sec_websocket_key;
     if ws then do {
       s \<leftarrow> websocket_accept_read_cb E T sec_websocket_key client_idx s;
       Some (True, s)
     } else send_file_request E T client_idx (file_path path) accept_bytes 200 s
   }"

section \<open>The callbacks\<close>

definition accept_callback :: "int \<Rightarrow> ('c, 'q web) op" where
  "accept_callback client_idx s = on_web (new_tcp_client client_idx) s"

text \<open>A finished or dropped broadcast write; the last one tells the program thread.\<close>

definition broadcast_done :: "'q web_env \<Rightarrow> int \<Rightarrow> 'q web \<Rightarrow> 'q web option" where
  "broadcast_done E info w =
     (if info \<noteq> -1 then do {
        item \<leftarrow> vget (broadcast_data w) info;
        let uses = u64 (bd_uses item - 1);
        bd \<leftarrow> vset (broadcast_data w) info (item\<lparr>bd_uses := uses\<rparr>);
        let w = w\<lparr>broadcast_data := bd\<rparr>;
        Some (if uses = 0
              then w\<lparr>web_channel := post_message_to_program (env_queue E) broadcast_finished (bd_buff_ptr item)
                       (bd_data_len item) info (u64 (-1)) (web_channel w)\<rparr>
              else w)
      } else Some w)"

definition close_callback :: "'q web_env \<Rightarrow> int \<Rightarrow> int \<Rightarrow> ('c, 'q web) op" where
  "close_callback E client_idx broadcast_additional_info s = do {
     s \<leftarrow> on_web (broadcast_done E broadcast_additional_info) s;
     on_web (kill_client client_idx) s
   }"

definition write_callback :: "'q web_env \<Rightarrow> ('c, 'q web) tcp_ops \<Rightarrow> int \<Rightarrow> int \<Rightarrow> ('c, 'q web) op" where
  "write_callback E T client_idx broadcast_additional_info s = do {
     s \<leftarrow> on_web (broadcast_done E broadcast_additional_info) s;
     (used, s) \<leftarrow> websocket_process_write_cb T client_idx s;
     if \<not> used then web_close_connection T client_idx s else Some s
   }"

definition event_callback :: "'q web_env \<Rightarrow> ('c, 'q web) tcp_ops \<Rightarrow> ('c, 'q web) op" where
  "event_callback E T s = do {
     let w = custom_obj s;
     let client_idxs = active_websocket_connections w;
     let (data, ch) = get_from_to_server_queue (env_queue E) (web_channel w);
     let item_idx = msg_item_idx data;
     let data_vec = (if int (length (broadcast_data w)) \<le> u64 item_idx
                     then vresize (nat (u64 (item_idx + 1))) new_broadcast_data_items (broadcast_data w)
                     else broadcast_data w);
     let w = w\<lparr>web_channel := ch, broadcast_data := data_vec\<rparr>;
     if card client_idxs > 0 then do {
       data_vec \<leftarrow> vset data_vec item_idx \<lparr>bd_buff_ptr = msg_buff_ptr data, bd_data_len = msg_length data,
                                           bd_uses = int (card client_idxs)\<rparr>;
       op_broadcast T (uord_list (env_order E) client_idxs) (int (card client_idxs)) (msg_buff_ptr data)
         (msg_length data) item_idx (s\<lparr>custom_obj := w\<lparr>broadcast_data := data_vec\<rparr>\<rparr>)
     } else
       Some (s\<lparr>custom_obj := w\<lparr>web_channel := post_message_to_program (env_queue E) broadcast_finished (msg_buff_ptr data)
                (msg_length data) item_idx (u64 (-1)) ch\<rparr>\<rparr>)
   }"

text \<open>The watch descriptor at the start of an \<open>inotify_event\<close>, a little-endian \<open>int\<close>.\<close>

definition inotify_wd :: "bytes \<Rightarrow> int option" where
  "inotify_wd buff = (if length buff < 16 then None else Some (i32 (be_val (rev (take 4 buff)))))"

definition custom_read_callback ::
    "'q web_env \<Rightarrow> ('c, 'q web) tcp_ops \<Rightarrow> int \<Rightarrow> int \<Rightarrow> bytes \<Rightarrow> ('c, 'q web) op" where
  "custom_read_callback E T client_idx fd buff s =
     (if fd = inotify_fd (custom_obj s) then do {
        wd \<leftarrow> inotify_wd buff;
        s \<leftarrow> on_web (\<lambda>w. do { c \<leftarrow> inotify_event_handler wd (web_cache w); Some (w\<lparr>web_cache := c\<rparr>) }) s;
        custom_read_req (inotify_fd (custom_obj s)) 16 (-1) [] 0 s
      } else do {
        let s = s\<lparr>closed_fds := closed_fds s @ [fd]\<rparr>;
        c \<leftarrow> vget (tcp_clients (custom_obj s)) client_idx;
        let filepath = last_requested_read_filepath c;
        (cache', inserted) \<leftarrow> try_insert_item (env_order E) (env_watch E filepath) client_idx filepath buff (web_cache (custom_obj s));
        let s = s\<lparr>custom_obj := (custom_obj s)\<lparr>web_cache := cache'\<rparr>\<rparr>;
        if inserted then do {
          (cache', c, ret_data) \<leftarrow> fetch_item filepath client_idx c cache';
          cs \<leftarrow> vset (tcp_clients (custom_obj s)) client_idx c;
          op_write_ptr T client_idx (fetch_buff ret_data) (fetch_size ret_data)
            (s\<lparr>custom_obj := (custom_obj s)\<lparr>web_cache := cache', tcp_clients := cs\<rparr>\<rparr>)
        } else op_write_vec T client_idx buff s
      })"

definition read_callback :: "'q web_env \<Rightarrow> ('c, 'q web) tcp_ops \<Rightarrow> int \<Rightarrow> bytes \<Rightarrow> int \<Rightarrow> ('c, 'q web) op" where
  "read_callback E T client_idx buffer len s = do {
     http \<leftarrow> is_valid_http_req (str_of buffer) len;
     if http then do {
       r \<leftarrow> parse_request (str_of buffer);
       (ok, s) \<leftarrow> (if \<not> hr_is_GET r then Some (False, s)
                   else get_process E T (hr_path r) (hr_accept_bytes r) (hr_websocket_key r) client_idx s);
       if \<not> ok then map_option snd (send_file_request E T client_idx ''public/404.html'' False 400 s)
       else if client_idx \<in> active_websocket_connections (custom_obj s) then read_connection client_idx s
       else Some s
     } else if client_idx \<in> active_websocket_connections (custom_obj s) then do {
       s \<leftarrow> websocket_process_read_cb T client_idx buffer len s;
       read_connection client_idx s
     } else web_close_connection T client_idx s
   }"

definition web_callbacks :: "'q web_env \<Rightarrow> ('c, 'q web) tcp_ops \<Rightarrow> ('c, 'q web) callbacks" where
  "web_callbacks E T = \<lparr>accept_cb = Some accept_callback, close_cb = Some (close_callback E),
     read_cb = Some (read_callback E T), write_cb = Some (write_callback E T),
     event_cb = Some (event_callback E T), custom_read_cb = Some (custom_read_callback E T)\<rparr>"

section \<open>Starting\<close>

text \<open>A new web server; \<open>set_tcp_server\<close> gives it its TCP server and starts the read of inotify events.\<close>

definition new_web :: "'q channel \<Rightarrow> int \<Rightarrow> 'q web" where
  "new_web ch ifd = \<lparr>web_cache = new_cache 5, inotify_fd = ifd, tcp_clients = [], websocket_clients = [],
     ws_freed_indexes = {}, all_websocket_connections = {}, active_websocket_connections = {},
     broadcast_data = [], web_channel = ch\<rparr>"

definition set_tcp_server :: "('c, 'q web) op" where
  "set_tcp_server s = custom_read_req (inotify_fd (custom_obj s)) 16 (-1) [] 0
     (s\<lparr>custom_obj := (custom_obj s)\<lparr>web_channel := (web_channel (custom_obj s))\<lparr>tcp_server_set := True\<rparr>\<rparr>\<rparr>)"

section \<open>Server threads\<close>

text \<open>
  What a server thread gets from the operating system and wolfSSL: the event and timer descriptors, the
  results of \<open>getaddrinfo\<close> for a port, of \<open>listen\<close>, and of loading the certificates.
\<close>

record thread_env =
  th_notification_efd :: int
  th_kill_efd :: int
  th_timerfd :: int
  th_getaddrinfo :: "int \<Rightarrow> int"
  th_addresses :: "int \<Rightarrow> addr_entry list"
  th_listen :: "int \<Rightarrow> int"
  th_ctx_ok :: bool
  th_load_chain :: "string \<Rightarrow> int"
  th_load_key :: "string \<Rightarrow> int"

text \<open>The constructors of the two servers; the callbacks they store are the argument \<open>CB\<close> of the operations.\<close>

definition plain_server_new :: "thread_env \<Rightarrow> int \<Rightarrow> 'w \<Rightarrow> string + (unit, 'w) server" where
  "plain_server_new N listen_port obj =
     server_base (th_notification_efd N) (th_kill_efd N) (th_timerfd N) (th_getaddrinfo N listen_port)
       (th_addresses N listen_port) (th_listen N) obj"

text \<open>\<open>config_data_map[key]\<close> creates an empty entry for a missing key.\<close>

definition config_value :: "(string \<rightharpoonup> string) \<Rightarrow> string \<Rightarrow> string" where
  "config_value config_data_map key = (case config_data_map key of Some v \<Rightarrow> v | None \<Rightarrow> '''')"

definition plain_thread_server_runner ::
    "(string \<rightharpoonup> string) \<Rightarrow> thread_env \<Rightarrow> 'q web \<Rightarrow> (string + (unit, 'q web) server) option" where
  "plain_thread_server_runner config_data_map N obj = do {
     port \<leftarrow> stoi (config_value config_data_map ''PORT'');
     case plain_server_new N port obj of
       Inl msg \<Rightarrow> Some (Inl msg)
     | Inr s \<Rightarrow> do { s \<leftarrow> set_tcp_server s; Some (Inr (start s)) }
   }"

definition tls_thread_server_runner ::
    "(string \<rightharpoonup> string) \<Rightarrow> thread_env \<Rightarrow> 'q web \<Rightarrow> (string + ('ssl, 'q web) tls) option" where
  "tls_thread_server_runner config_data_map N obj = do {
     port \<leftarrow> stoi (config_value config_data_map ''TLS_PORT'');
     case tls_server_new (th_ctx_ok N) (th_load_chain N (config_value config_data_map ''FULLCHAIN''))
            (th_load_key N (config_value config_data_map ''PKEY''))
            (server_base (th_notification_efd N) (th_kill_efd N) (th_timerfd N) (th_getaddrinfo N port)
               (th_addresses N port) (th_listen N) obj) of
       Inl msg \<Rightarrow> Some (Inl msg)
     | Inr s \<Rightarrow> do { s \<leftarrow> set_tcp_server s; Some (Inr (start s)) }
   }"


end
