(* ===== verification/Web_Cache_Watch.thy ===== *)
theory Web_Cache_Watch
  imports Web_Cache
begin

text \<open>
  What holds of the file cache in every run, also in those outside the specification of
  \<open>Web_Cache_Lru\<close> (outdated and pipelined fetches): a watch leads to the item it was set for, and a
  path is found right after its insertion. The callbacks of the web server rely on it.
\<close>

text \<open>A watch leads to the item it was set for, and a free item is not marked as outdated.\<close>

definition cache_watch_ok :: "cache \<Rightarrow> bool" where
  "cache_watch_ok c \<longleftrightarrow> finite (cache_free_idxs c) \<and>
     (\<forall>w i. watch_to_cache_idx c w = Some i \<longrightarrow>
        i \<notin> cache_free_idxs c \<and> (in_range (cache_buffer c) i \<longrightarrow> watch (cache_buffer c ! nat i) = w)) \<and>
     (\<forall>i\<in>cache_free_idxs c. 0 \<le> i \<and> (in_range (cache_buffer c) i \<longrightarrow> \<not> outdated (cache_buffer c ! nat i)))"

lemma mod_item_Some:
  "mod_item i f c = Some c' \<longleftrightarrow> in_range (cache_buffer c) i \<and> c' = c\<lparr>cache_buffer := (cache_buffer c)[nat i := f (cache_buffer c ! nat i)]\<rparr>"
  by (auto simp: mod_item_def bind_Some_iff vmod_eq_Some)

text \<open>A change of links, locks and paths only.\<close>

definition links_only :: "cache \<Rightarrow> cache \<Rightarrow> bool" where
  "links_only c c' \<longleftrightarrow> watch_to_cache_idx c' = watch_to_cache_idx c \<and> cache_free_idxs c' = cache_free_idxs c \<and>
     map watch (cache_buffer c') = map watch (cache_buffer c) \<and> map outdated (cache_buffer c') = map outdated (cache_buffer c)"

lemma links_only_trans: "links_only a b \<Longrightarrow> links_only b c \<Longrightarrow> links_only a c"
  by (simp add: links_only_def)

lemma links_only_mod:
  assumes "mod_item i f c = Some c'" "\<And>it. watch (f it) = watch it" "\<And>it. outdated (f it) = outdated it"
  shows "links_only c c'"
  using assms by (auto simp: links_only_def mod_item_Some map_update list_update_same_conv in_range_nat)

lemma links_only_watch_ok:
  assumes "links_only c c'" "cache_watch_ok c"
  shows "cache_watch_ok c'"
proof -
  have len: "length (cache_buffer c') = length (cache_buffer c)"
    using assms(1) by (metis links_only_def length_map)
  then have r: "in_range (cache_buffer c') i = in_range (cache_buffer c) i" for i by (simp add: in_range_def)
  have "watch (cache_buffer c' ! nat i) = watch (cache_buffer c ! nat i) \<and>
      outdated (cache_buffer c' ! nat i) = outdated (cache_buffer c ! nat i)" if "in_range (cache_buffer c) i" for i
    using assms(1) len in_range_nat [OF that] unfolding links_only_def by (metis nth_map)
  then show ?thesis using assms r by (simp add: cache_watch_ok_def links_only_def)
qed

lemma unlink_links: "unlink_item it c = Some c' \<Longrightarrow> links_only c c'"
  by (auto simp: unlink_item_def bind_Some_iff split: if_splits dest!: links_only_mod intro: links_only_trans)
     (auto simp: links_only_def)

text \<open>Resetting an item and forgetting its watch; the item may become free.\<close>

lemma watch_ok_reset:
  assumes "cache_watch_ok c" "in_range (cache_buffer c) i"
    and c': "cache_buffer c' = (cache_buffer c)[nat i := new_cache_item]"
      "watch_to_cache_idx c' = (watch_to_cache_idx c)(watch (cache_buffer c ! nat i) := None)"
      "cache_free_idxs c' = cache_free_idxs c \<or> cache_free_idxs c' = insert i (cache_free_idxs c)"
  shows "cache_watch_ok c'"
  using assms by (auto simp: cache_watch_ok_def nth_nat_update new_cache_item_def in_range_def)

lemma drop_outdated_watch_ok:
  assumes "cache_watch_ok c" "drop_outdated i c = Some c'"
  shows "cache_watch_ok c'"
proof -
  have i: "in_range (cache_buffer c) i" using assms(2) by (auto simp: drop_outdated_def bind_Some_iff vget_eq_Some)
  show ?thesis by (rule watch_ok_reset [OF assms(1) i])
    (use assms(2) i in \<open>auto simp: drop_outdated_def vget_in_range mod_item_Some Let_def\<close>)
qed

lemma fetch_item_watch_ok:
  assumes ok: "cache_watch_ok c" and run: "fetch_item p cl tc c = Some (c', tc', r)"
  shows "cache_watch_ok c'"
proof (cases "filepath_to_cache_idx c p")
  case None
  then show ?thesis using run ok by (simp add: fetch_item_def)
next
  case (Some i)
  obtain c1 where c1: "mod_item i (\<lambda>it. it\<lparr>lock_number := lock_number it + 1\<rparr>) c = Some c1"
    using run Some by (auto simp: fetch_item_def bind_Some_iff Let_def)
  let ?c1 = "c1\<lparr>client_idx_to_cache_idx := (client_idx_to_cache_idx c1)(cl \<mapsto> i)\<rparr>"
  have "links_only c ?c1" using links_only_mod [OF c1] by (simp add: links_only_def)
  then have ok1: "cache_watch_ok ?c1" using ok by (rule links_only_watch_ok)
  obtain it where it: "vget (cache_buffer ?c1) i = Some it"
    using run Some c1 by (auto simp: fetch_item_def bind_Some_iff Let_def)
  show ?thesis
  proof (cases "next_item_idx it = -1")
    case True
    show ?thesis
    proof (cases "outdated it")
      case False
      then have "c' = ?c1" using run Some c1 it True by (auto simp: fetch_item_def bind_Some_iff Let_def)
      then show ?thesis using ok1 by simp
    next
      case out: True
      then obtain c2 where c2: "(if prev_item_idx it \<noteq> -1 then mod_item (prev_item_idx it) (\<lambda>p. p\<lparr>next_item_idx := -1\<rparr>) ?c1
          else Some ?c1) = Some c2" "drop_outdated i c2 = Some c'"
        using run Some c1 it True by (auto simp: fetch_item_def bind_Some_iff Let_def split: if_splits)
      have "cache_watch_ok c2"
      proof (cases "prev_item_idx it = -1")
        case True
        then show ?thesis using c2(1) ok1 by simp
      next
        case False
        then have "mod_item (prev_item_idx it) (\<lambda>p. p\<lparr>next_item_idx := -1\<rparr>) ?c1 = Some c2" using c2(1) by simp
        from links_only_mod [OF this] show ?thesis using ok1 links_only_watch_ok by simp
      qed
      then show ?thesis using c2(2) by (rule drop_outdated_watch_ok)
    qed
  next
    case False
    then obtain c2 where c2: "unlink_item it ?c1 = Some c2" using run Some c1 it
      by (auto simp: fetch_item_def bind_Some_iff Let_def split: if_splits)
    have ok2: "cache_watch_ok c2" by (rule links_only_watch_ok [OF unlink_links [OF c2] ok1])
    show ?thesis
    proof (cases "outdated it")
      case True
      then show ?thesis using run Some c1 it False c2 drop_outdated_watch_ok [OF ok2]
        by (auto simp: fetch_item_def bind_Some_iff Let_def)
    next
      case nout: False
      obtain c3 c4 where c3: "mod_item (highest_idx c2) (\<lambda>h. h\<lparr>next_item_idx := i\<rparr>) c2 = Some c3"
        "mod_item i (\<lambda>x. x\<lparr>next_item_idx := -1, prev_item_idx := highest_idx c3\<rparr>) c3 = Some c4"
        "c' = c4\<lparr>highest_idx := i\<rparr>"
        using run Some c1 it False c2 nout by (auto simp: fetch_item_def bind_Some_iff Let_def)
      have "links_only c2 c3" "links_only c3 c4" "links_only c4 c'"
        using links_only_mod [OF c3(1)] links_only_mod [OF c3(2)] c3(3) by (auto simp: links_only_def)
      then show ?thesis using ok2 links_only_watch_ok by blast
    qed
  qed
qed

lemma fetch_item_found:
  assumes "fetch_item p cl tc c = Some (c', tc', r)" "found r"
  shows "fetch_buff r \<noteq> Nullptr"
  using assms
  by (auto simp: fetch_item_def bind_Some_iff Let_def not_found_def found_item_def split: option.splits if_splits)

lemma choose_item_fresh:
  assumes ok: "cache_watch_ok c" and run: "choose_item ord c = Some (c', i)"
  shows "cache_watch_ok c' \<and> (i \<noteq> -1 \<longrightarrow> i \<notin> cache_free_idxs c' \<and> (\<forall>w. watch_to_cache_idx c' w \<noteq> Some i) \<and>
    (in_range (cache_buffer c') i \<longrightarrow> \<not> outdated (cache_buffer c' ! nat i)))"
proof (cases "cache_free_idxs c = {}")
  case False
  let ?i = "cbegin ord (cache_free_idxs c)"
  have i: "?i \<in> cache_free_idxs c" using ok False by (intro cbegin_in) (auto simp: cache_watch_ok_def)
  have "i = ?i" "cache_free_idxs c' = cache_free_idxs c - {?i}" "watch_to_cache_idx c' = watch_to_cache_idx c"
    "cache_buffer c' = cache_buffer c"
    using run False by (auto simp: choose_item_def Let_def split: if_splits)
  then show ?thesis using ok i by (auto simp: cache_watch_ok_def)
next
  case True
  let ?i = "lowest_idx c"
  have run': "take_lowest c = Some (c', i)" using run True by (simp add: choose_item_def)
  then obtain low where low: "vget (cache_buffer c) ?i = Some low" by (auto simp: take_lowest_def bind_Some_iff)
  show ?thesis
  proof (cases "lock_number low = 0")
    case False
    then show ?thesis using run' low ok by (simp add: take_lowest_def)
  next
    case lock: True
    then obtain c1 where c1: "mod_item (next_item_idx low) (\<lambda>n. n\<lparr>prev_item_idx := -1\<rparr>) c = Some c1"
      using run' low by (auto simp: take_lowest_def bind_Some_iff)
    have ok1: "cache_watch_ok c1" and l1: "links_only c c1" using links_only_mod [OF c1] links_only_watch_ok ok by auto
    have r1: "in_range (cache_buffer c1) ?i" "lowest_idx c1 = lowest_idx c" "watch (cache_buffer c1 ! nat ?i) = watch low"
      using low(1) c1 by (auto simp: mod_item_Some vget_eq_Some nth_nat_update)
    have c': "i = ?i" "cache_buffer c' = (cache_buffer c1)[nat ?i := new_cache_item]"
        "watch_to_cache_idx c' = (watch_to_cache_idx c1)(watch (cache_buffer c1 ! nat ?i) := None)"
        "cache_free_idxs c' = cache_free_idxs c1"
      using run' low lock c1 r1 by (auto simp: take_lowest_def bind_Some_iff Let_def) (auto simp: mod_item_Some)
    have "cache_watch_ok c'" by (rule watch_ok_reset [OF ok1 r1(1) c'(2,3)]) (use c'(4) in simp)
    then show ?thesis using c' r1(1) ok1 True l1 by (auto simp: cache_watch_ok_def in_range_nat new_cache_item_def links_only_def)
  qed
qed

text \<open>After an insertion the path is found.\<close>

lemma place_item_result:
  assumes ok: "cache_watch_ok c" "i \<notin> cache_free_idxs c" "\<forall>w. watch_to_cache_idx c w \<noteq> Some i"
    and run: "place_item wd p b i c = Some c'"
  shows "cache_watch_ok c' \<and> filepath_to_cache_idx c' p = Some i \<and> in_range (cache_buffer c') i \<and>
    next_item_idx (cache_buffer c' ! nat i) = -1 \<and> outdated (cache_buffer c' ! nat i) = outdated (cache_buffer c ! nat i)"
proof -
  obtain c1 where c1: "(if highest_idx c \<noteq> -1 then mod_item (highest_idx c) (\<lambda>h. h\<lparr>next_item_idx := i\<rparr>) c else Some c) = Some c1"
    using run by (auto simp: place_item_def bind_Some_iff)
  have l1: "links_only c c1"
  proof (cases "highest_idx c = -1")
    case True
    then show ?thesis using c1 by (simp add: links_only_def)
  next
    case False
    then have "mod_item (highest_idx c) (\<lambda>h. h\<lparr>next_item_idx := i\<rparr>) c = Some c1" using c1 by simp
    then show ?thesis by (rule links_only_mod) simp_all
  qed
  have ok1: "cache_watch_ok c1" by (rule links_only_watch_ok [OF l1 ok(1)])
  have i: "in_range (cache_buffer c1) i" and c': "cache_buffer c' = (cache_buffer c1)[nat i := (cache_buffer c1 ! nat i)
      \<lparr>watch := wd, prev_item_idx := highest_idx c1, next_item_idx := -1, item_buffer := b\<rparr>]"
      "watch_to_cache_idx c' = (watch_to_cache_idx c1)(wd \<mapsto> i)" "cache_free_idxs c' = cache_free_idxs c1"
      "filepath_to_cache_idx c' p = Some i"
    using run c1 by (auto simp: place_item_def bind_Some_iff mod_item_Some Let_def)
  have "cache_watch_ok c'"
    using ok1 ok(2,3) i c' l1 unfolding cache_watch_ok_def by (auto simp: nth_nat_update links_only_def)
  moreover have "outdated (cache_buffer c1 ! nat i) = outdated (cache_buffer c ! nat i)"
    using l1 in_range_nat [OF i] unfolding links_only_def by (metis length_map nth_map)
  ultimately show ?thesis using i c' by (simp add: in_range_nat)
qed

lemma try_insert_then_found:
  assumes ok: "cache_watch_ok c" and run: "try_insert_item ord wd cl p b c = Some (c', ins)"
  shows "cache_watch_ok c'" "ins \<Longrightarrow> fetch_item p cl' tc c' = Some (c'', tc', r) \<Longrightarrow> found r"
proof -
  obtain c1 i where c1: "choose_item ord c = Some (c1, i)"
    "if i \<noteq> -1 then ins \<and> place_item wd p b i c1 = Some c' else \<not> ins \<and> c' = c1"
    using run by (auto simp: try_insert_item_def bind_Some_iff split: if_splits)
  note ch = choose_item_fresh [OF ok c1(1)]
  have placed: "cache_watch_ok c' \<and> filepath_to_cache_idx c' p = Some i \<and> in_range (cache_buffer c') i \<and>
      next_item_idx (cache_buffer c' ! nat i) = -1 \<and> \<not> outdated (cache_buffer c' ! nat i)" if "i \<noteq> -1"
  proof -
    have pl: "place_item wd p b i c1 = Some c'" using c1(2) that by simp
    have "in_range (cache_buffer c1) i" using pl by (auto simp: place_item_def bind_Some_iff mod_item_Some Let_def split: if_splits)
    then show ?thesis using place_item_result [OF _ _ _ pl] ch that by simp
  qed
  show "cache_watch_ok c'" using placed ch c1(2) by (cases "i = -1") auto
  show "found r" if "ins" "fetch_item p cl' tc c' = Some (c'', tc', r)"
    using placed that c1(2)
    by (cases "i = -1") (auto simp: fetch_item_def mod_item_Some vget_in_range in_range_nat found_item_def Let_def bind_Some_iff split: if_splits)
qed

lemma finished_watch_ok:
  assumes "cache_watch_ok c" "finished_with_item cl tc c = Some (c', tc')"
  shows "cache_watch_ok c'"
proof (cases "using_file tc")
  case False
  then show ?thesis using assms by (simp add: finished_with_item_def)
next
  case True
  then obtain i c1 where "mod_item i (\<lambda>it. it\<lparr>lock_number := lock_number it - 1\<rparr>) c1 = Some c'" "links_only c c1"
    using assms(2) by (auto simp: finished_with_item_def Let_def bind_Some_iff links_only_def)
  then show ?thesis using links_only_mod links_only_watch_ok assms(1) by fastforce
qed

lemma inotify_watch_ok:
  assumes "cache_watch_ok c" "inotify_event_handler wd c = Some c'"
  shows "cache_watch_ok c'"
proof (cases "watch_to_cache_idx c wd")
  case None
  then show ?thesis using assms by (simp add: inotify_event_handler_def)
next
  case (Some i)
  then show ?thesis using assms
    by (auto simp: inotify_event_handler_def mod_item_Some cache_watch_ok_def nth_nat_update split: if_splits)
qed

lemma new_cache_watch_ok: "cache_watch_ok (new_cache N)"
  by (auto simp: cache_watch_ok_def new_cache_def new_cache_item_def in_range_def)

end
