(* ===== verification/Web_Props.thy ===== *)
theory Web_Props
  imports Web_Server Web_Cache_Watch Tcp_Limits
begin

text \<open>
  The web server over the plain TCP server: its callbacks keep the contract of the TCP layer, so every
  run of the two together keeps the invariants of both.
\<close>

section \<open>The invariant of the web server\<close>

text \<open>
  There is data for every client slot; every WebSocket that receives broadcasts is connected, and its
  record leads back to it; the cache is in order.
\<close>

definition ws_linked :: "'q web \<Rightarrow> int \<Rightarrow> bool" where
  "ws_linked w i \<longleftrightarrow> (let k = ws_client_idx (tcp_clients w ! nat i) in
     in_range (websocket_clients w) k \<and> k \<notin> ws_freed_indexes w \<and> ws_tcp_idx (websocket_clients w ! nat k) = i)"

definition web_ok :: "nat \<Rightarrow> int set \<Rightarrow> 'q web \<Rightarrow> bool" where
  "web_ok n A w \<longleftrightarrow> length (tcp_clients w) = n \<and> active_websocket_connections w \<subseteq> A \<and> finite (active_websocket_connections w) \<and>
     finite (ws_freed_indexes w) \<and> (\<forall>k\<in>ws_freed_indexes w. in_range (websocket_clients w) k) \<and>
     (\<forall>i\<in>active_websocket_connections w. in_range (tcp_clients w) i \<and> ws_linked w i) \<and>
     cache_watch_ok (web_cache w) \<and> (\<forall>c\<in>set (websocket_clients w). \<not> ws_close c)"

text \<open>What the two layers guarantee together.\<close>

definition site_ok :: "(unit, 'q web) server \<Rightarrow> bool" where
  "site_ok s \<longleftrightarrow> plain_inv s \<and> web_ok (length (clients s)) (active_connections s) (custom_obj s)"

lemma plain_inv_custom [simp]: "plain_inv_at P (s\<lparr>custom_obj := w\<rparr>) = plain_inv_at P s"
  by (simp add: plain_inv_at_def)

lemma plain_inv_closed [simp]: "plain_inv_at P (s\<lparr>closed_fds := f\<rparr>) = plain_inv_at P s"
  by (simp add: plain_inv_at_def)

lemma site_frame: "site_ok s \<Longrightarrow> plain_inv t \<Longrightarrow> same_frame s t \<Longrightarrow> site_ok t"
  by (simp add: site_ok_def same_frame_def)

lemma site_active_range: "site_ok s \<Longrightarrow> i \<in> active_connections s \<Longrightarrow> in_range (clients s) i \<and> in_range (tcp_clients (custom_obj s)) i"
  by (auto simp: site_ok_def plain_inv_at_def web_ok_def in_range_def dest: plain_ok_active)

section \<open>Operations on the object\<close>

lemma new_tcp_client_ok:
  assumes "web_ok n (A - {i}) w" "0 \<le> i" "i \<le> int n" "new_tcp_client i w = Some w'"
  shows "web_ok (n + (if i = int n then 1 else 0)) A w'"
proof -
  have len: "length (tcp_clients w) = n" and a: "i \<notin> active_websocket_connections w" using assms(1) by (auto simp: web_ok_def)
  have old: "j < int n" "0 \<le> j" "nat j \<noteq> nat i" if "j \<in> active_websocket_connections w" for j
    using assms(1,2) that a by (auto simp: web_ok_def in_range_def eq_nat_nat_iff)
  let ?base = "if int n \<le> i + 1 then vresize (nat (i + 1)) new_tcp_client_value (tcp_clients w) else tcp_clients w"
  define cs where "cs = ?base[nat i := new_tcp_client_value]"
  have base: "length ?base = n + (if i = int n then 1 else 0)" "\<And>j. j < n \<Longrightarrow> ?base ! j = tcp_clients w ! j"
    using assms(2,3) len by (auto simp: vresize_def nth_append)
  have w': "w' = w\<lparr>tcp_clients := cs\<rparr>"
    using assms(4) len by (simp add: new_tcp_client_def Let_def bind_Some_iff vset_eq_Some cs_def)
  have cs: "length cs = n + (if i = int n then 1 else 0)" "\<And>j. j < n \<Longrightarrow> j \<noteq> nat i \<Longrightarrow> cs ! j = tcp_clients w ! j"
    unfolding cs_def using base by simp_all
  have "in_range cs j \<and> ws_linked w' j" if "j \<in> active_websocket_connections w" for j
    using assms(1) that old [OF that] cs w' len by (auto simp: web_ok_def ws_linked_def in_range_def)
  then show ?thesis using assms(1) cs(1) w' by (auto simp: web_ok_def)
qed

lemma kill_client_ok:
  assumes ok: "web_ok n A w" and i: "0 \<le> i" and run: "kill_client i w = Some w'"
  shows "web_ok n A w' \<and> web_ok n (A - {i}) w'"
proof -
  obtain c cache' c' cs where c: "vget (tcp_clients w) i = Some c" "finished_with_item i c (web_cache w) = Some (cache', c')"
    "vset (tcp_clients w) i (c'\<lparr>using_file := False\<rparr>) = Some cs"
    using run by (auto simp: kill_client_def bind_Some_iff)
  have ws: "ws_client_idx c' = ws_client_idx c"
    using c(2) by (auto simp: finished_with_item_def Let_def bind_Some_iff split: if_splits)
  have cs: "cs = (tcp_clients w)[nat i := c'\<lparr>using_file := False\<rparr>]" "in_range (tcp_clients w) i" "c = tcp_clients w ! nat i"
    using c by (auto simp: vset_eq_Some vget_eq_Some)
  have w': "tcp_clients w' = cs" "web_cache w' = cache'" "websocket_clients w' = websocket_clients w"
    "active_websocket_connections w' = active_websocket_connections w - {i}"
    "ws_freed_indexes w' = (if i \<in> active_websocket_connections w then insert (ws_client_idx c) (ws_freed_indexes w) else ws_freed_indexes w)"
    using run c ws by (auto simp: kill_client_def Let_def split: if_splits)
  have "in_range cs j \<and> ws_linked w' j" if j: "j \<in> active_websocket_connections w'" for j
  proof -
    have jw: "j \<in> active_websocket_connections w" "j \<noteq> i" using j w' by auto
    then have l: "in_range (tcp_clients w) j" "ws_linked w j" using ok by (auto simp: web_ok_def)
    have same: "tcp_clients w' ! nat j = tcp_clients w ! nat j" using w'(1) cs l(1) jw(2) by (simp add: nth_nat_update)
    have "ws_client_idx (tcp_clients w ! nat j) \<noteq> ws_client_idx c" if "i \<in> active_websocket_connections w"
    proof -
      have "ws_linked w i" using ok that by (simp add: web_ok_def)
      then show ?thesis using l(2) jw(2) cs(3) by (auto simp: ws_linked_def Let_def)
    qed
    then show ?thesis using l same w' cs by (auto simp: ws_linked_def Let_def)
  qed
  moreover have "\<forall>k\<in>ws_freed_indexes w'. in_range (websocket_clients w') k"
    using ok w' cs(3) by (auto simp: web_ok_def ws_linked_def Let_def)
  ultimately show ?thesis using ok w' cs finished_watch_ok [OF _ c(2)] by (auto simp: web_ok_def)
qed

lemma upd_ws_ok:
  assumes "web_ok n A w" "upd_ws k f w = Some w'" "\<And>c. ws_tcp_idx (f c) = ws_tcp_idx c" "\<And>c. ws_close (f c) = ws_close c"
  shows "web_ok n A w'" "websocket_clients w' = (websocket_clients w)[nat k := f (websocket_clients w ! nat k)] \<and>
    in_range (websocket_clients w) k \<and> tcp_clients w' = tcp_clients w"
proof -
  have k: "in_range (websocket_clients w) k"
    "w' = w\<lparr>websocket_clients := (websocket_clients w)[nat k := f (websocket_clients w ! nat k)]\<rparr>"
    using assms(2) by (auto simp: upd_ws_def bind_Some_iff vmod_eq_Some)
  have "ws_linked w' i = ws_linked w i" for i
    using k assms(3) by (auto simp: ws_linked_def Let_def nth_nat_update split: if_splits)
  moreover have "\<not> ws_close c" if "c \<in> set (websocket_clients w')" for c
    using that k assms(1,4) in_range_nat [OF k(1)] by (auto simp: web_ok_def dest!: set_update_subset_insert [THEN subsetD])
  ultimately show "web_ok n A w'" using assms(1) k(2) by (auto simp: web_ok_def)
  show "websocket_clients w' = (websocket_clients w)[nat k := f (websocket_clients w ! nat k)] \<and>
    in_range (websocket_clients w) k \<and> tcp_clients w' = tcp_clients w" using k by simp
qed

lemma broadcast_done_ok:
  assumes "web_ok n A w" "broadcast_done E info w = Some w'"
  shows "web_ok n A w'"
  using assms by (auto simp: broadcast_done_def bind_Some_iff web_ok_def ws_linked_def Let_def split: if_splits)

lemma new_ws_client_links:
  assumes ok: "web_ok n A w" and run: "new_ws_client i w = Some (k, w1)"
  shows "in_range (websocket_clients w1) k \<and> k \<notin> ws_freed_indexes w1 \<and> ws_tcp_idx (websocket_clients w1 ! nat k) = i \<and>
      tcp_clients w1 = tcp_clients w \<and> web_cache w1 = web_cache w \<and> finite (ws_freed_indexes w1) \<and>
      active_websocket_connections w1 = insert i (active_websocket_connections w) \<and>
      (\<forall>c\<in>set (websocket_clients w1). \<not> ws_close c) \<and> (\<forall>k\<in>ws_freed_indexes w1. in_range (websocket_clients w1) k)" (is ?fresh)
    "\<forall>m. in_range (websocket_clients w) m \<longrightarrow> m \<notin> ws_freed_indexes w \<longrightarrow>
      in_range (websocket_clients w1) m \<and> m \<notin> ws_freed_indexes w1 \<and> websocket_clients w1 ! nat m = websocket_clients w ! nat m" (is ?old)
proof -
  have fin: "finite (ws_freed_indexes w)" and nc: "\<forall>c\<in>set (websocket_clients w). \<not> ws_close c"
    and fr: "\<forall>k\<in>ws_freed_indexes w. in_range (websocket_clients w) k" using ok by (auto simp: web_ok_def)
  have *: "?fresh \<and> ?old"
  proof (cases "ws_freed_indexes w = {}")
    case True
    then have w1: "k = int (length (websocket_clients w))"
      "websocket_clients w1 = websocket_clients w @ [new_ws_client_value\<lparr>ws_tcp_idx := i\<rparr>]" "ws_freed_indexes w1 = {}"
      "tcp_clients w1 = tcp_clients w" "web_cache w1 = web_cache w"
      "active_websocket_connections w1 = insert i (active_websocket_connections w)"
      using run by (auto simp: new_ws_client_def bind_Some_iff vmod_eq_Some)
    then show ?thesis using nc True by (auto simp: in_range_def nth_append new_ws_client_value_def)
  next
    case False
    let ?k = "Min (ws_freed_indexes w)"
    have kf: "?k \<in> ws_freed_indexes w" using fin False by simp
    obtain fc where fc: "vget (websocket_clients w) ?k = Some fc"
      using run False by (auto simp: new_ws_client_def bind_Some_iff Let_def)
    then have w1: "k = ?k" "in_range (websocket_clients w) ?k" "ws_freed_indexes w1 = ws_freed_indexes w - {?k}"
      "websocket_clients w1 = (websocket_clients w)[nat ?k := new_ws_client_value\<lparr>ws_id := (ws_id fc + 1) mod 100, ws_tcp_idx := i\<rparr>]"
      "tcp_clients w1 = tcp_clients w" "web_cache w1 = web_cache w"
      "active_websocket_connections w1 = insert i (active_websocket_connections w)"
      using run False by (auto simp: new_ws_client_def bind_Some_iff vmod_eq_Some vset_eq_Some vget_eq_Some Let_def in_range_nat)
    have "\<forall>c\<in>set (websocket_clients w1). \<not> ws_close c"
      using nc w1(4) by (auto simp: new_ws_client_value_def dest!: set_update_subset_insert [THEN subsetD])
    then show ?thesis using w1 fin kf fr by (auto simp: in_range_nat nth_nat_update)
  qed
  show ?fresh ?old using * by blast+
qed

lemma new_ws_client_ok:
  assumes ok: "web_ok n A w" and i: "i \<in> A" "in_range (tcp_clients w) i" and run: "new_ws_client i w = Some (k, w1)"
    and w': "vmod (tcp_clients w1) i (\<lambda>c. c\<lparr>ws_client_idx := k\<rparr>) = Some cs"
  shows "web_ok n A (w1\<lparr>tcp_clients := cs\<rparr>)"
proof -
  let ?w = "w1\<lparr>tcp_clients := cs\<rparr>"
  have k: "in_range (websocket_clients w1) k" "k \<notin> ws_freed_indexes w1" "ws_tcp_idx (websocket_clients w1 ! nat k) = i"
      "tcp_clients w1 = tcp_clients w" "web_cache w1 = web_cache w" "finite (ws_freed_indexes w1)"
      "active_websocket_connections w1 = insert i (active_websocket_connections w)"
      "\<forall>c\<in>set (websocket_clients w1). \<not> ws_close c" "\<forall>k\<in>ws_freed_indexes w1. in_range (websocket_clients w1) k"
    and old: "\<And>m. in_range (websocket_clients w) m \<Longrightarrow> m \<notin> ws_freed_indexes w \<Longrightarrow>
      in_range (websocket_clients w1) m \<and> m \<notin> ws_freed_indexes w1 \<and> websocket_clients w1 ! nat m = websocket_clients w ! nat m"
    using new_ws_client_links [OF ok run] by blast+
  have cs: "cs = (tcp_clients w)[nat i := (tcp_clients w ! nat i)\<lparr>ws_client_idx := k\<rparr>]"
    using w' k(4) by (simp add: vmod_eq_Some)
  have "in_range cs j \<and> ws_linked ?w j" if "j \<in> insert i (active_websocket_connections w)" for j
  proof (cases "j = i")
    case True
    then show ?thesis using k cs i(2) by (simp add: ws_linked_def in_range_nat)
  next
    case False
    then have l: "in_range (tcp_clients w) j" "ws_linked w j" using that ok by (auto simp: web_ok_def)
    then have "cs ! nat j = tcp_clients w ! nat j" using cs i(2) False by (simp add: nth_nat_update)
    then show ?thesis using l old cs by (auto simp: ws_linked_def Let_def)
  qed
  then show ?thesis using ok i k cs by (auto simp: web_ok_def)
qed

end
