(* ===== verification/Web_Site.thy ===== *)
theory Web_Site
  imports Web_Props
begin

text \<open>
  The operations of the web server on the plain TCP server keep the invariants of both layers, so the
  web server's callbacks meet the contract \<open>plain_layer\<close> of the TCP server. The runs of the two
  together are those of \<open>web_run\<close>.
\<close>

section \<open>Changes of the server\<close>

text \<open>
  \<open>books\<close>: what the accounting of the broadcasts depends on, the items in the write queues, the
  uses recorded for them and the channel to the program thread. \<open>kept\<close>: the invariant holds, no
  client came or left and the books are the same. \<open>steady\<close>: and no WebSocket changed hands.
\<close>

definition books :: "(unit, 'q web) server \<Rightarrow> items \<times> broadcast_data_items list \<times> 'q channel" where
  "books s = (pending_items (clients s), broadcast_data (custom_obj s), web_channel (custom_obj s))"

definition kept :: "(unit, 'q web) server \<Rightarrow> (unit, 'q web) server \<Rightarrow> bool" where
  "kept s t \<longleftrightarrow> site_ok t \<and> active_connections t = active_connections s \<and> length (clients t) = length (clients s) \<and>
     books t = books s"

definition ws_at :: "int \<Rightarrow> int \<Rightarrow> 'q web \<Rightarrow> bool" where
  "ws_at i k w \<longleftrightarrow> in_range (websocket_clients w) k \<and> ws_tcp_idx (websocket_clients w ! nat k) = i"

definition steady :: "(unit, 'q web) server \<Rightarrow> (unit, 'q web) server \<Rightarrow> bool" where
  "steady s t \<longleftrightarrow> kept s t \<and> (\<forall>i k. ws_at i k (custom_obj s) \<longrightarrow> ws_at i k (custom_obj t))"

lemma kept_site: "kept s t \<Longrightarrow> site_ok t"
  by (simp add: kept_def)

lemma kept_both: "kept s t \<Longrightarrow> site_ok t \<and> books t = books s"
  by (simp add: kept_def)

lemma kept_refl: "site_ok s \<Longrightarrow> kept s s"
  by (simp add: kept_def)

lemma kept_trans [trans]: "kept s t \<Longrightarrow> kept t u \<Longrightarrow> kept s u"
  by (simp add: kept_def)

lemma steady_refl: "site_ok s \<Longrightarrow> steady s s"
  by (simp add: steady_def kept_def)

lemma steady_trans [trans]: "steady s t \<Longrightarrow> steady t u \<Longrightarrow> steady s u"
  by (simp add: steady_def kept_def)

lemma steady_kept: "steady s t \<Longrightarrow> kept s t"
  by (simp add: steady_def)

lemma steady_frame: "site_ok s \<Longrightarrow> plain_inv t \<Longrightarrow> same_frame s t \<Longrightarrow> pending_items (clients t) = pending_items (clients s) \<Longrightarrow> steady s t"
  by (simp add: steady_def kept_def site_ok_def same_frame_def books_def)

lemma kept_object:
  "site_ok s \<Longrightarrow> web_ok (length (clients s)) (active_connections s) w \<Longrightarrow>
     broadcast_data w = broadcast_data (custom_obj s) \<Longrightarrow> web_channel w = web_channel (custom_obj s) \<Longrightarrow> kept s (s\<lparr>custom_obj := w\<rparr>)"
  by (simp add: kept_def site_ok_def books_def)

lemma on_web_kept:
  assumes "site_ok s" "on_web f s = Some t"
    "\<And>w. f (custom_obj s) = Some w \<Longrightarrow> web_ok (length (clients s)) (active_connections s) w \<and>
       broadcast_data w = broadcast_data (custom_obj s) \<and> web_channel w = web_channel (custom_obj s)"
  shows "kept s t"
  using assms kept_object [OF assms(1)] by (auto simp: on_web_def bind_Some_iff)

lemma upd_ws_steady:
  assumes "site_ok s" "on_web (upd_ws k f) s = Some t" "\<And>c. ws_tcp_idx (f c) = ws_tcp_idx c" "\<And>c. ws_close (f c) = ws_close c"
  shows "steady s t"
proof -
  obtain w where w: "upd_ws k f (custom_obj s) = Some w" "t = s\<lparr>custom_obj := w\<rparr>"
    using assms(2) by (auto simp: on_web_def bind_Some_iff)
  have ok: "web_ok (length (clients s)) (active_connections s) (custom_obj s)" using assms(1) by (simp add: site_ok_def)
  note u = upd_ws_ok [OF ok w(1) assms(3,4)]
  have "ws_at i m (custom_obj s) \<longrightarrow> ws_at i m w" for i m
    using u(2) assms(3) by (auto simp: ws_at_def nth_nat_update)
  moreover have "broadcast_data w = broadcast_data (custom_obj s)" "web_channel w = web_channel (custom_obj s)"
    using w(1) by (auto simp: upd_ws_def bind_Some_iff)
  ultimately show ?thesis using kept_object [OF assms(1) u(1)] w(2) by (simp add: steady_def)
qed

section \<open>The operations of the TCP server\<close>

lemma write_vec_steady:
  assumes "site_ok s" "i \<in> active_connections s" "op_write_vec plain_ops i b s = Some t"
  shows "steady s t"
  using write_connection_vec_ok [of s i b] write_connection_pending(1) [of i b s t] steady_frame [OF assms(1)] assms
  by (auto simp: plain_ops_def site_ok_def)

lemma write_ptr_steady:
  assumes "site_ok s" "i \<in> active_connections s" "p \<noteq> Nullptr" "op_write_ptr plain_ops i p n s = Some t"
  shows "steady s t"
  using write_connection_ptr_ok [of s i p n] write_connection_pending(2) [of i p n s t] steady_frame [OF assms(1)] assms
  by (auto simp: plain_ops_def site_ok_def)

lemma broadcast_site:
  assumes "site_ok s" "set idxs \<subseteq> active_connections s" "p \<noteq> Nullptr" "op_broadcast plain_ops idxs k p n info s = Some t"
  shows "site_ok t"
  using broadcast_message_ptr_ok [of s idxs p k n info] site_frame [OF assms(1)] assms by (auto simp: plain_ops_def site_ok_def)

lemma read_connection_steady:
  assumes "site_ok s" "i \<in> active_connections s" "read_connection i s = Some t"
  shows "steady s t"
  using read_connection_ok [of s i] read_connection_pending [OF assms(3)] steady_frame [OF assms(1)]
    site_active_range [OF assms(1,2)] assms by (auto simp: site_ok_def)

lemma custom_read_steady:
  assumes "site_ok s" "custom_read_req fd n i b a s = Some t"
  shows "steady s t"
  using custom_read_req_ok [OF _ assms(2)] custom_read_req_pending [OF assms(2)] steady_frame [OF assms(1)] assms(1)
  by (auto simp: site_ok_def)

lemma kill_client_books:
  "kill_client i w = Some w' \<Longrightarrow> broadcast_data w' = broadcast_data w \<and> web_channel w' = web_channel w"
  by (auto simp: kill_client_def Let_def bind_Some_iff split: if_splits)

lemma web_close_connection_site:
  assumes ok: "site_ok s" and i: "i \<in> active_connections s" and run: "web_close_connection plain_ops i s = Some t"
  shows "site_ok t \<and> books t = books s"
proof -
  obtain w where w: "kill_client i (custom_obj s) = Some w" and t: "close_connection i (s\<lparr>custom_obj := w\<rparr>) = Some t"
    using run by (auto simp: web_close_connection_def on_web_def bind_Some_iff plain_ops_def)
  have r: "in_range (clients s) i" using site_active_range [OF ok i] by simp
  then have "web_ok (length (clients s)) (active_connections s) w \<and> web_ok (length (clients s)) (active_connections s - {i}) w"
    using kill_client_ok [OF _ _ w] ok by (simp add: site_ok_def in_range_def)
  moreover have "plain_inv t \<and> custom_obj t = w \<and> length (clients t) = length (clients s) \<and>
      (active_connections t = active_connections s \<or> active_connections t = active_connections s - {i})"
    using close_connection_ok [of "s\<lparr>custom_obj := w\<rparr>" i] t r ok by (simp add: site_ok_def)
  moreover have "pending_items (clients t) = pending_items (clients s)"
    using close_connection_pending [OF _ _ t] ok r by (simp add: site_ok_def)
  ultimately show ?thesis using kill_client_books [OF w] unfolding site_ok_def books_def by metis
qed

section \<open>WebSockets\<close>

lemma close_ws_req_steady:
  assumes ok: "site_ok s" and at: "ws_at i k (custom_obj s)" "i \<in> active_connections s"
    and run: "close_ws_connection_req plain_ops k b s = Some t"
  shows "steady s t"
proof -
  let ?leave = "\<lambda>w. Some (w\<lparr>active_websocket_connections := active_websocket_connections w - {i}\<rparr>)"
  obtain s1 s2 where s1: "on_web (upd_ws k (\<lambda>c. c\<lparr>currently_writing := currently_writing c + 1, websocket_frames := []\<rparr>)) s = Some s1"
    and s2: "on_web ?leave s1 = Some s2"
    and t: "(if \<not> b then op_write_vec plain_ops i (make_ws_frame [] close_connection_op) s2 else Some s2) = Some t"
    using run at by (auto simp: close_ws_connection_req_def bind_Some_iff vget_eq_Some ws_at_def)
  have a: "steady s s1" by (rule upd_ws_steady [OF ok s1]) simp_all
  then have s1_ok: "site_ok s1" and same: "active_connections s1 = active_connections s"
    by (auto simp: steady_def kept_def)
  have "kept s1 s2"
    by (rule on_web_kept [OF s1_ok s2]) (use s1_ok in \<open>auto simp: site_ok_def web_ok_def ws_linked_def\<close>)
  then have b: "steady s1 s2" using s2 by (auto simp: steady_def on_web_def ws_at_def)
  then have "site_ok s2" "active_connections s2 = active_connections s" using same by (auto simp: steady_def kept_def)
  then have c: "steady s2 t" using t at(2) write_vec_steady [of s2 i] by (auto intro: steady_refl split: if_splits)
  show ?thesis using a b c by (blast intro: steady_trans)
qed

lemma websocket_write_steady:
  assumes ok: "site_ok s" and at: "ws_at i k (custom_obj s)" "i \<in> active_connections s"
    and run: "websocket_write plain_ops k b s = Some t"
  shows "steady s t"
proof -
  obtain s1 where s1: "on_web (upd_ws k (\<lambda>c. c\<lparr>currently_writing := currently_writing c + 1\<rparr>)) s = Some s1"
    and t: "do { c \<leftarrow> vget (websocket_clients (custom_obj s1)) k; op_write_vec plain_ops (ws_tcp_idx c) b s1 } = Some t"
    using run by (auto simp: websocket_write_def bind_Some_iff)
  have a: "steady s s1" by (rule upd_ws_steady [OF ok s1]) simp_all
  then have "ws_at i k (custom_obj s1)" "site_ok s1" "active_connections s1 = active_connections s"
    using at by (auto simp: steady_def kept_def)
  then have "steady s1 t" using write_vec_steady [of s1 i b t] t at(2) by (auto simp: ws_at_def vget_in_range)
  with a show ?thesis by (rule steady_trans)
qed

lemma get_ws_frames_steady:
  assumes "site_ok s" "ws_at i k (custom_obj s)" "i \<in> active_connections s" "get_ws_frames plain_ops b n k s = Some (fs, t)"
  shows "steady s t"
proof -
  obtain c r where r: "cut_frames b n (receiving_data c) = Some (Some r)" "vget (websocket_clients (custom_obj s)) k = Some c"
    using assms(4) by (auto simp: get_ws_frames_def bind_Some_iff)
  show ?thesis
  proof (cases r)
    case (Inl u)
    then show ?thesis using assms(4) r close_ws_req_steady [OF assms(1-3), of False t]
      by (auto simp: get_ws_frames_def bind_Some_iff)
  next
    case (Inr p)
    then have "on_web (upd_ws k (\<lambda>c. c\<lparr>receiving_data := snd p\<rparr>)) s = Some t"
      using assms(4) r by (cases p) (auto simp: get_ws_frames_def bind_Some_iff)
    then show ?thesis by (rule upd_ws_steady [OF assms(1)]) simp_all
  qed
qed

lemma process_frame_steady:
  assumes ok: "site_ok s" and at: "ws_at i k (custom_obj s)" "i \<in> active_connections s"
    and run: "process_frame plain_ops k m f s = Some (closed, m', t)"
  shows "steady s t"
proof (cases "f = []")
  case True
  then show ?thesis using run ok by (simp add: process_frame_def steady_refl)
next
  case False
  then obtain code data where d: "decode_websocket_frame f = Some (code, data)"
    using run by (auto simp: process_frame_def bind_Some_iff)
  let ?up = "\<lambda>c. c\<lparr>currently_writing := currently_writing c + 1\<rparr>"
  consider "on_web (upd_ws k (\<lambda>c. c\<lparr>websocket_frames := []\<rparr>)) s = Some t"
    | "on_web (upd_ws k (\<lambda>c. c\<lparr>websocket_frames := data @ websocket_frames c\<rparr>)) s = Some t"
    | s1 where "on_web (upd_ws k ?up) s = Some s1" "close_ws_connection_req plain_ops k False s1 = Some t"
    | "\<exists>b. websocket_write plain_ops k b s = Some t" | "t = s"
    using run False d by (auto simp: process_frame_def bind_Some_iff split: if_splits)
  then show ?thesis
  proof cases
    case 1
    then show ?thesis by (auto intro: upd_ws_steady [OF ok])
  next
    case 2
    then show ?thesis by (auto intro: upd_ws_steady [OF ok])
  next
    case 3
    have a: "steady s s1" by (rule upd_ws_steady [OF ok 3(1)]) simp_all
    then have "steady s1 t"
      using close_ws_req_steady [OF _ _ _ 3(2), of i] at by (auto simp: steady_def kept_def)
    with a show ?thesis by (rule steady_trans)
  next
    case 4
    then show ?thesis using websocket_write_steady [OF ok at] by blast
  next
    case 5
    then show ?thesis using ok by (simp add: steady_refl)
  qed
qed

lemma process_frames_steady:
  assumes "site_ok s" "ws_at i k (custom_obj s)" "i \<in> active_connections s"
    and "process_frames plain_ops k m fs s = Some (closed, ms, t)"
  shows "steady s t"
  using assms
proof (induction fs arbitrary: m ms s)
  case Nil
  then show ?case by (simp add: steady_refl)
next
  case (Cons f fs)
  obtain cl m' s1 where s1: "process_frame plain_ops k m f s = Some (cl, m', s1)"
    and rest: "t = s1 \<or> (\<exists>ms'. process_frames plain_ops k m' fs s1 = Some (closed, ms', t))"
    using Cons.prems(4) by (auto simp: bind_Some_iff Let_def split: if_splits)
  have a: "steady s s1" by (rule process_frame_steady [OF Cons.prems(1-3) s1])
  then have "site_ok s1" "ws_at i k (custom_obj s1)" "i \<in> active_connections s1"
    using Cons.prems by (auto simp: steady_def kept_def)
  then have "steady s1 t" using rest Cons.IH [of s1 m'] by (auto simp: steady_refl)
  with a show ?case by (rule steady_trans)
qed

lemma websocket_process_read_kept:
  assumes ok: "site_ok s" and i: "i \<in> active_websocket_connections (custom_obj s)"
    and run: "websocket_process_read_cb plain_ops i b n s = Some t"
  shows "kept s t"
proof -
  let ?k = "ws_client_idx (tcp_clients (custom_obj s) ! nat i)"
  have w: "i \<in> active_connections s" "in_range (tcp_clients (custom_obj s)) i" "ws_at i ?k (custom_obj s)"
    using ok i by (auto simp: site_ok_def web_ok_def ws_linked_def ws_at_def Let_def)
  obtain fs s1 closed ms s2 where s1: "get_ws_frames plain_ops b n ?k s = Some (fs, s1)"
    and s2: "(case fs of None \<Rightarrow> Some (False, [], s1) | Some fs \<Rightarrow> process_frames plain_ops ?k [] fs s1) = Some (closed, ms, s2)"
    and t: "(if \<not> closed then read_connection i s2 else Some s2) = Some t"
    using run w(2) by (auto simp: websocket_process_read_cb_def bind_Some_iff Let_def vget_in_range)
  have a: "steady s s1" by (rule get_ws_frames_steady [OF ok w(3,1) s1])
  then have s1_ok: "site_ok s1" "ws_at i ?k (custom_obj s1)" "i \<in> active_connections s1"
    using w by (auto simp: steady_def kept_def)
  have b: "steady s1 s2"
    using s2 s1_ok process_frames_steady [OF s1_ok] by (cases fs) (auto simp: steady_refl)
  then have "site_ok s2" "i \<in> active_connections s2" using s1_ok by (auto simp: steady_def kept_def)
  then have "steady s2 t" using t read_connection_steady by (auto simp: steady_refl split: if_splits)
  then show ?thesis using a b by (blast intro: steady_trans steady_kept)
qed

lemma websocket_accept_kept:
  assumes ok: "site_ok s" and i: "i \<in> active_connections s"
    and run: "websocket_accept_read_cb E plain_ops key i s = Some t"
  shows "kept s t"
proof -
  obtain k w cs where w: "new_ws_client i (custom_obj s) = Some (k, w)"
    and cs: "vmod (tcp_clients w) i (\<lambda>c. c\<lparr>ws_client_idx := k\<rparr>) = Some cs"
    and t: "op_write_vec plain_ops i (bytes_of (upgrade_response (env_sha1_base64 E) key)) (s\<lparr>custom_obj := w\<lparr>tcp_clients := cs\<rparr>\<rparr>) = Some t"
    using run by (auto simp: websocket_accept_read_cb_def bind_Some_iff)
  have "web_ok (length (clients s)) (active_connections s) (w\<lparr>tcp_clients := cs\<rparr>)"
    by (rule new_ws_client_ok [OF _ i _ w cs]) (use ok site_active_range [OF ok i] in \<open>auto simp: site_ok_def\<close>)
  then have a: "kept s (s\<lparr>custom_obj := w\<lparr>tcp_clients := cs\<rparr>\<rparr>)"
    by (rule kept_object [OF ok]) (use w in \<open>auto simp: new_ws_client_def Let_def bind_Some_iff split: if_splits\<close>)
  also have "kept (s\<lparr>custom_obj := w\<lparr>tcp_clients := cs\<rparr>\<rparr>) t"
    by (rule steady_kept, rule write_vec_steady [OF _ _ t]) (use a i in \<open>auto simp: kept_def\<close>)
  finally show ?thesis .
qed

lemma websocket_process_write_kept:
  assumes ok: "site_ok s" and run: "websocket_process_write_cb plain_ops i s = Some (used, t)"
  shows "kept s t"
proof -
  have closing: "\<not> ws_close c" if "vget (websocket_clients (custom_obj s)) k = Some c" for k c
    using that ok by (auto simp: site_ok_def web_ok_def vget_eq_Some in_range_nat)
  have "steady s t" if "close_ws_connection_potential_confirm plain_ops k s = Some t" for k
    using that closing [of k] ok steady_refl [OF ok]
    by (auto simp: close_ws_connection_potential_confirm_def bind_Some_iff intro: upd_ws_steady split: if_splits)
  then show ?thesis using run ok
    by (auto simp: websocket_process_write_cb_def bind_Some_iff kept_refl intro: steady_kept split: if_splits)
qed

section \<open>Requests\<close>

text \<open>A change of the cache and of a client's file leaves the WebSockets alone.\<close>

lemma web_ok_files:
  assumes ok: "web_ok n A w" and c: "vget (tcp_clients w) i = Some c" "ws_client_idx c' = ws_client_idx c"
    and cache: "cache_watch_ok cache'" and cs: "vset (tcp_clients w) i c' = Some cs"
  shows "web_ok n A (w\<lparr>web_cache := cache', tcp_clients := cs\<rparr>)"
proof -
  let ?w = "w\<lparr>web_cache := cache', tcp_clients := cs\<rparr>"
  have e: "cs = (tcp_clients w)[nat i := c']" "in_range (tcp_clients w) i" "c = tcp_clients w ! nat i"
    using c cs by (auto simp: vset_eq_Some vget_eq_Some)
  have "ws_linked ?w j" if "in_range (tcp_clients w) j" "ws_linked w j" for j
    using that e c(2) by (cases "j = i") (auto simp: ws_linked_def Let_def nth_nat_update)
  then show ?thesis using ok cache e(1) by (auto simp: web_ok_def)
qed

lemma fetch_item_client: "fetch_item p i c cache = Some (cache', c', r) \<Longrightarrow> ws_client_idx c' = ws_client_idx c"
  by (auto simp: fetch_item_def bind_Some_iff Let_def split: option.splits if_splits)

lemma fetch_kept:
  assumes ok: "site_ok s" and c: "vget (tcp_clients (custom_obj s)) i = Some c"
    and cache: "cache_watch_ok cache" and f: "fetch_item p i c cache = Some (cache', c', r)"
    and cs: "vset (tcp_clients (custom_obj s)) i c' = Some cs"
  shows "kept s (s\<lparr>custom_obj := (custom_obj s)\<lparr>web_cache := cache', tcp_clients := cs\<rparr>\<rparr>)"
  using kept_object [OF ok web_ok_files [OF _ c fetch_item_client [OF f] fetch_item_watch_ok [OF cache f] cs]] ok
  by (simp add: site_ok_def)

lemma send_file_kept:
  assumes ok: "site_ok s" and i: "i \<in> active_connections s"
    and run: "send_file_request E plain_ops i p ab code s = Some (b, t)"
  shows "kept s t"
proof (cases "env_open E p < 0")
  case True
  then show ?thesis using run ok by (simp add: send_file_request_def kept_refl)
next
  case False
  obtain fs c cache' c' r cs where st: "get_file_size (env_stat E (env_open E p)) = Inr fs"
    and c: "vget (tcp_clients (custom_obj s)) i = Some c"
    and f: "fetch_item p i c (web_cache (custom_obj s)) = Some (cache', c', r)"
    and cs: "vset (tcp_clients (custom_obj s)) i c' = Some cs"
    using run False by (auto simp: send_file_request_def Let_def bind_Some_iff split: sum.splits)
  let ?s = "s\<lparr>custom_obj := (custom_obj s)\<lparr>web_cache := cache', tcp_clients := cs\<rparr>\<rparr>"
  have cw: "cache_watch_ok (web_cache (custom_obj s))" using ok by (simp add: site_ok_def web_ok_def)
  have a: "kept s ?s" by (rule fetch_kept [OF ok c cw f cs])
  then have s': "site_ok ?s" "i \<in> active_connections ?s" using i by (auto simp: kept_def)
  show ?thesis
  proof (cases "found r")
    case True
    then have "op_write_ptr plain_ops i (fetch_buff r) (fetch_size r) ?s = Some t"
      using run False st c f cs by (auto simp: send_file_request_def Let_def bind_Some_iff split: if_splits)
    then have "steady ?s t" by (rule write_ptr_steady [OF s' fetch_item_found [OF f True]])
    then show ?thesis using a steady_kept kept_trans by blast
  next
    case nf: False
    then obtain cs' fd n buf h where cs': "vset cs i (c'\<lparr>last_requested_read_filepath := p\<rparr>) = Some cs'"
      and t: "custom_read_req fd n i buf h (?s\<lparr>custom_obj := (custom_obj ?s)\<lparr>tcp_clients := cs'\<rparr>\<rparr>) = Some t"
      using run False st c f cs by (auto simp: send_file_request_def Let_def bind_Some_iff split: if_splits)
    have c': "vget (tcp_clients (custom_obj ?s)) i = Some c'"
      using cs by (auto simp: vset_eq_Some vget_eq_Some in_range_nat)
    have "kept ?s (?s\<lparr>custom_obj := (custom_obj ?s)\<lparr>web_cache := cache', tcp_clients := cs'\<rparr>\<rparr>)"
      by (rule kept_object [OF s'(1) web_ok_files [OF _ c' _ fetch_item_watch_ok [OF cw f]]])
         (use s' cs' in \<open>auto simp: site_ok_def\<close>)
    moreover from this have "steady (?s\<lparr>custom_obj := (custom_obj ?s)\<lparr>web_cache := cache', tcp_clients := cs'\<rparr>\<rparr>) t"
      by (intro custom_read_steady [OF kept_site]) (use t in auto)
    ultimately show ?thesis using a steady_kept kept_trans by blast
  qed
qed

lemma get_process_kept:
  assumes "site_ok s" "i \<in> active_connections s" "get_process E plain_ops p ab key i s = Some (b, t)"
  shows "kept s t"
  using assms websocket_accept_kept [OF assms(1,2)] send_file_kept [OF assms(1,2)]
  by (auto simp: get_process_def bind_Some_iff split: if_splits)

section \<open>The callbacks\<close>

lemma read_callback_site:
  assumes ok: "site_ok s" and i: "i \<in> active_connections s" and run: "read_callback E plain_ops i b n s = Some t"
  shows "site_ok t \<and> books t = books s"
proof -
  obtain http where h: "is_valid_http_req (str_of b) n = Some http" using run by (auto simp: read_callback_def bind_Some_iff)
  show ?thesis
  proof (cases http)
    case True
    obtain q where q: "parse_request (str_of b) = Some q"
      using run h True by (auto simp: read_callback_def bind_Some_iff)
    define d where "d = (if \<not> hr_is_GET q then Some (False, s)
        else get_process E plain_ops (hr_path q) (hr_accept_bytes q) (hr_websocket_key q) i s)"
    have "do { (good, s) \<leftarrow> d;
        if \<not> good then map_option snd (send_file_request E plain_ops i ''public/404.html'' False 400 s)
        else if i \<in> active_websocket_connections (custom_obj s) then read_connection i s else Some s } = Some t"
      using run h True q by (simp add: read_callback_def d_def)
    then obtain good s1 where s1: "d = Some (good, s1)"
      and t: "if good then (if i \<in> active_websocket_connections (custom_obj s1) then read_connection i s1 else Some s1) = Some t
        else \<exists>b'. send_file_request E plain_ops i ''public/404.html'' False 400 s1 = Some (b', t)"
      by (auto simp: bind_Some_iff split: if_splits)
    have "kept s s1" using s1 ok get_process_kept [OF ok i] by (auto simp: d_def kept_refl split: if_splits)
    then have s1_ok: "site_ok s1" "i \<in> active_connections s1" and same: "books s1 = books s" using i by (auto simp: kept_def)
    show ?thesis using t s1_ok same read_connection_steady [OF s1_ok] send_file_kept [OF s1_ok]
      by (auto simp: kept_def steady_def split: if_splits)
  next
    case False
    show ?thesis
    proof (cases "i \<in> active_websocket_connections (custom_obj s)")
      case True
      then obtain s1 where s1: "websocket_process_read_cb plain_ops i b n s = Some s1" "read_connection i s1 = Some t"
        using run h False by (auto simp: read_callback_def bind_Some_iff)
      have "kept s s1" by (rule websocket_process_read_kept [OF ok True s1(1)])
      then show ?thesis using read_connection_steady [OF _ _ s1(2)] i by (auto simp: kept_def steady_def)
    next
      case no: False
      then show ?thesis using run h False web_close_connection_site [OF ok i] by (simp add: read_callback_def)
    qed
  qed
qed

lemma write_callback_site:
  assumes ok: "site_ok s" and i: "i \<in> active_connections s" and run: "write_callback E plain_ops i info s = Some t"
  shows "\<exists>w. broadcast_done E info (custom_obj s) = Some w \<and> site_ok t \<and> books t = books (s\<lparr>custom_obj := w\<rparr>)"
proof -
  obtain w used s2 where w: "broadcast_done E info (custom_obj s) = Some w"
    and s2: "websocket_process_write_cb plain_ops i (s\<lparr>custom_obj := w\<rparr>) = Some (used, s2)"
    and t: "(if \<not> used then web_close_connection plain_ops i s2 else Some s2) = Some t"
    using run by (auto simp: write_callback_def on_web_def bind_Some_iff)
  have "site_ok (s\<lparr>custom_obj := w\<rparr>)" using ok broadcast_done_ok [OF _ w] by (simp add: site_ok_def)
  then have a: "kept (s\<lparr>custom_obj := w\<rparr>) s2" using websocket_process_write_kept s2 by blast
  then have "site_ok s2" "i \<in> active_connections s2" using i by (auto simp: kept_def)
  then have "site_ok t \<and> books t = books s2" using t web_close_connection_site by (auto split: if_splits)
  then show ?thesis using w a by (simp add: kept_def)
qed

lemma custom_read_callback_site:
  assumes ok: "site_ok s" and i: "0 \<le> i \<longrightarrow> i \<in> active_connections s"
    and run: "custom_read_callback E plain_ops i fd b s = Some t"
  shows "site_ok t \<and> books t = books s"
proof (cases "fd = inotify_fd (custom_obj s)")
  case True
  then obtain wd s1 where s1: "on_web (\<lambda>w. do { c \<leftarrow> inotify_event_handler wd (web_cache w); Some (w\<lparr>web_cache := c\<rparr>) }) s = Some s1"
    and t: "custom_read_req (inotify_fd (custom_obj s1)) 16 (-1) [] 0 s1 = Some t"
    using run by (auto simp: custom_read_callback_def bind_Some_iff)
  have "kept s s1"
    by (rule on_web_kept [OF ok s1])
       (use ok inotify_watch_ok in \<open>auto simp: site_ok_def web_ok_def ws_linked_def bind_Some_iff\<close>)
  then show ?thesis using custom_read_steady [OF kept_site t] by (auto simp: steady_def kept_def)
next
  case False
  obtain c cache' ins where c: "vget (tcp_clients (custom_obj s)) i = Some c"
    and ins: "try_insert_item (env_order E) (env_watch E (last_requested_read_filepath c)) i (last_requested_read_filepath c) b
        (web_cache (custom_obj s)) = Some (cache', ins)"
    using run False by (auto simp: custom_read_callback_def Let_def bind_Some_iff)
  let ?s = "s\<lparr>closed_fds := closed_fds s @ [fd], custom_obj := (custom_obj s)\<lparr>web_cache := cache'\<rparr>\<rparr>"
  have cw: "cache_watch_ok cache'" and a: "i \<in> active_connections s"
    using try_insert_then_found(1) [OF _ ins] ok i c by (auto simp: site_ok_def web_ok_def vget_eq_Some in_range_def)
  have s': "site_ok ?s" and same: "books ?s = books s" using ok cw by (auto simp: site_ok_def web_ok_def ws_linked_def books_def)
  have c': "vget (tcp_clients (custom_obj ?s)) i = Some c" using c by simp
  show ?thesis
  proof (cases ins)
    case True
    obtain cache'' c'' r cs where f: "fetch_item (last_requested_read_filepath c) i c cache' = Some (cache'', c'', r)"
      and cs: "vset (tcp_clients (custom_obj ?s)) i c'' = Some cs"
      and t: "op_write_ptr plain_ops i (fetch_buff r) (fetch_size r)
        (?s\<lparr>custom_obj := (custom_obj ?s)\<lparr>web_cache := cache'', tcp_clients := cs\<rparr>\<rparr>) = Some t"
      using run False c ins True by (auto simp: custom_read_callback_def Let_def bind_Some_iff)
    have "found r" using try_insert_then_found(2) [OF _ ins True f] ok by (simp add: site_ok_def web_ok_def)
    then have p: "fetch_buff r \<noteq> Nullptr" by (rule fetch_item_found [OF f])
    have k: "kept ?s (?s\<lparr>custom_obj := (custom_obj ?s)\<lparr>web_cache := cache'', tcp_clients := cs\<rparr>\<rparr>)"
      by (rule fetch_kept [OF s' c' cw f cs])
    have "kept ?s t" using k by (rule kept_trans) (rule steady_kept [OF write_ptr_steady [OF kept_site [OF k] _ p t]], use a in simp)
    then show ?thesis using same by (simp add: kept_def)
  next
    case no: False
    then have "op_write_vec plain_ops i b ?s = Some t"
      using run False c ins by (auto simp: custom_read_callback_def Let_def bind_Some_iff)
    then have "kept ?s t" by (intro steady_kept [OF write_vec_steady [OF s']]) (use a in auto)
    then show ?thesis using same by (simp add: kept_def)
  qed
qed

text \<open>A message of the program thread waits for the server, with something to broadcast.\<close>

definition posted :: "'q web_env \<Rightarrow> 'q web \<Rightarrow> bool" where
  "posted E w \<longleftrightarrow> (case q_try_dequeue (env_queue E) (to_server_queue (web_channel w)) of
     None \<Rightarrow> False | Some (m, _) \<Rightarrow> msg_buff_ptr m \<noteq> Nullptr)"

lemma event_callback_site:
  assumes ok: "site_ok s" and msg: "posted E (custom_obj s)" and run: "event_callback E plain_ops s = Some t"
  shows "site_ok t"
proof -
  let ?w = "custom_obj s"
  let ?A = "active_websocket_connections ?w"
  obtain m ch where m: "get_from_to_server_queue (env_queue E) (web_channel ?w) = (m, ch)" "msg_buff_ptr m \<noteq> Nullptr"
    using msg by (auto simp: posted_def get_from_to_server_queue_def split: option.splits)
  have same: "site_ok (s\<lparr>custom_obj := ?w\<lparr>web_channel := c, broadcast_data := d\<rparr>\<rparr>)" for c d
    using ok by (auto simp: site_ok_def web_ok_def ws_linked_def)
  have A: "?A \<subseteq> active_connections s" "finite ?A" using ok by (auto simp: site_ok_def web_ok_def)
  show ?thesis
  proof (cases "card ?A > 0")
    case True
    then obtain d where "op_broadcast plain_ops (uord_list (env_order E) ?A) (int (card ?A)) (msg_buff_ptr m) (msg_length m)
        (msg_item_idx m) (s\<lparr>custom_obj := ?w\<lparr>web_channel := ch, broadcast_data := d\<rparr>\<rparr>) = Some t"
      using run m by (auto simp: event_callback_def Let_def bind_Some_iff)
    then show ?thesis
      by (intro broadcast_site [OF same _ m(2)]) (use A in auto)
  next
    case False
    then show ?thesis using run m ok
      by (auto simp: event_callback_def Let_def site_ok_def web_ok_def ws_linked_def)
  qed
qed

section \<open>The contract\<close>

interpretation web: plain_layer "web_callbacks E plain_ops" "\<lambda>n A M w. web_ok n A w" "posted E" for E :: "'q web_env"
proof (unfold_locales, goal_cases accept no_accept close no_close on_read on_write no_write on_event custom)
  case (accept f s i n t)
  have i: "in_range (clients s) i" using accept(2,3) by (auto simp: plain_inv_at_def dest: plain_ok_active)
  obtain w where w: "new_tcp_client i (custom_obj s) = Some w" "t = s\<lparr>custom_obj := w\<rparr>"
    using accept(1,6) by (auto simp: web_callbacks_def accept_callback_def on_web_def bind_Some_iff)
  have "i \<le> int n" using i accept(5) by (auto simp: in_range_def split: if_splits)
  then show ?case using new_tcp_client_ok [OF accept(4) _ _ w(1)] i accept(2,5) w(2) by (auto simp: in_range_def)
next
  case (close g n s M info p i t)
  obtain w1 w2 where w: "broadcast_done E info (custom_obj s) = Some w1" "kill_client i w1 = Some w2" "t = s\<lparr>custom_obj := w2\<rparr>"
    using close(1,5) by (auto simp: web_callbacks_def close_callback_def on_web_def bind_Some_iff)
  have "web_ok n (active_connections s) w2 \<and> web_ok n (active_connections s - {i}) w2"
    by (rule kill_client_ok [OF broadcast_done_ok [OF close(2) w(1)] close(3) w(2)])
  then show ?case using w(3) by blast
next
  case (on_read h s i data len t)
  then show ?case using read_callback_site [of s i E data len t] by (simp add: web_callbacks_def site_ok_def)
next
  case (on_write g s i info p t)
  then show ?case using write_callback_site [of s i E info t] by (auto simp: web_callbacks_def site_ok_def)
next
  case (on_event e s t)
  then show ?case using event_callback_site [of s E t] by (simp add: web_callbacks_def site_ok_def)
next
  case (custom k s i fd buff t)
  then show ?case using custom_read_callback_site [of s i E fd buff t] by (simp add: web_callbacks_def site_ok_def)
qed (simp_all add: web_callbacks_def)

section \<open>Runs of the web server\<close>

text \<open>The program thread posts a message for the server thread and writes to its event descriptor.\<close>

definition post_broadcast :: "'q web_env \<Rightarrow> cptr \<Rightarrow> int \<Rightarrow> int \<Rightarrow> ('c, 'q web) server \<Rightarrow> ('c, 'q web) server" where
  "post_broadcast E p len item_idx s =
     (if \<not> tcp_server_set (web_channel (custom_obj s)) then s
      else notify_event (s\<lparr>custom_obj := (custom_obj s)\<lparr>web_channel :=
        post_message_to_server_thread (env_queue E) websocket_broadcast p len item_idx (u64 (-1)) (web_channel (custom_obj s))\<rparr>\<rparr>))"

text \<open>
  A step is the processing of a completion, a message from the program thread, or the order to stop.
  Every write to the event descriptor follows a message, and every wake-up takes only one, so a
  message is waiting when a notification is read.
\<close>

inductive web_step :: "'q web_env \<Rightarrow> (unit, 'q web) server \<Rightarrow> (unit, 'q web) server \<Rightarrow> bool" for E where
  completion: "is_active s \<Longrightarrow> (e, r) \<in># inflight s \<Longrightarrow> kernel_result e res data \<Longrightarrow> on_time s peek r res \<Longrightarrow>
     (rq_event r = NOTIFICATION \<longrightarrow> posted E (custom_obj s)) \<Longrightarrow>
     complete (env_order E) (plain_derived (web_callbacks E plain_ops)) (web_callbacks E plain_ops) peek e r res data s = Some t \<Longrightarrow>
     web_step E s t"
| message: "p \<noteq> Nullptr \<Longrightarrow> web_step E s (post_broadcast E p len item_idx s)"
| killed: "web_step E s (kill_server s)"

inductive_cases web_stepE: "web_step E s t"

inductive web_run :: "'q web_env \<Rightarrow> (unit, 'q web) server \<Rightarrow> (unit, 'q web) server \<Rightarrow> bool" for E s where
  here: "web_run E s s"
| more: "web_run E s t \<Longrightarrow> web_step E t u \<Longrightarrow> web_run E s u"

lemma web_step_active: "web_step E s t \<Longrightarrow> is_active t \<Longrightarrow> is_active s"
  by (erule web_stepE) (auto simp: post_broadcast_def notify_event_def kill_server_def split: if_splits)

lemma web_step_site:
  assumes "web_step E s t" "site_ok s" "is_active t"
  shows "site_ok t"
  using assms(1)
proof (cases rule: web_step.cases)
  case (completion e r res data peek)
  then show ?thesis using web.complete_pres [OF completion(6,2,3,4) _ completion(5)] assms(2,3) by (simp add: site_ok_def)
next
  case (message p len item_idx)
  then show ?thesis using assms(2)
    by (auto simp: post_broadcast_def notify_event_def site_ok_def plain_inv_at_def web_ok_def ws_linked_def)
next
  case killed
  then show ?thesis using assms(2) by (simp add: kill_server_def site_ok_def plain_inv_at_def)
qed

lemma web_run_site: "web_run E s t \<Longrightarrow> site_ok s \<Longrightarrow> is_active t \<Longrightarrow> site_ok t"
proof (induction rule: web_run.induct)
  case here
  then show ?case by simp
next
  case (more t u)
  then show ?case using web_step_site web_step_active by blast
qed

text \<open>The server of a thread: constructed with its web server as object, given to it, and started.\<close>

lemma base_inv:
  assumes "server_base nefd kefd tfd gai addrs lr obj = Inr s0"
  shows "plain_inv s0" "clients s0 = []" "custom_obj s0 = obj" "active_connections s0 = {}" "is_active s0"
  using assms
  by (auto simp: server_base_def event_read_def add_timerfd_read_req_def submit_def new_request_def plain_inv_at_def plain_ok_def
      in_range_def client_request_def Let_def split: sum.splits)

lemma start_site:
  assumes "site_ok s"
  shows "site_ok (start s)"
proof -
  let ?s = "s\<lparr>ran_server := True\<rparr>"
  have "site_ok ?s" using assms by (simp add: site_ok_def plain_inv_at_def)
  then have "site_ok (add_tcp_accept_req ?s)"
    using site_frame [of ?s] submit_other_ok [of ?s "new_request ACCEPT"]
    by (simp add: add_tcp_accept_req_def add_accept_req_def client_request_def new_request_def site_ok_def submit_def)
  then show ?thesis using assms by (simp add: start_def)
qed

lemma site_started:
  assumes "server_base nefd kefd tfd gai addrs lr (new_web ch ifd) = Inr s0" "set_tcp_server s0 = Some s1"
  shows "site_ok (start s1)"
proof -
  let ?w = "new_web ch ifd"
  have "site_ok (s0\<lparr>custom_obj := ?w\<lparr>web_channel := ch\<lparr>tcp_server_set := True\<rparr>\<rparr>\<rparr>)"
    using base_inv [OF assms(1)] new_cache_watch_ok [of 5] by (simp add: site_ok_def web_ok_def new_web_def)
  then have "site_ok s1"
    using custom_read_steady [of _ ifd 16 "-1" "[]" 0 s1] assms(2) base_inv(3) [OF assms(1)]
    by (auto simp: set_tcp_server_def new_web_def steady_def kept_def)
  then show ?thesis by (rule start_site)
qed

lemma runner_site:
  assumes "plain_thread_server_runner conf N (new_web ch ifd) = Some (Inr s0)"
  shows "site_ok s0"
proof -
  obtain port where p: "(case plain_server_new N port (new_web ch ifd) of Inl msg \<Rightarrow> Some (Inl msg)
      | Inr s \<Rightarrow> do { s \<leftarrow> set_tcp_server s; Some (Inr (start s)) }) = Some (Inr s0)"
    using assms by (auto simp: plain_thread_server_runner_def bind_Some_iff)
  then obtain s s1 where "plain_server_new N port (new_web ch ifd) = Inr s" "set_tcp_server s = Some s1" "s0 = start s1"
    by (cases "plain_server_new N port (new_web ch ifd)") (auto simp: bind_Some_iff)
  then show ?thesis using site_started by (auto simp: plain_server_new_def)
qed

end
