(* ===== verification/Central.thy ===== *)
theory Central
  imports Threads Data_Store Ws_Codec
begin

text \<open>
  The program thread, \<open>central_web_server\<close> in \<open>web_server/central_web_server.cpp\<close>: its
  requests, its event loop \<open>run\<close> and \<open>kill_server\<close>.

  Requests are allocated with \<open>new\<close> and freed with \<open>delete\<close>; \<open>cw_heap\<close> maps the
  addresses of the live ones to them, and an access to a freed one is undefined. Submissions in
  flight are pairs of an operation and the address of its request.
\<close>

section \<open>Data\<close>

datatype central_web_server_event = CW_TIMERFD | CW_READ | CW_WRITE | CW_SERVER_THREAD_COMMUNICATION | CW_KILL_SERVER

record central_web_server_req =
  cr_event :: central_web_server_event
  cr_buff :: bytes
  cr_buff_ptr :: cptr
  cr_size :: int
  cr_progress_bytes :: int
  cr_fd :: int
  cr_custom_info :: int

definition new_central_req :: central_web_server_req where
  "new_central_req = \<lparr>cr_event = CW_TIMERFD, cr_buff = [], cr_buff_ptr = Nullptr, cr_size = u64 (-1),
     cr_progress_bytes = 0, cr_fd = -1, cr_custom_info = u64 (-1)\<rparr>"

record 'q central =
  cw_store :: data_store
  cw_threads :: "'q channel list"
  cw_heap :: "nat \<rightharpoonup> central_web_server_req"
  cw_next :: nat
  cw_inflight :: "(sqe \<times> nat) multiset"
  cw_event_fd :: nat
  cw_kill_server_efd :: nat
  cw_kill_fd :: int
  cw_timer_fd :: int
  run_server :: bool

section \<open>Requests\<close>

definition cw_submit :: "sqe \<Rightarrow> nat \<Rightarrow> 'q central \<Rightarrow> 'q central" where
  "cw_submit sqe a c = c\<lparr>cw_inflight := add_mset (sqe, a) (cw_inflight c)\<rparr>"

definition cw_new :: "central_web_server_req \<Rightarrow> 'q central \<Rightarrow> nat \<times> 'q central" where
  "cw_new req c = (cw_next c, c\<lparr>cw_heap := (cw_heap c)(cw_next c \<mapsto> req), cw_next := cw_next c + 1\<rparr>)"

definition cw_add_event_read_req :: "int \<Rightarrow> central_web_server_event \<Rightarrow> int \<Rightarrow> 'q central \<Rightarrow> 'q central" where
  "cw_add_event_read_req event_fd event custom_info c = (
     let (req, c) = cw_new (new_central_req\<lparr>cr_buff := replicate 8 0, cr_event := event, cr_fd := event_fd,
                              cr_custom_info := u64 custom_info\<rparr>) c
     in cw_submit (Op_read event_fd 0 8 0) req c)"

definition cw_add_read_req :: "int \<Rightarrow> nat \<Rightarrow> 'q central \<Rightarrow> 'q central" where
  "cw_add_read_req fd sz c = (
     let (req, c) = cw_new (new_central_req\<lparr>cr_buff := replicate sz 0, cr_event := CW_READ, cr_fd := fd\<rparr>) c
     in cw_submit (Op_read fd 0 (int sz) 0) req c)"

definition cw_add_timer_read_req :: "int \<Rightarrow> 'q central \<Rightarrow> 'q central" where
  "cw_add_timer_read_req timer_fd c = (
     let (req, c) = cw_new (new_central_req\<lparr>cr_buff := replicate 8 0, cr_event := CW_TIMERFD, cr_fd := timer_fd\<rparr>) c
     in cw_submit (Op_read timer_fd 0 8 0) req c)"

definition cw_add_write_req :: "int \<Rightarrow> cptr \<Rightarrow> int \<Rightarrow> 'q central \<Rightarrow> 'q central" where
  "cw_add_write_req fd buff_ptr sz c = (
     let (req, c) = cw_new (new_central_req\<lparr>cr_buff_ptr := buff_ptr, cr_size := sz, cr_fd := fd,
                              cr_event := CW_WRITE\<rparr>) c
     in cw_submit (Op_write fd buff_ptr sz) req c)"

definition read_req_continued :: "nat \<Rightarrow> int \<Rightarrow> 'q central \<Rightarrow> 'q central option" where
  "read_req_continued a last_read c = do {
     req \<leftarrow> cw_heap c a;
     let req = req\<lparr>cr_progress_bytes := u64 (cr_progress_bytes req + last_read)\<rparr>;
     let c = c\<lparr>cw_heap := (cw_heap c)(a \<mapsto> req)\<rparr>;
     Some (cw_submit (Op_read (cr_fd req) (cr_progress_bytes req)
             (u64 (int (length (cr_buff req)) - cr_progress_bytes req)) (cr_progress_bytes req)) a c)
   }"

definition write_req_continued :: "nat \<Rightarrow> int \<Rightarrow> 'q central \<Rightarrow> 'q central option" where
  "write_req_continued a written c = do {
     req \<leftarrow> cw_heap c a;
     let req = req\<lparr>cr_progress_bytes := u64 (cr_progress_bytes req + written)\<rparr>;
     let c = c\<lparr>cw_heap := (cw_heap c)(a \<mapsto> req)\<rparr>;
     Some (cw_submit (Op_write (cr_fd req) (ptr_add (cr_buff_ptr req) (cr_progress_bytes req))
             (u64 (cr_size req - cr_progress_bytes req))) a c)
   }"

section \<open>The event loop\<close>

text \<open>Before the loop: a read of every server's event, of the kill event and of the timer.\<close>

fun read_thread_events :: "int \<Rightarrow> 'q channel list \<Rightarrow> 'q central \<Rightarrow> 'q central" where
  "read_thread_events idx [] c = c"
| "read_thread_events idx (ch # chs) c =
     read_thread_events (idx + 1) chs
       (cw_add_event_read_req (central_communication_eventfd ch) CW_SERVER_THREAD_COMMUNICATION idx c)"

definition cw_run_start :: "'q central \<Rightarrow> 'q central" where
  "cw_run_start c = (
     let c = read_thread_events 0 (cw_threads c) c;
         c = cw_add_event_read_req (cw_kill_fd c) CW_KILL_SERVER 0 c;
         c = c\<lparr>run_server := True\<rparr>
     in cw_add_timer_read_req (cw_timer_fd c) c)"

text \<open>The message \<open>"haha"\<close> that the timer broadcasts.\<close>

definition broadcast_text :: bytes where
  "broadcast_text = [104, 97, 104, 97]"

definition cw_timer :: "'q queue_impl \<Rightarrow> uorder \<Rightarrow> 'q central \<Rightarrow> 'q central option" where
  "cw_timer Q ord c = do {
     let ws_data = make_ws_frame broadcast_text text_frame;
     (store, buff, idx) \<leftarrow> insert_item ord (cw_store c) ws_data (int (length (cw_threads c)));
     let c = c\<lparr>cw_store := store,
               cw_threads := map (post_message_to_server_thread Q websocket_broadcast (Ptr (Store_slot idx) buff)
                 (int (length buff)) idx (u64 (-1))) (cw_threads c)\<rparr>;
     Some (cw_add_timer_read_req (cw_timer_fd c) c)
   }"

definition cw_thread_event :: "'q queue_impl \<Rightarrow> central_web_server_req \<Rightarrow> 'q central \<Rightarrow> 'q central option" where
  "cw_thread_event Q req c =
     (if cr_custom_info req \<noteq> u64 (-1) then do {
        ch \<leftarrow> vget (cw_threads c) (cr_custom_info req);
        let (data, ch) = get_from_to_program_queue Q ch;
        threads \<leftarrow> vset (cw_threads c) (cr_custom_info req) ch;
        store \<leftarrow> free_item (cw_store c) (msg_item_idx data);
        let c = c\<lparr>cw_threads := threads, cw_store := store\<rparr>;
        Some (cw_add_event_read_req (cr_fd req) CW_SERVER_THREAD_COMMUNICATION (cr_custom_info req) c)
      } else Some c)"

text \<open>
  The body of the loop for a completion with result \<open>res\<close> of the request at address \<open>a\<close>.
  \<open>delete req\<close> frees the request, except after a continued read, where \<open>req\<close> is null.
\<close>

definition cw_loop_body :: "'q queue_impl \<Rightarrow> uorder \<Rightarrow> nat \<Rightarrow> int \<Rightarrow> 'q central \<Rightarrow> 'q central option" where
  "cw_loop_body Q ord a res c = do {
     req \<leftarrow> cw_heap c a;
     if res < 0 then Some c
     else do {
       (c, del) \<leftarrow> (case cr_event req of
          CW_KILL_SERVER \<Rightarrow> Some (c\<lparr>run_server := False\<rparr>, True)
        | CW_TIMERFD \<Rightarrow> do { c \<leftarrow> cw_timer Q ord c; Some (c, True) }
        | CW_SERVER_THREAD_COMMUNICATION \<Rightarrow> do { c \<leftarrow> cw_thread_event Q req c; Some (c, True) }
        | CW_READ \<Rightarrow>
            if int (length (cr_buff req)) = u64 (res + cr_progress_bytes req) then Some (c, True)
            else do { c \<leftarrow> read_req_continued a res c; Some (c, False) }
        | CW_WRITE \<Rightarrow>
            if u64 (res + cr_progress_bytes req) < cr_size req
            then do { c \<leftarrow> write_req_continued a res c; Some (c, True) }
            else Some (c, True));
       Some (if del then c\<lparr>cw_heap := (cw_heap c)(a := None)\<rparr> else c)
     }
   }"

text \<open>A completion: the kernel takes the submission and hands its request to the loop.\<close>

definition cw_complete :: "'q queue_impl \<Rightarrow> uorder \<Rightarrow> sqe \<times> nat \<Rightarrow> int \<Rightarrow> 'q central \<Rightarrow> 'q central option" where
  "cw_complete Q ord e res c =
     (if e \<in># cw_inflight c
      then cw_loop_body Q ord (snd e) res (c\<lparr>cw_inflight := cw_inflight c - {#e#}\<rparr>)
      else None)"

text \<open>
  One iteration: \<open>ret\<close> is the result of \<open>io_uring_wait_cqe\<close>, kept in a \<open>char\<close>. A failed
  wait ends the loop.
\<close>

definition cw_iteration :: "'q queue_impl \<Rightarrow> uorder \<Rightarrow> int \<Rightarrow> sqe \<times> nat \<Rightarrow> int \<Rightarrow> 'q central \<Rightarrow> 'q central option" where
  "cw_iteration Q ord ret e res c =
     (if sint (word_of_int ret :: 8 word) < 0 then Some (c\<lparr>run_server := False\<rparr>)
      else cw_complete Q ord e res c)"

section \<open>kill_server\<close>

text \<open>
  \<open>write(event_fd, &kill_sig, sizeof(kill_sig))\<close> writes the four bytes of an enumeration to an
  event descriptor, which the kernel refuses: it takes eight bytes. An eight byte write adds its
  value to the counter.
\<close>

definition eventfd_write_bytes :: "nat \<Rightarrow> nat \<Rightarrow> nat \<Rightarrow> nat" where
  "eventfd_write_bytes sz value counter = (if sz < 8 then counter else counter + value)"

definition cw_kill_server :: "'q central \<Rightarrow> 'q central" where
  "cw_kill_server c = c\<lparr>cw_event_fd := eventfd_write_bytes 4 4 (cw_event_fd c),
     cw_threads := map (\<lambda>ch. if tcp_server_set ch then ch\<lparr>server_kill := server_kill ch + 1\<rparr> else ch) (cw_threads c)\<rparr>"

end
