(* ===== verification/Central_Props.thy ===== *)
theory Central_Props
  imports Central
begin

text \<open>
  The broadcast protocol between the program thread and the server threads. A server thread is known
  here by its contract: woken by its event it takes one message from its queue, and later reports the
  item of each message it has taken as finished, once. Over all interleavings of the program thread,
  the server threads and the kernel, the uses the store counts for an item are the messages about
  it that are still on their way.
\<close>

section \<open>The system\<close>

text \<open>\<open>held\<close> lists, per thread, the items of the messages taken and not yet reported.\<close>

record 'q broadcast_system =
  sys :: "'q central"
  held :: "int list list"

text \<open>The event descriptor that the read of an operation waits for has been signalled.\<close>

definition thread_woken :: "central_web_server_req \<Rightarrow> 'q central \<Rightarrow> bool" where
  "thread_woken req c \<longleftrightarrow> in_range (cw_threads c) (cr_custom_info req) \<and>
     0 < central_efd (cw_threads c ! nat (cr_custom_info req))"

text \<open>Reading an event descriptor resets its counter.\<close>

definition consume_thread_efd :: "int \<Rightarrow> 'q central \<Rightarrow> 'q central" where
  "consume_thread_efd i c = c\<lparr>cw_threads := (cw_threads c)[nat i := (cw_threads c ! nat i)\<lparr>central_efd := 0\<rparr>]\<rparr>"

text \<open>The steps of the program thread: its completions, and the signal handler.\<close>

inductive cstep :: "'q queue_impl \<Rightarrow> uorder \<Rightarrow> 'q central \<Rightarrow> 'q central \<Rightarrow> bool"
  for Q ord where
  timer: "e \<in># cw_inflight c \<Longrightarrow> cw_heap c (snd e) = Some req \<Longrightarrow> cr_event req = CW_TIMERFD \<Longrightarrow>
     cw_complete Q ord e 8 c = Some c' \<Longrightarrow> cstep Q ord c c'"
| reported: "e \<in># cw_inflight c \<Longrightarrow> cw_heap c (snd e) = Some req \<Longrightarrow>
     cr_event req = CW_SERVER_THREAD_COMMUNICATION \<Longrightarrow> thread_woken req c \<Longrightarrow>
     cw_complete Q ord e 8 (consume_thread_efd (cr_custom_info req) c) = Some c' \<Longrightarrow> cstep Q ord c c'"
| killed: "e \<in># cw_inflight c \<Longrightarrow> cw_heap c (snd e) = Some req \<Longrightarrow> cr_event req = CW_KILL_SERVER \<Longrightarrow>
     0 < cw_kill_server_efd c \<Longrightarrow> cw_complete Q ord e 8 (c\<lparr>cw_kill_server_efd := 0\<rparr>) = Some c' \<Longrightarrow> cstep Q ord c c'"
| failed: "e \<in># cw_inflight c \<Longrightarrow> res < 0 \<Longrightarrow> cw_complete Q ord e res c = Some c' \<Longrightarrow> cstep Q ord c c'"
| sigint: "cstep Q ord c (cw_kill_server c)"

text \<open>The steps of a server thread, on its channel and the items it holds.\<close>

inductive tstep :: "'q queue_impl \<Rightarrow> 'q channel \<times> int list \<Rightarrow> 'q channel \<times> int list \<Rightarrow> bool"
  for Q where
  taken: "0 < server_efd ch \<Longrightarrow> get_from_to_server_queue Q (ch\<lparr>server_efd := 0\<rparr>) = (m, ch') \<Longrightarrow>
     tstep Q (ch, h) (ch', h @ [msg_item_idx m])"
| finished: "tstep Q (ch, ks @ k # ks') (post_message_to_program Q broadcast_finished p len k (u64 (-1)) ch, ks @ ks')"

text \<open>The interleaving of the program thread and the server threads.\<close>

definition set_thread :: "nat \<Rightarrow> 'q channel \<times> int list \<Rightarrow> 'q broadcast_system \<Rightarrow> 'q broadcast_system" where
  "set_thread i th s = s\<lparr>sys := (sys s)\<lparr>cw_threads := (cw_threads (sys s))[i := fst th]\<rparr>, held := (held s)[i := snd th]\<rparr>"

inductive bstep :: "'q queue_impl \<Rightarrow> uorder \<Rightarrow> 'q broadcast_system \<Rightarrow> 'q broadcast_system \<Rightarrow> bool"
  for Q ord where
  program: "cstep Q ord (sys s) c \<Longrightarrow> bstep Q ord s (s\<lparr>sys := c\<rparr>)"
| thread: "i < length (cw_threads (sys s)) \<Longrightarrow> tstep Q (cw_threads (sys s) ! i, held s ! i) th \<Longrightarrow>
     bstep Q ord s (set_thread i th s)"

inductive_cases bstepE: "bstep Q ord s s'"

inductive breach :: "'q queue_impl \<Rightarrow> uorder \<Rightarrow> 'q broadcast_system \<Rightarrow> 'q broadcast_system \<Rightarrow> bool"
  for Q ord s where
  here: "breach Q ord s s"
| there: "breach Q ord s s' \<Longrightarrow> bstep Q ord s' s'' \<Longrightarrow> breach Q ord s s''"

text \<open>The system when \<open>run\<close> enters its loop: empty store and queues, every server set.\<close>

definition fresh_channel :: "'q queue_impl \<Rightarrow> ('q \<Rightarrow> message_post_data list) \<Rightarrow> 'q channel \<Rightarrow> bool" where
  "fresh_channel Q contents ch \<longleftrightarrow> contents (to_server_queue ch) = [] \<and> contents (to_program_queue ch) = [] \<and>
     tcp_server_set ch \<and> server_efd ch = 0 \<and> central_efd ch = 0"

definition fresh_central :: "'q queue_impl \<Rightarrow> ('q \<Rightarrow> message_post_data list) \<Rightarrow> 'q central \<Rightarrow> bool" where
  "fresh_central Q contents c \<longleftrightarrow> cw_store c = empty_store \<and> list_all (fresh_channel Q contents) (cw_threads c) \<and>
     cw_threads c \<noteq> [] \<and> int (length (cw_threads c)) < 2 ^ 31 \<and> cw_heap c = Map.empty \<and> cw_inflight c = {#} \<and>
     cw_event_fd c = 0 \<and> cw_kill_server_efd c = 0"

definition started_system :: "'q central \<Rightarrow> 'q broadcast_system" where
  "started_system c = \<lparr>sys = cw_run_start c, held = replicate (length (cw_threads c)) []\<rparr>"

section \<open>Conservation\<close>

definition item_count :: "int \<Rightarrow> message_post_data list \<Rightarrow> int" where
  "item_count k ms = int (count_list (map msg_item_idx ms) k)"

definition thread_outstanding :: "('q \<Rightarrow> message_post_data list) \<Rightarrow> int \<Rightarrow> 'q channel \<Rightarrow> int list \<Rightarrow> int" where
  "thread_outstanding contents k ch h =
     item_count k (contents (to_server_queue ch)) + int (count_list h k) + item_count k (contents (to_program_queue ch))"

definition outstanding :: "('q \<Rightarrow> message_post_data list) \<Rightarrow> int \<Rightarrow> 'q broadcast_system \<Rightarrow> int" where
  "outstanding contents k s =
     (\<Sum>i<length (cw_threads (sys s)). thread_outstanding contents k (cw_threads (sys s) ! i) (held s ! i))"

definition uses_of :: "data_store \<Rightarrow> int \<Rightarrow> int" where
  "uses_of st k = (case store_live st k of None \<Rightarrow> 0 | Some (b, n) \<Rightarrow> n)"

text \<open>
  The invariant: the store counts what is outstanding; a signalled descriptor has a message behind it;
  the requests in flight are live and their thread index is in range.
\<close>

definition req_ok :: "nat \<Rightarrow> central_web_server_req \<Rightarrow> bool" where
  "req_ok n req \<longleftrightarrow> cr_event req \<in> {CW_TIMERFD, CW_SERVER_THREAD_COMMUNICATION, CW_KILL_SERVER} \<and>
     (cr_event req = CW_SERVER_THREAD_COMMUNICATION \<longrightarrow> 0 \<le> cr_custom_info req \<and> cr_custom_info req < int n)"

definition channel_ok :: "('q \<Rightarrow> message_post_data list) \<Rightarrow> 'q channel \<Rightarrow> bool" where
  "channel_ok contents ch \<longleftrightarrow> tcp_server_set ch \<and>
     (0 < server_efd ch \<longrightarrow> contents (to_server_queue ch) \<noteq> []) \<and>
     (0 < central_efd ch \<longrightarrow> contents (to_program_queue ch) \<noteq> [])"

definition system_ok :: "('q \<Rightarrow> message_post_data list) \<Rightarrow> 'q broadcast_system \<Rightarrow> bool" where
  "system_ok contents s \<longleftrightarrow>
     store_inv (cw_store (sys s)) \<and>
     (\<forall>k. uses_of (cw_store (sys s)) k = outstanding contents k s) \<and>
     (\<forall>k b n. store_live (cw_store (sys s)) k = Some (b, n) \<longrightarrow> 0 < n) \<and>
     length (held s) = length (cw_threads (sys s)) \<and>
     cw_threads (sys s) \<noteq> [] \<and> int (length (cw_threads (sys s))) < 2 ^ 31 \<and>
     (\<forall>ch\<in>set (cw_threads (sys s)). channel_ok contents ch)"

definition requests_ok :: "'q central \<Rightarrow> bool" where
  "requests_ok c \<longleftrightarrow>
     (\<forall>e\<in>#cw_inflight c. \<exists>req. cw_heap c (snd e) = Some req \<and> req_ok (length (cw_threads c)) req) \<and>
     (\<forall>a req. cw_heap c a = Some req \<longrightarrow> a < cw_next c) \<and>
     (\<forall>a. count (image_mset snd (cw_inflight c)) a \<le> 1)"

lemma outstanding_change:
  assumes "i < length (cw_threads (sys s))" "length (held s) = length (cw_threads (sys s))"
    and "cw_threads (sys s') = (cw_threads (sys s))[i := ch']" "held s' = (held s)[i := h']"
  shows "outstanding contents k s' = outstanding contents k s
    - thread_outstanding contents k (cw_threads (sys s) ! i) (held s ! i) + thread_outstanding contents k ch' h'"
proof -
  let ?n = "length (cw_threads (sys s))"
  let ?f = "\<lambda>j. thread_outstanding contents k (cw_threads (sys s) ! j) (held s ! j)"
  let ?g = "\<lambda>j. thread_outstanding contents k (cw_threads (sys s') ! j) (held s' ! j)"
  have i: "i \<in> {..<?n}" using assms(1) by simp
  have "(\<Sum>j<?n. ?f j) = ?f i + (\<Sum>j\<in>{..<?n} - {i}. ?f j)"
    by (rule sum.remove [OF _ i]) simp
  moreover have "(\<Sum>j<?n. ?g j) = ?g i + (\<Sum>j\<in>{..<?n} - {i}. ?g j)"
    by (rule sum.remove [OF _ i]) simp
  moreover have "(\<Sum>j\<in>{..<?n} - {i}. ?g j) = (\<Sum>j\<in>{..<?n} - {i}. ?f j)"
    by (rule sum.cong) (auto simp: assms(3,4))
  moreover have "?g i = thread_outstanding contents k ch' h'" using assms by simp
  moreover have "length (cw_threads (sys s')) = ?n" using assms(3) by simp
  ultimately show ?thesis by (simp add: outstanding_def)
qed

lemma outstanding_same:
  assumes "length (cw_threads (sys s')) = length (cw_threads (sys s))" "held s' = held s"
    and "\<And>i. i < length (cw_threads (sys s)) \<Longrightarrow>
      to_server_queue (cw_threads (sys s') ! i) = to_server_queue (cw_threads (sys s) ! i) \<and>
      to_program_queue (cw_threads (sys s') ! i) = to_program_queue (cw_threads (sys s) ! i)"
  shows "outstanding contents k s' = outstanding contents k s"
  using assms by (auto simp: outstanding_def thread_outstanding_def)

lemma thread_outstanding_nonneg: "0 \<le> thread_outstanding contents k ch h"
  by (simp add: thread_outstanding_def item_count_def)

lemma thread_le_outstanding:
  assumes "i < length (cw_threads (sys s))"
  shows "thread_outstanding contents k (cw_threads (sys s) ! i) (held s ! i) \<le> outstanding contents k s"
  unfolding outstanding_def
  by (rule member_le_sum) (use assms in \<open>auto simp: thread_outstanding_nonneg\<close>)

lemma item_count_append [simp]: "item_count k (ms @ ms') = item_count k ms + item_count k ms'"
  by (simp add: item_count_def)

lemma item_count_Nil [simp]: "item_count k [] = 0"
  by (simp add: item_count_def)

lemma item_count_Cons [simp]: "item_count k (m # ms) = (if msg_item_idx m = k then 1 else 0) + item_count k ms"
  by (simp add: item_count_def)

text \<open>The requests added at the end of a step do not touch store, threads or events.\<close>

lemma cw_add_fields [simp]:
  "cw_store (cw_add_event_read_req fd ev info c) = cw_store c"
  "cw_threads (cw_add_event_read_req fd ev info c) = cw_threads c"
  "cw_store (cw_add_timer_read_req fd c) = cw_store c"
  "cw_threads (cw_add_timer_read_req fd c) = cw_threads c"
  "run_server (cw_add_event_read_req fd ev info c) = run_server c"
  "run_server (cw_add_timer_read_req fd c) = run_server c"
  "cw_kill_server_efd (cw_add_event_read_req fd ev info c) = cw_kill_server_efd c"
  "cw_kill_server_efd (cw_add_timer_read_req fd c) = cw_kill_server_efd c"
  by (simp_all add: cw_add_event_read_req_def cw_add_timer_read_req_def cw_new_def cw_submit_def)

text \<open>What the timer does to store and threads.\<close>

lemma timer_effect:
  assumes "cw_complete Q ord e res c = Some c'" "cw_heap c (snd e) = Some req" "cr_event req = CW_TIMERFD" "0 \<le> res"
  shows "\<exists>store buff idx. insert_item ord (cw_store c) (make_ws_frame broadcast_text text_frame) (int (length (cw_threads c))) = Some (store, buff, idx) \<and>
    cw_store c' = store \<and> cw_threads c' = map (post_message_to_server_thread Q websocket_broadcast (Ptr (Store_slot idx) buff)
      (int (length buff)) idx (u64 (-1))) (cw_threads c) \<and> run_server c' = run_server c \<and>
    cw_kill_server_efd c' = cw_kill_server_efd c"
  using assms
  by (auto simp: cw_complete_def cw_loop_body_def cw_timer_def bind_Some_iff Let_def split: if_splits)

lemma thread_event_effect:
  assumes "cw_complete Q ord e res c = Some c'" "cw_heap c (snd e) = Some req"
    "cr_event req = CW_SERVER_THREAD_COMMUNICATION" "0 \<le> res" "0 \<le> cr_custom_info req" "cr_custom_info req < 2 ^ 31"
  shows "\<exists>data ch store. in_range (cw_threads c) (cr_custom_info req) \<and>
    get_from_to_program_queue Q (cw_threads c ! nat (cr_custom_info req)) = (data, ch) \<and>
    free_item (cw_store c) (msg_item_idx data) = Some store \<and> cw_store c' = store \<and>
    cw_threads c' = (cw_threads c)[nat (cr_custom_info req) := ch] \<and> run_server c' = run_server c \<and>
    cw_kill_server_efd c' = cw_kill_server_efd c"
proof -
  have "cr_custom_info req \<noteq> u64 (-1)" using assms(5,6) by (simp add: u64_def)
  then show ?thesis using assms
    by (auto simp: cw_complete_def cw_loop_body_def cw_thread_event_def bind_Some_iff Let_def vget_eq_Some vset_eq_Some
        split: if_splits prod.splits)
qed

lemma store_effects:
  assumes "store_inv st" "\<forall>k b n. store_live st k = Some (b, n) \<longrightarrow> 0 < n"
  shows "insert_item ord st b n = Some (st', b', i) \<Longrightarrow> 0 < n \<Longrightarrow> store_inv st' \<and> uses_of st i = 0 \<and>
      (\<forall>k. uses_of st' k = (if k = i then n else uses_of st k)) \<and> (\<forall>k b n. store_live st' k = Some (b, n) \<longrightarrow> 0 < n)"
    and "0 < uses_of st i \<Longrightarrow> \<exists>st'. free_item st i = Some st' \<and> store_inv st' \<and>
      (\<forall>k. uses_of st' k = uses_of st k - (if k = i then 1 else 0)) \<and> (\<forall>k b n. store_live st' k = Some (b, n) \<longrightarrow> 0 < n)"
proof -
  assume ins: "insert_item ord st b n = Some (st', b', i)" and n: "0 < n"
  have "store_insert ord st b n = Some (st', i)" using ins by (simp add: store_insert_def)
  from ds.ins_Some [OF assms(1) this] show "store_inv st' \<and> uses_of st i = 0 \<and>
      (\<forall>k. uses_of st' k = (if k = i then n else uses_of st k)) \<and> (\<forall>k b n. store_live st' k = Some (b, n) \<longrightarrow> 0 < n)"
    using assms(2) n by (auto simp: uses_of_def)
next
  assume u: "0 < uses_of st i"
  then obtain b n where l: "store_live st i = Some (b, n)" by (auto simp: uses_of_def split: option.splits)
  obtain st' where "free_item st i = Some st'" "store_inv st'"
    and l': "store_live st' = (store_live st)(i := (if n = 1 then None else Some (b, n - 1)))"
    using ds.fre_live [OF assms(1) l] by blast
  moreover have "uses_of st' k = uses_of st k - (if k = i then 1 else 0)" for k
    using l l' by (auto simp: uses_of_def)
  moreover have "0 < m" if "store_live st' k = Some (c, m)" for k c m
    using that l' l assms(2) by (auto split: if_splits) (metis less_irrefl zle_diff1_eq zless_imp_add1_zle int_one_le_iff_zero_less less_le)
  ultimately show "\<exists>st'. free_item st i = Some st' \<and> store_inv st' \<and>
      (\<forall>k. uses_of st' k = uses_of st k - (if k = i then 1 else 0)) \<and> (\<forall>k b n. store_live st' k = Some (b, n) \<longrightarrow> 0 < n)"
    by blast
qed

lemma timer_ok:
  assumes Q: "is_fifo Q contents" and ok: "system_ok contents s"
    and eff: "insert_item ord (cw_store (sys s)) ws n = Some (store, buff, idx)" "n = int (length (cw_threads (sys s)))"
      "cw_store c' = store" "cw_threads c' = map (post_message_to_server_thread Q websocket_broadcast p len idx info) (cw_threads (sys s))"
  shows "system_ok contents (s\<lparr>sys := c'\<rparr>)"
proof -
  let ?s = "s\<lparr>sys := c'\<rparr>"
  have pos: "0 < n" using ok eff(2) by (simp add: system_ok_def)
  have st: "store_inv store" "uses_of (cw_store (sys s)) idx = 0"
    "\<And>k. uses_of store k = (if k = idx then n else uses_of (cw_store (sys s)) k)"
    "\<forall>k b n. store_live store k = Some (b, n) \<longrightarrow> 0 < n"
    using store_effects(1) [OF _ _ eff(1) pos] ok by (auto simp: system_ok_def)
  have ch: "tcp_server_set ch" if "ch \<in> set (cw_threads (sys s))" for ch
    using ok that by (simp add: system_ok_def channel_ok_def)
  have "outstanding contents k ?s = outstanding contents k s + (if k = idx then n else 0)" for k
  proof -
    have "thread_outstanding contents k (post_message_to_server_thread Q websocket_broadcast p len idx info (cw_threads (sys s) ! i)) (held s ! i) =
        thread_outstanding contents k (cw_threads (sys s) ! i) (held s ! i) + (if k = idx then 1 else 0)"
      if "i < length (cw_threads (sys s))" for i
      using ch [OF nth_mem [OF that]] by (simp add: post_message_to_server_thread_def thread_outstanding_def fifo_emplace [OF Q])
    then show ?thesis using eff(2) by (simp add: outstanding_def eff(4) sum.distrib)
  qed
  moreover have "\<forall>ch\<in>set (cw_threads c'). channel_ok contents ch"
    using ok by (auto simp: eff(4) system_ok_def channel_ok_def post_message_to_server_thread_def fifo_emplace [OF Q])
  moreover have "outstanding contents idx s = 0" using ok st(2) by (simp add: system_ok_def)
  ultimately show ?thesis using ok st eff(3,4) by (auto simp: system_ok_def)
qed

lemma change_ok:
  assumes ok: "system_ok contents s" and i: "i < length (cw_threads (sys s))"
    and c': "cw_threads (sys s') = (cw_threads (sys s))[i := ch']" "held s' = (held s)[i := h']"
    and st: "store_inv (cw_store (sys s'))" "\<forall>k b n. store_live (cw_store (sys s')) k = Some (b, n) \<longrightarrow> 0 < n"
    and uses: "\<And>k. uses_of (cw_store (sys s')) k - uses_of (cw_store (sys s)) k =
      thread_outstanding contents k ch' h' - thread_outstanding contents k (cw_threads (sys s) ! i) (held s ! i)"
    and ch: "channel_ok contents ch'"
  shows "system_ok contents s'"
proof -
  have len: "length (held s) = length (cw_threads (sys s))" using ok by (simp add: system_ok_def)
  have "uses_of (cw_store (sys s')) k = outstanding contents k s'" for k
  proof -
    have "uses_of (cw_store (sys s)) k = outstanding contents k s" using ok by (simp add: system_ok_def)
    then show ?thesis using uses [of k] outstanding_change [OF i len c', of contents k] by linarith
  qed
  moreover have "\<forall>x\<in>set ((cw_threads (sys s))[i := ch']). channel_ok contents x"
    using ok ch set_update_subset_insert [of "cw_threads (sys s)" i ch'] by (auto simp: system_ok_def)
  ultimately show ?thesis using ok st c' by (simp add: system_ok_def)
qed

lemma reported_ok:
  assumes Q: "is_fifo Q contents" and ok: "system_ok contents s"
    and i: "i < length (cw_threads (sys s))" "0 < central_efd (cw_threads (sys s) ! i)"
    and eff: "get_from_to_program_queue Q ((cw_threads (sys s) ! i)\<lparr>central_efd := 0\<rparr>) = (data, ch)"
      "free_item (cw_store (sys s)) (msg_item_idx data) = Some store" "cw_store c' = store"
      "cw_threads c' = (cw_threads (sys s))[i := ch]"
  shows "system_ok contents (s\<lparr>sys := c'\<rparr>)"
proof -
  let ?ch = "cw_threads (sys s) ! i"
  have chok: "channel_ok contents ?ch" using ok i(1) by (simp add: system_ok_def)
  then have "contents (to_program_queue ?ch) \<noteq> []" using i(2) by (simp add: channel_ok_def)
  then obtain q where q: "q_try_dequeue Q (to_program_queue ?ch) = Some (data, q)"
      "ch = ?ch\<lparr>central_efd := 0, to_program_queue := q\<rparr>"
    using eff(1) fifo_dequeue(1) [OF Q, of "to_program_queue ?ch"]
    by (auto simp: get_from_to_program_queue_def split: option.splits)
  have cont: "contents (to_program_queue ?ch) = data # contents q" by (rule fifo_dequeue(2) [OF Q q(1)])
  have "1 \<le> thread_outstanding contents (msg_item_idx data) ?ch (held s ! i)"
    by (simp add: thread_outstanding_def cont item_count_def)
  then have "0 < uses_of (cw_store (sys s)) (msg_item_idx data)"
    using thread_le_outstanding [OF i(1), of contents "msg_item_idx data"] ok by (simp add: system_ok_def)
  from store_effects(2) [OF _ _ this] eff(2) ok
  have st: "store_inv store" "\<And>k. uses_of store k = uses_of (cw_store (sys s)) k - (if k = msg_item_idx data then 1 else 0)"
    "\<forall>k b n. store_live store k = Some (b, n) \<longrightarrow> 0 < n" by (auto simp: system_ok_def)
  show ?thesis
    by (rule change_ok [OF ok i(1), where ch' = ch and h' = "held s ! i"])
      (use eff st chok i(1) in \<open>auto simp: q(2) thread_outstanding_def cont channel_ok_def\<close>)
qed

lemma taken_ok:
  assumes Q: "is_fifo Q contents" and ok: "system_ok contents s"
    and i: "i < length (cw_threads (sys s))" "0 < server_efd (cw_threads (sys s) ! i)"
    and eff: "get_from_to_server_queue Q ((cw_threads (sys s) ! i)\<lparr>server_efd := 0\<rparr>) = (m, ch)"
  shows "system_ok contents (s\<lparr>sys := (sys s)\<lparr>cw_threads := (cw_threads (sys s))[i := ch]\<rparr>,
    held := (held s)[i := held s ! i @ [msg_item_idx m]]\<rparr>)"
proof -
  let ?ch = "cw_threads (sys s) ! i"
  have chok: "channel_ok contents ?ch" using ok i(1) by (simp add: system_ok_def)
  then have "contents (to_server_queue ?ch) \<noteq> []" using i(2) by (simp add: channel_ok_def)
  then obtain q where q: "q_try_dequeue Q (to_server_queue ?ch) = Some (m, q)"
      "ch = ?ch\<lparr>server_efd := 0, to_server_queue := q\<rparr>"
    using eff fifo_dequeue(1) [OF Q, of "to_server_queue ?ch"]
    by (auto simp: get_from_to_server_queue_def split: option.splits)
  have cont: "contents (to_server_queue ?ch) = m # contents q" by (rule fifo_dequeue(2) [OF Q q(1)])
  show ?thesis
    by (rule change_ok [OF ok i(1), where ch' = ch and h' = "held s ! i @ [msg_item_idx m]"])
      (use ok chok in \<open>auto simp: q(2) thread_outstanding_def cont channel_ok_def system_ok_def\<close>)
qed

lemma finished_ok:
  assumes Q: "is_fifo Q contents" and ok: "system_ok contents s"
    and i: "i < length (cw_threads (sys s))" "held s ! i = ks @ k # ks'"
  shows "system_ok contents (s\<lparr>sys := (sys s)\<lparr>cw_threads := (cw_threads (sys s))
         [i := post_message_to_program Q broadcast_finished p len k info (cw_threads (sys s) ! i)]\<rparr>,
       held := (held s)[i := ks @ ks']\<rparr>)"
proof -
  let ?ch = "cw_threads (sys s) ! i"
  have chok: "channel_ok contents ?ch" using ok i(1) by (simp add: system_ok_def)
  show ?thesis
    by (rule change_ok [OF ok i(1), where ch' = "post_message_to_program Q broadcast_finished p len k info ?ch" and h' = "ks @ ks'"])
      (use ok chok i in \<open>auto simp: post_message_to_program_def thread_outstanding_def channel_ok_def system_ok_def
          fifo_emplace [OF Q]\<close>)
qed

lemma same_threads_ok:
  assumes "system_ok contents s" "cw_store (sys s') = cw_store (sys s)" "held s' = held s"
    and "cw_threads (sys s') = map f (cw_threads (sys s))"
    and "\<And>ch. to_server_queue (f ch) = to_server_queue ch \<and> to_program_queue (f ch) = to_program_queue ch \<and>
      tcp_server_set (f ch) = tcp_server_set ch \<and> server_efd (f ch) = server_efd ch \<and> central_efd (f ch) = central_efd ch"
  shows "system_ok contents s'"
proof -
  have "outstanding contents k s' = outstanding contents k s" for k
    by (rule outstanding_same) (use assms in auto)
  then show ?thesis using assms by (auto simp: system_ok_def channel_ok_def)
qed

section \<open>Requests\<close>

lemma requests_remove:
  assumes ok: "requests_ok c" and e: "e \<in># cw_inflight c"
    and c': "cw_inflight c' = cw_inflight c - {#e#}" "cw_heap c' = (cw_heap c)(snd e := None) \<or> cw_heap c' = cw_heap c"
      "cw_next c' = cw_next c" "length (cw_threads c') = length (cw_threads c)"
  shows "requests_ok c' \<and> count (image_mset snd (cw_inflight c')) (snd e) = 0"
proof -
  have img: "image_mset snd (cw_inflight c') = image_mset snd (cw_inflight c) - {#snd e#}"
    using e by (simp add: c' image_mset_Diff)
  have "count (image_mset snd (cw_inflight c)) (snd e) \<le> 1" using ok unfolding requests_ok_def by blast
  then have zero: "count (image_mset snd (cw_inflight c')) (snd e) = 0" unfolding img by simp
  have ne: "snd e' \<noteq> snd e" if "e' \<in># cw_inflight c'" for e'
  proof
    assume "snd e' = snd e"
    then have "snd e \<in># image_mset snd (cw_inflight c')" using that by (metis imageI set_image_mset)
    then show False using zero by (metis not_in_iff)
  qed
  have old: "e' \<in># cw_inflight c" if "e' \<in># cw_inflight c'" for e' using that c'(1) by (metis in_diffD)
  have "\<exists>req. cw_heap c' (snd e') = Some req \<and> req_ok (length (cw_threads c')) req" if "e' \<in># cw_inflight c'" for e'
    using ok old [OF that] ne [OF that] c'(2,4) unfolding requests_ok_def by auto
  moreover have "count (image_mset snd (cw_inflight c')) a \<le> 1" for a
  proof -
    have "count (image_mset snd (cw_inflight c)) a \<le> 1" using ok unfolding requests_ok_def by blast
    then show ?thesis unfolding img by simp
  qed
  moreover have "a < cw_next c'" if "cw_heap c' a = Some req" for a req
    using ok that c'(2,3) unfolding requests_ok_def by (auto split: if_splits)
  ultimately show ?thesis using zero unfolding requests_ok_def by blast
qed

lemma requests_add:
  assumes ok: "requests_ok c" and req: "req_ok (length (cw_threads c)) req"
    and c': "cw_inflight c' = add_mset (op, cw_next c) (cw_inflight c)" "cw_heap c' = (cw_heap c)(cw_next c \<mapsto> req)"
      "cw_next c' = cw_next c + 1" "length (cw_threads c') = length (cw_threads c)"
  shows "requests_ok c'"
proof -
  have lt: "snd e < cw_next c" if "e \<in># cw_inflight c" for e using ok that unfolding requests_ok_def by blast
  then have "count (image_mset snd (cw_inflight c)) (cw_next c) = 0"
    by (fastforce simp: count_eq_zero_iff)
  then have "count (image_mset snd (cw_inflight c')) a \<le> 1" for a
    using ok c'(1) unfolding requests_ok_def by (cases "a = cw_next c") auto
  moreover have "\<exists>req. cw_heap c' (snd e) = Some req \<and> req_ok (length (cw_threads c')) req" if "e \<in># cw_inflight c'" for e
  proof (cases "e = (op, cw_next c)")
    case True
    then show ?thesis using req c' by simp
  next
    case False
    then have "e \<in># cw_inflight c" using that c'(1) by simp
    then show ?thesis using ok lt [of e] c' unfolding requests_ok_def by auto
  qed
  moreover have "a < cw_next c'" if "cw_heap c' a = Some r" for a r
    using ok that c'(2,3) unfolding requests_ok_def by (auto split: if_splits intro: less_SucI)
  ultimately show ?thesis unfolding requests_ok_def by blast
qed

text \<open>Deleting the request of a completion after the next one has been submitted.\<close>

lemma requests_step:
  assumes ok: "requests_ok c" and e: "e \<in># cw_inflight c" and req: "req_ok (length (cw_threads c)) req"
    and c': "cw_inflight c' = add_mset (op, cw_next c) (cw_inflight c - {#e#})"
      "cw_heap c' = ((cw_heap c)(cw_next c \<mapsto> req))(snd e := None)"
      "cw_next c' = cw_next c + 1" "length (cw_threads c') = length (cw_threads c)"
  shows "requests_ok c'"
proof -
  have ne: "snd e \<noteq> cw_next c" using ok e unfolding requests_ok_def by fastforce
  let ?c = "c\<lparr>cw_inflight := cw_inflight c - {#e#}, cw_heap := (cw_heap c)(snd e := None)\<rparr>"
  have "requests_ok ?c" using requests_remove [OF ok e, of ?c] by simp
  then show ?thesis
    by (rule requests_add [of ?c req _ op]) (use req c' ne in \<open>auto simp: fun_upd_twist\<close>)
qed

text \<open>What a step of the loop does to the requests.\<close>

lemma timer_requests:
  assumes ok: "requests_ok c" and run: "cw_complete Q ord e res c = Some c'" and res: "0 \<le> res"
    and req: "cw_heap c (snd e) = Some req" "cr_event req = CW_TIMERFD"
  shows "requests_ok c'"
proof -
  have e: "e \<in># cw_inflight c" using run by (auto simp: cw_complete_def split: if_splits)
  show ?thesis
    by (rule requests_step [OF ok e, where op = "Op_read (cw_timer_fd c) 0 8 0" and
          req = "new_central_req\<lparr>cr_buff := replicate 8 0, cr_event := CW_TIMERFD, cr_fd := cw_timer_fd c\<rparr>"])
      (use run res req in \<open>auto simp: cw_complete_def cw_loop_body_def cw_timer_def bind_Some_iff Let_def
        cw_add_timer_read_req_def cw_new_def cw_submit_def req_ok_def split: if_splits\<close>)
qed

lemma thread_event_requests:
  assumes ok: "requests_ok c" and run: "cw_complete Q ord e res c = Some c'" and res: "0 \<le> res"
    and req: "cw_heap c (snd e) = Some req" "cr_event req = CW_SERVER_THREAD_COMMUNICATION"
      "0 \<le> cr_custom_info req" "cr_custom_info req < int (length (cw_threads c))" "length (cw_threads c) < 2 ^ 31"
  shows "requests_ok c'"
proof -
  have e: "e \<in># cw_inflight c" using run by (auto simp: cw_complete_def split: if_splits)
  have ne: "cr_custom_info req \<noteq> u64 (-1)" "u64 (cr_custom_info req) = cr_custom_info req"
    using req(3-5) by (simp_all add: u64_def)
  show ?thesis
    by (rule requests_step [OF ok e, where op = "Op_read (cr_fd req) 0 8 0" and
          req = "new_central_req\<lparr>cr_buff := replicate 8 0, cr_event := CW_SERVER_THREAD_COMMUNICATION,
            cr_fd := cr_fd req, cr_custom_info := cr_custom_info req\<rparr>"])
      (use run res req ne in \<open>auto simp: cw_complete_def cw_loop_body_def cw_thread_event_def bind_Some_iff Let_def
        cw_add_event_read_req_def cw_new_def cw_submit_def req_ok_def vset_eq_Some case_prod_unfold split: if_splits\<close>)
qed

lemma start_requests:
  "requests_ok c \<Longrightarrow> 0 \<le> idx \<Longrightarrow> idx + int (length chs) \<le> int (length (cw_threads c)) \<Longrightarrow> length (cw_threads c) < 2 ^ 31 \<Longrightarrow>
     requests_ok (read_thread_events idx chs c) \<and> cw_threads (read_thread_events idx chs c) = cw_threads c \<and>
     cw_store (read_thread_events idx chs c) = cw_store c \<and>
     cw_kill_server_efd (read_thread_events idx chs c) = cw_kill_server_efd c"
proof (induction chs arbitrary: idx c)
  case Nil
  then show ?case by simp
next
  case (Cons ch chs)
  let ?c = "cw_add_event_read_req (central_communication_eventfd ch) CW_SERVER_THREAD_COMMUNICATION idx c"
  have "requests_ok ?c"
    by (rule requests_add [OF Cons.prems(1), where op = "Op_read (central_communication_eventfd ch) 0 8 0" and
          req = "new_central_req\<lparr>cr_buff := replicate 8 0, cr_event := CW_SERVER_THREAD_COMMUNICATION,
            cr_fd := central_communication_eventfd ch, cr_custom_info := u64 idx\<rparr>"])
      (use Cons.prems in \<open>auto simp: req_ok_def u64_small cw_add_event_read_req_def cw_new_def cw_submit_def\<close>)
  then show ?case using Cons.IH [of ?c "idx + 1"] Cons.prems by simp
qed

section \<open>Every reachable state\<close>

definition all_ok :: "('q \<Rightarrow> message_post_data list) \<Rightarrow> 'q broadcast_system \<Rightarrow> bool" where
  "all_ok contents s \<longleftrightarrow> system_ok contents s \<and> requests_ok (sys s) \<and> run_server (sys s) \<and> cw_kill_server_efd (sys s) = 0"

lemma started_ok:
  assumes "fresh_central Q contents c"
  shows "all_ok contents (started_system c)"
proof -
  have f: "cw_store c = empty_store" "cw_threads c \<noteq> []" "length (cw_threads c) < 2 ^ 31"
    "cw_kill_server_efd c = 0" "\<And>ch. ch \<in> set (cw_threads c) \<Longrightarrow> fresh_channel Q contents ch"
    using assms by (auto simp: fresh_central_def list_all_iff)
  have r0: "requests_ok c" using assms by (simp add: fresh_central_def requests_ok_def)
  let ?c1 = "read_thread_events 0 (cw_threads c) c"
  have 1: "requests_ok ?c1" "cw_threads ?c1 = cw_threads c" "cw_store ?c1 = cw_store c" "cw_kill_server_efd ?c1 = 0"
    using start_requests [OF r0, of 0 "cw_threads c"] f by auto
  let ?c2 = "cw_add_event_read_req (cw_kill_fd ?c1) CW_KILL_SERVER 0 ?c1"
  have "requests_ok ?c2"
    by (rule requests_add [OF 1(1), where op = "Op_read (cw_kill_fd ?c1) 0 8 0" and
          req = "new_central_req\<lparr>cr_buff := replicate 8 0, cr_event := CW_KILL_SERVER, cr_fd := cw_kill_fd ?c1, cr_custom_info := u64 0\<rparr>"])
      (auto simp: req_ok_def cw_add_event_read_req_def cw_new_def cw_submit_def)
  then have r2: "requests_ok (?c2\<lparr>run_server := True\<rparr>)" by (simp add: requests_ok_def)
  have "requests_ok (cw_run_start c)"
    unfolding cw_run_start_def Let_def
    by (rule requests_add [OF r2, where op = "Op_read (cw_timer_fd ?c2) 0 8 0" and
          req = "new_central_req\<lparr>cr_buff := replicate 8 0, cr_event := CW_TIMERFD, cr_fd := cw_timer_fd ?c2\<rparr>"])
      (auto simp: req_ok_def cw_add_timer_read_req_def cw_new_def cw_submit_def)
  moreover have fields: "cw_threads (cw_run_start c) = cw_threads c" "cw_store (cw_run_start c) = empty_store"
    "run_server (cw_run_start c)" "cw_kill_server_efd (cw_run_start c) = 0"
    using 1 f(1) by (simp_all add: cw_run_start_def Let_def)
  moreover have "outstanding contents k (started_system c) = 0" for k
    unfolding outstanding_def
    by (rule sum.neutral) (use f(5) in \<open>auto simp: started_system_def fields thread_outstanding_def fresh_channel_def\<close>)
  moreover have "store_live empty_store k = None" for k
    by (simp add: store_live_def live_slot_def empty_store_def vget_def in_range_def)
  moreover have "\<forall>ch\<in>set (cw_threads c). channel_ok contents ch" using f(5) by (simp add: channel_ok_def fresh_channel_def)
  ultimately show ?thesis
    using f store_inv_empty by (simp add: all_ok_def system_ok_def started_system_def uses_of_def)
qed

lemma timer_step_ok:
  assumes Q: "is_fifo Q contents" and ok: "all_ok contents s"
    and req: "cw_heap (sys s) (snd e) = Some req" "cr_event req = CW_TIMERFD"
    and run: "cw_complete Q ord e 8 (sys s) = Some c"
  shows "all_ok contents (s\<lparr>sys := c\<rparr>)"
proof -
  obtain store buff idx where eff: "insert_item ord (cw_store (sys s)) (make_ws_frame broadcast_text text_frame)
      (int (length (cw_threads (sys s)))) = Some (store, buff, idx)" "cw_store c = store"
      "cw_threads c = map (post_message_to_server_thread Q websocket_broadcast (Ptr (Store_slot idx) buff)
        (int (length buff)) idx (u64 (-1))) (cw_threads (sys s))" "run_server c = run_server (sys s)"
      "cw_kill_server_efd c = cw_kill_server_efd (sys s)"
    using timer_effect [OF run req] by auto
  have "system_ok contents (s\<lparr>sys := c\<rparr>)"
    by (rule timer_ok [OF Q _ eff(1) refl eff(2,3)]) (use ok in \<open>simp add: all_ok_def\<close>)
  moreover have "requests_ok c" by (rule timer_requests [OF _ run _ req]) (use ok in \<open>simp_all add: all_ok_def\<close>)
  ultimately show ?thesis using ok eff by (simp add: all_ok_def)
qed

lemma reported_step_ok:
  assumes Q: "is_fifo Q contents" and ok: "all_ok contents s"
    and req: "cw_heap (sys s) (snd e) = Some req" "cr_event req = CW_SERVER_THREAD_COMMUNICATION"
    and woken: "thread_woken req (sys s)"
    and run: "cw_complete Q ord e 8 (consume_thread_efd (cr_custom_info req) (sys s)) = Some c"
  shows "all_ok contents (s\<lparr>sys := c\<rparr>)"
proof -
  let ?i = "cr_custom_info req"
  let ?c = "consume_thread_efd ?i (sys s)"
  have i: "0 \<le> ?i" "?i < int (length (cw_threads (sys s)))" "0 < central_efd (cw_threads (sys s) ! nat ?i)"
    using woken by (auto simp: thread_woken_def in_range_def)
  have small: "length (cw_threads (sys s)) < 2 ^ 31" using ok by (simp add: all_ok_def system_ok_def)
  then have lt: "?i < 2 ^ 31" using i(2) by simp
  have req': "cw_heap ?c (snd e) = Some req" using req(1) by (simp add: consume_thread_efd_def)
  have rok: "requests_ok ?c" using ok by (simp add: all_ok_def requests_ok_def consume_thread_efd_def)
  obtain data ch store where eff: "get_from_to_program_queue Q (cw_threads ?c ! nat ?i) = (data, ch)"
      "free_item (cw_store ?c) (msg_item_idx data) = Some store" "cw_store c = store"
      "cw_threads c = (cw_threads ?c)[nat ?i := ch]" "run_server c = run_server ?c" "cw_kill_server_efd c = cw_kill_server_efd ?c"
    using thread_event_effect [OF run req' req(2) _ i(1) lt] by auto
  have "system_ok contents (s\<lparr>sys := c\<rparr>)"
    by (rule reported_ok [OF Q, where i = "nat ?i" and data = data and ch = ch and store = store])
      (use ok i eff in \<open>auto simp: all_ok_def consume_thread_efd_def\<close>)
  moreover have "requests_ok c"
    by (rule thread_event_requests [OF rok run _ req' req(2) i(1)]) (use i small in \<open>auto simp: consume_thread_efd_def\<close>)
  ultimately show ?thesis using ok eff by (simp add: all_ok_def consume_thread_efd_def)
qed

lemma cstep_ok:
  assumes Q: "is_fifo Q contents" and step: "cstep Q ord (sys s) c" and ok: "all_ok contents s"
  shows "all_ok contents (s\<lparr>sys := c\<rparr>)"
  using step
proof (cases rule: cstep.cases)
  case (timer e req)
  then show ?thesis using timer_step_ok [OF Q ok] by blast
next
  case (reported e req)
  then show ?thesis using reported_step_ok [OF Q ok] by blast
next
  case (killed e req)
  then show ?thesis using ok by (simp add: all_ok_def)
next
  case (failed e res)
  then have c: "c = (sys s)\<lparr>cw_inflight := cw_inflight (sys s) - {#e#}\<rparr>"
    by (auto simp: cw_complete_def cw_loop_body_def bind_Some_iff split: if_splits)
  then have "requests_ok c" using requests_remove [of "sys s" e c] failed(1) ok by (simp add: all_ok_def)
  then show ?thesis using c ok same_threads_ok [of contents s "s\<lparr>sys := c\<rparr>" id] by (simp add: all_ok_def)
next
  case sigint
  have "system_ok contents (s\<lparr>sys := c\<rparr>)"
    by (rule same_threads_ok [where f = "\<lambda>ch. if tcp_server_set ch then ch\<lparr>server_kill := server_kill ch + 1\<rparr> else ch"])
      (use ok sigint in \<open>auto simp: all_ok_def cw_kill_server_def\<close>)
  then show ?thesis using ok sigint by (auto simp: all_ok_def requests_ok_def cw_kill_server_def)
qed

lemma tstep_ok:
  assumes Q: "is_fifo Q contents" and i: "i < length (cw_threads (sys s))"
    and step: "tstep Q (cw_threads (sys s) ! i, held s ! i) th" and ok: "all_ok contents s"
  shows "all_ok contents (set_thread i th s)"
  using step
proof (cases rule: tstep.cases)
  case (taken m ch')
  then have "system_ok contents (set_thread i th s)"
    using taken_ok [OF Q _ i, of m ch'] ok by (simp add: all_ok_def set_thread_def)
  then show ?thesis using ok by (auto simp: all_ok_def requests_ok_def set_thread_def)
next
  case (finished ks k ks' p len)
  then have "system_ok contents (set_thread i th s)"
    using finished_ok [OF Q _ i, of ks k ks' p len "u64 (-1)"] ok by (simp add: all_ok_def set_thread_def)
  then show ?thesis using ok by (auto simp: all_ok_def requests_ok_def set_thread_def)
qed

lemma bstep_ok: "is_fifo Q contents \<Longrightarrow> bstep Q ord s s' \<Longrightarrow> all_ok contents s \<Longrightarrow> all_ok contents s'"
  by (erule bstepE) (auto intro: cstep_ok tstep_ok)

lemma breach_ok:
  assumes "is_fifo Q contents" "breach Q ord s s'" "all_ok contents s"
  shows "all_ok contents s'"
  using assms(2) by (induction rule: breach.induct) (use assms(1,3) bstep_ok in blast)+

end
