(* ===== verification/Central_Items.thy ===== *)
theory Central_Items
  imports Central_Props
begin

text \<open>
  What a server thread may rely on when it takes a message: the item is new to it, and the message
  points to the bytes of a live item of the store, which stay there until the thread has reported it.
\<close>

section \<open>Messages\<close>

definition points_live :: "data_store \<Rightarrow> int \<Rightarrow> cptr \<Rightarrow> bool" where
  "points_live st k p \<longleftrightarrow> (\<exists>b n. p = Ptr (Store_slot k) b \<and> store_live st k = Some (b, n))"

text \<open>A thread has at most one message about an item on its way, and those queued for it point into the store.\<close>

definition messages_ok :: "('q \<Rightarrow> message_post_data list) \<Rightarrow> 'q broadcast_system \<Rightarrow> bool" where
  "messages_ok contents s \<longleftrightarrow>
     (\<forall>i<length (cw_threads (sys s)). \<forall>k. thread_outstanding contents k (cw_threads (sys s) ! i) (held s ! i) \<le> 1) \<and>
     (\<forall>ch\<in>set (cw_threads (sys s)). \<forall>m\<in>set (contents (to_server_queue ch)).
        points_live (cw_store (sys s)) (msg_item_idx m) (msg_buff_ptr m))"

lemma item_count_pos: "m \<in> set ms \<Longrightarrow> 0 < item_count (msg_item_idx m) ms"
  by (auto simp: item_count_def count_list_0_iff intro: gr0I)

lemma item_count_nonneg [simp]: "0 \<le> item_count k ms"
  by (simp add: item_count_def)

text \<open>Whatever is on its way is live.\<close>

lemma outstanding_live:
  assumes ok: "system_ok contents s" and i: "i < length (cw_threads (sys s))"
    and k: "0 < thread_outstanding contents k (cw_threads (sys s) ! i) (held s ! i)"
  shows "\<exists>b n. store_live (cw_store (sys s)) k = Some (b, n)"
proof -
  have "0 < uses_of (cw_store (sys s)) k"
    using ok thread_le_outstanding [OF i, of contents k] k by (simp add: system_ok_def)
  then show ?thesis by (auto simp: uses_of_def split: option.splits)
qed

section \<open>The program thread\<close>

text \<open>No step of the program thread changes the bytes of an item that stays live.\<close>

definition same_bytes :: "data_store \<Rightarrow> data_store \<Rightarrow> bool" where
  "same_bytes st st' \<longleftrightarrow> (\<forall>k b n b' n'. store_live st k = Some (b, n) \<longrightarrow> store_live st' k = Some (b', n') \<longrightarrow> b' = b)"

lemma points_live_stays:
  "points_live st k p \<Longrightarrow> same_bytes st st' \<Longrightarrow> store_live st' k = Some bn \<Longrightarrow> points_live st' k p"
  by (cases bn) (auto simp: points_live_def same_bytes_def)

lemma insert_same_bytes:
  assumes "store_inv st" "insert_item ord st b n = Some (st', b', i)"
  shows "same_bytes st st' \<and> b' = b \<and> store_live st i = None \<and> store_live st' = (store_live st)(i \<mapsto> (b, n))"
proof -
  have "store_insert ord st b n = Some (st', i)" using assms(2) by (simp add: store_insert_def)
  from ds.ins_Some [OF assms(1) this] have "store_live st i = None" "store_live st' = (store_live st)(i \<mapsto> (b, n))" by auto
  moreover have "b' = b" using assms(2) by (auto simp: insert_item_def Let_def bind_Some_iff split: prod.splits)
  ultimately show ?thesis by (auto simp: same_bytes_def)
qed

lemma free_same_bytes:
  assumes "store_inv st" "0 < uses_of st i" "free_item st i = Some st'"
  shows "same_bytes st st'"
proof -
  obtain b n where l: "store_live st i = Some (b, n)" using assms(2) by (auto simp: uses_of_def split: option.splits)
  from ds.fre_live [OF assms(1) l] assms(3)
  have "store_live st' = (store_live st)(i := (if n = 1 then None else Some (b, n - 1)))" by auto
  then show ?thesis using l by (auto simp: same_bytes_def split: if_splits)
qed

text \<open>What a step of the program thread does to the channel of a server thread.\<close>

definition channel_moves :: "'q queue_impl \<Rightarrow> ('q \<Rightarrow> message_post_data list) \<Rightarrow> data_store \<Rightarrow> data_store \<Rightarrow> 'q channel \<Rightarrow> 'q channel \<Rightarrow> bool" where
  "channel_moves Q contents st st' ch ch' \<longleftrightarrow>
     (contents (to_server_queue ch') = contents (to_server_queue ch) \<and> server_efd ch' = server_efd ch \<and>
       (\<exists>ms. contents (to_program_queue ch) = ms @ contents (to_program_queue ch'))) \<or>
     (\<exists>m. contents (to_server_queue ch') = contents (to_server_queue ch) @ [m] \<and> server_efd ch' = server_efd ch + 1 \<and>
        contents (to_program_queue ch') = contents (to_program_queue ch) \<and>
        store_live st (msg_item_idx m) = None \<and> points_live st' (msg_item_idx m) (msg_buff_ptr m))"

lemma cstep_effect:
  assumes Q: "is_fifo Q contents" and step: "cstep Q ord (sys s) c" and ok: "all_ok contents s"
  shows "same_bytes (cw_store (sys s)) (cw_store c) \<and> length (cw_threads c) = length (cw_threads (sys s)) \<and>
    (\<forall>i<length (cw_threads c). channel_moves Q contents (cw_store (sys s)) (cw_store c) (cw_threads (sys s) ! i) (cw_threads c ! i))"
  using step
proof (cases rule: cstep.cases)
  case (timer e req)
  obtain store buff idx where eff: "insert_item ord (cw_store (sys s)) (make_ws_frame broadcast_text text_frame)
      (int (length (cw_threads (sys s)))) = Some (store, buff, idx)" "cw_store c = store"
      "cw_threads c = map (post_message_to_server_thread Q websocket_broadcast (Ptr (Store_slot idx) buff)
        (int (length buff)) idx (u64 (-1))) (cw_threads (sys s))"
    using timer_effect [OF timer(4,2,3)] by auto
  have inv: "store_inv (cw_store (sys s))" using ok by (simp add: all_ok_def system_ok_def)
  note ins = insert_same_bytes [OF inv eff(1)]
  have set: "tcp_server_set (cw_threads (sys s) ! i)" if "i < length (cw_threads (sys s))" for i
    using ok nth_mem [OF that] unfolding all_ok_def system_ok_def channel_ok_def by blast
  have "channel_moves Q contents (cw_store (sys s)) (cw_store c) (cw_threads (sys s) ! i) (cw_threads c ! i)"
    if "i < length (cw_threads c)" for i
    using that set [of i] ins eff(2,3)
    by (auto simp: channel_moves_def post_message_to_server_thread_def fifo_emplace [OF Q] points_live_def)
  then show ?thesis using ins eff by simp
next
  case (reported e req)
  let ?i = "cr_custom_info req" and ?c = "consume_thread_efd (cr_custom_info req) (sys s)"
  have i: "0 \<le> ?i" "?i < int (length (cw_threads (sys s)))" "0 < central_efd (cw_threads (sys s) ! nat ?i)"
    using reported(4) by (auto simp: thread_woken_def in_range_def)
  have sok: "system_ok contents s" using ok by (simp add: all_ok_def)
  have lt: "?i < 2 ^ 31" using i(2) sok by (simp add: system_ok_def)
  have req': "cw_heap ?c (snd e) = Some req" using reported(2) by (simp add: consume_thread_efd_def)
  obtain data ch store where eff: "get_from_to_program_queue Q (cw_threads ?c ! nat ?i) = (data, ch)"
      "free_item (cw_store ?c) (msg_item_idx data) = Some store" "cw_store c = store"
      "cw_threads c = (cw_threads ?c)[nat ?i := ch]"
    using thread_event_effect [OF reported(5) req' reported(3) _ i(1) lt] by auto
  let ?ch = "cw_threads (sys s) ! nat ?i"
  have n: "nat ?i < length (cw_threads (sys s))" using i by simp
  have "contents (to_program_queue ?ch) \<noteq> []" using sok i(3) nth_mem [OF n] unfolding system_ok_def channel_ok_def by blast
  then obtain q where q: "q_try_dequeue Q (to_program_queue ?ch) = Some (data, q)" "ch = ?ch\<lparr>central_efd := 0, to_program_queue := q\<rparr>"
    using eff(1) n fifo_dequeue(1) [OF Q, of "to_program_queue ?ch"]
    by (auto simp: get_from_to_program_queue_def consume_thread_efd_def split: option.splits)
  have cont: "contents (to_program_queue ?ch) = data # contents q" by (rule fifo_dequeue(2) [OF Q q(1)])
  then have "0 < thread_outstanding contents (msg_item_idx data) ?ch (held s ! nat ?i)"
    by (simp add: thread_outstanding_def item_count_def)
  then have "0 < uses_of (cw_store (sys s)) (msg_item_idx data)"
    using thread_le_outstanding [OF n, of contents "msg_item_idx data"] sok by (simp add: system_ok_def)
  then have "same_bytes (cw_store (sys s)) store"
    using free_same_bytes [of "cw_store (sys s)"] eff(2) sok by (simp add: system_ok_def consume_thread_efd_def)
  moreover have "channel_moves Q contents (cw_store (sys s)) (cw_store c) (cw_threads (sys s) ! j) (cw_threads c ! j)"
    if "j < length (cw_threads c)" for j
    using that n q(2) cont eff(4) by (cases "j = nat ?i") (auto simp: channel_moves_def consume_thread_efd_def)
  ultimately show ?thesis using eff(3,4) by (simp add: consume_thread_efd_def)
next
  case (killed e req)
  then show ?thesis using ok by (simp add: all_ok_def)
next
  case (failed e res)
  then have "c = (sys s)\<lparr>cw_inflight := cw_inflight (sys s) - {#e#}\<rparr>"
    by (auto simp: cw_complete_def cw_loop_body_def bind_Some_iff split: if_splits)
  then show ?thesis by (simp add: channel_moves_def same_bytes_def)
next
  case sigint
  then show ?thesis by (auto simp: cw_kill_server_def channel_moves_def same_bytes_def)
qed

lemma channel_moves_outstanding:
  assumes "channel_moves Q contents st st' ch ch'"
  shows "thread_outstanding contents k ch' h \<le> thread_outstanding contents k ch h + (if store_live st k = None then 1 else 0)"
  using assms unfolding channel_moves_def
proof (elim disjE conjE exE)
  fix ms assume "contents (to_server_queue ch') = contents (to_server_queue ch)"
    "contents (to_program_queue ch) = ms @ contents (to_program_queue ch')"
  then show ?thesis using item_count_nonneg [of k ms] by (simp add: thread_outstanding_def)
next
  fix m assume "contents (to_server_queue ch') = contents (to_server_queue ch) @ [m]"
    "contents (to_program_queue ch') = contents (to_program_queue ch)" "store_live st (msg_item_idx m) = None"
  then show ?thesis by (auto simp: thread_outstanding_def)
qed

lemma cstep_messages:
  assumes Q: "is_fifo Q contents" and step: "cstep Q ord (sys s) c" and ok: "all_ok contents s" and ms: "messages_ok contents s"
  shows "messages_ok contents (s\<lparr>sys := c\<rparr>)"
proof -
  let ?st = "cw_store (sys s)" and ?ts = "cw_threads (sys s)"
  note eff = cstep_effect [OF Q step ok]
  have sok: "system_ok contents s" using ok by (simp add: all_ok_def)
  have ok': "system_ok contents (s\<lparr>sys := c\<rparr>)" using cstep_ok [OF Q step ok] by (simp add: all_ok_def)
  have one: "thread_outstanding contents k (cw_threads c ! i) (held s ! i) \<le> 1" if i: "i < length (cw_threads c)" for i k
  proof -
    have old: "thread_outstanding contents k (?ts ! i) (held s ! i) \<le> 1" using ms i eff by (simp add: messages_ok_def)
    have none: "thread_outstanding contents k (?ts ! i) (held s ! i) \<le> 0" if "store_live ?st k = None"
      using outstanding_live [OF sok, of i k] i eff that by (metis linorder_not_less option.simps(3))
    have "channel_moves Q contents ?st (cw_store c) (?ts ! i) (cw_threads c ! i)" using eff i by blast
    from channel_moves_outstanding [OF this, of k "held s ! i"] show ?thesis using old none by (auto split: if_splits)
  qed
  have live: "points_live (cw_store c) (msg_item_idx m) (msg_buff_ptr m)"
    if i: "i < length (cw_threads c)" and m: "m \<in> set (contents (to_server_queue (cw_threads c ! i)))" for i m
  proof -
    have mv: "channel_moves Q contents ?st (cw_store c) (?ts ! i) (cw_threads c ! i)" using eff i by blast
    have "0 < thread_outstanding contents (msg_item_idx m) (cw_threads c ! i) (held s ! i)"
      using item_count_pos [OF m] by (simp add: thread_outstanding_def add_pos_nonneg)
    then obtain bn where l: "store_live (cw_store c) (msg_item_idx m) = Some bn"
      using outstanding_live [OF ok', of i "msg_item_idx m"] i by auto
    have "?ts ! i \<in> set ?ts" using i eff by simp
    then have old: "points_live ?st (msg_item_idx m') (msg_buff_ptr m')" if "m' \<in> set (contents (to_server_queue (?ts ! i)))" for m'
      using that ms by (simp add: messages_ok_def)
    have "points_live ?st (msg_item_idx m) (msg_buff_ptr m) \<or> points_live (cw_store c) (msg_item_idx m) (msg_buff_ptr m)"
      using m mv old by (auto simp: channel_moves_def)
    then show ?thesis using points_live_stays [OF _ _ l] eff by blast
  qed
  show ?thesis using one live by (auto simp: messages_ok_def in_set_conv_nth) metis
qed

section \<open>The server threads\<close>

lemma tstep_outstanding:
  assumes Q: "is_fifo Q contents" and "tstep Q (ch, h) (ch', h')" "channel_ok contents ch"
  shows "thread_outstanding contents k ch' h' = thread_outstanding contents k ch h"
    "set (contents (to_server_queue ch')) \<subseteq> set (contents (to_server_queue ch))" "channel_ok contents ch'"
proof -
  have "thread_outstanding contents k ch' h' = thread_outstanding contents k ch h \<and>
    set (contents (to_server_queue ch')) \<subseteq> set (contents (to_server_queue ch)) \<and> channel_ok contents ch'"
    using assms(2)
  proof (cases rule: tstep.cases)
    case (taken m)
    then have "contents (to_server_queue ch) \<noteq> []" using assms(3) by (simp add: channel_ok_def)
    then obtain q where q: "q_try_dequeue Q (to_server_queue ch) = Some (m, q)" "ch' = ch\<lparr>server_efd := 0, to_server_queue := q\<rparr>"
      using taken fifo_dequeue(1) [OF Q, of "to_server_queue ch"]
      by (auto simp: get_from_to_server_queue_def split: option.splits)
    have "contents (to_server_queue ch) = m # contents q" by (rule fifo_dequeue(2) [OF Q q(1)])
    then show ?thesis using taken q(2) assms(3) by (auto simp: thread_outstanding_def channel_ok_def)
  next
    case (finished ks i ks' p len)
    then show ?thesis using assms(3)
      by (auto simp: thread_outstanding_def channel_ok_def post_message_to_program_def fifo_emplace [OF Q])
  qed
  then show "thread_outstanding contents k ch' h' = thread_outstanding contents k ch h"
    "set (contents (to_server_queue ch')) \<subseteq> set (contents (to_server_queue ch))" "channel_ok contents ch'" by blast+
qed

lemma tstep_messages:
  assumes Q: "is_fifo Q contents" and i: "i < length (cw_threads (sys s))"
    and step: "tstep Q (cw_threads (sys s) ! i, held s ! i) th" and ok: "all_ok contents s" and ms: "messages_ok contents s"
  shows "messages_ok contents (set_thread i th s)"
proof -
  obtain ch h where th: "th = (ch, h)" by (cases th)
  have c: "channel_ok contents (cw_threads (sys s) ! i)" and len: "length (held s) = length (cw_threads (sys s))"
    using ok nth_mem [OF i] unfolding all_ok_def system_ok_def by blast+
  note eff = tstep_outstanding [OF Q step [unfolded th] c]
  have sub: "contents (to_server_queue ch) = [] \<or> set (contents (to_server_queue ch)) \<subseteq> set (contents (to_server_queue (cw_threads (sys s) ! i)))"
    using eff(2) by blast
  have "points_live (cw_store (sys s)) (msg_item_idx m) (msg_buff_ptr m)" if "m \<in> set (contents (to_server_queue ch))" for m
    using that eff(2) ms nth_mem [OF i] unfolding messages_ok_def by blast
  moreover have "thread_outstanding contents k ((cw_threads (sys s))[i := ch] ! j) ((held s)[i := h] ! j) \<le> 1"
    if "j < length (cw_threads (sys s))" for j k
    using that ms eff(1) [of k] i len by (cases "j = i") (auto simp: messages_ok_def)
  ultimately show ?thesis using ms th
    by (auto simp: messages_ok_def set_thread_def dest!: set_update_subset_insert [THEN subsetD])
qed

lemma started_messages:
  assumes "fresh_central Q contents c"
  shows "messages_ok contents (started_system c)"
proof -
  have f: "fresh_channel Q contents ch" if "ch \<in> set (cw_threads c)" for ch
    using assms that by (auto simp: fresh_central_def list_all_iff)
  have r: "cw_threads (read_thread_events i chs d) = cw_threads d" for i chs and d :: "'a central"
    by (induction chs arbitrary: i d) simp_all
  have "cw_threads (cw_run_start c) = cw_threads c" by (simp add: cw_run_start_def Let_def r)
  then show ?thesis using f by (auto simp: messages_ok_def started_system_def thread_outstanding_def fresh_channel_def)
qed

lemma bstep_messages: "is_fifo Q contents \<Longrightarrow> bstep Q ord s s' \<Longrightarrow> all_ok contents s \<Longrightarrow> messages_ok contents s \<Longrightarrow> messages_ok contents s'"
  by (erule bstepE) (auto intro: cstep_messages tstep_messages)

lemma breach_messages:
  assumes "is_fifo Q contents" "breach Q ord s s'" "all_ok contents s" "messages_ok contents s"
  shows "all_ok contents s' \<and> messages_ok contents s'"
  using assms(2) by (induction rule: breach.induct) (use assms bstep_ok bstep_messages in blast)+

text \<open>Several steps of one server thread.\<close>

lemma thread_run_breach:
  assumes "(tstep Q)\<^sup>*\<^sup>* th th'" "breach Q ord s0 s" "i < length (cw_threads (sys s))" "i < length (held s)"
    and "th = (cw_threads (sys s) ! i, held s ! i)"
  shows "breach Q ord s0 (set_thread i th' s)"
  using assms
proof (induction rule: rtranclp_induct)
  case base
  then show ?case by (simp add: set_thread_def)
next
  case (step y z)
  have "bstep Q ord (set_thread i y s) (set_thread i z (set_thread i y s))"
    by (rule bstep.thread) (use step in \<open>auto simp: set_thread_def\<close>)
  moreover have "set_thread i z (set_thread i y s) = set_thread i z s" by (simp add: set_thread_def)
  ultimately show ?case using breach.there step by simp
qed

end
