(* ===== verification/Web_Books.thy ===== *)
theory Web_Books
  imports Web_Site Central_Items
begin

text \<open>
  The accounting of broadcasts in a server thread. The items a thread has taken and not yet reported
  are those in the write queues of its clients, and the uses it records for an item are the number of
  writes of it that are still queued. A write that finishes or is dropped lowers the uses, and the
  last one reports the item, once. So the web server keeps the contract \<open>tstep\<close> that the program
  thread relies on.
\<close>

section \<open>The ledger\<close>

definition uses_left :: "items \<Rightarrow> int \<Rightarrow> int" where
  "uses_left M k = int (size (filter_mset (\<lambda>x. fst x = k) M))"

text \<open>\<open>H\<close> lists the items taken, \<open>M\<close> the queued writes of items, \<open>bd\<close> the records of the web server.\<close>

definition ledger :: "int list \<Rightarrow> items \<Rightarrow> broadcast_data_items list \<Rightarrow> bool" where
  "ledger H M bd \<longleftrightarrow> distinct H \<and> set H = fst ` set_mset M \<and>
     (\<forall>x\<in>#M. in_range bd (fst x) \<and> bd_buff_ptr (bd ! nat (fst x)) = snd x \<and>
        bd_uses (bd ! nat (fst x)) = uses_left M (fst x) \<and> uses_left M (fst x) < 2 ^ 64)"

lemma uses_left_plus [simp]: "uses_left (M + N) k = uses_left M k + uses_left N k"
  by (simp add: uses_left_def)

lemma uses_left_add [simp]: "uses_left (add_mset x M) k = (if fst x = k then 1 else 0) + uses_left M k"
  by (simp add: uses_left_def)

lemma uses_left_empty [simp]: "uses_left {#} k = 0"
  by (simp add: uses_left_def)

lemma uses_left_nonneg [simp]: "0 \<le> uses_left M k"
  by (simp add: uses_left_def)

lemma uses_left_0_iff: "uses_left M k = 0 \<longleftrightarrow> k \<notin> fst ` set_mset M"
  by (induction M) (auto simp: add_nonneg_eq_0_iff)

lemma ledger_empty: "ledger [] {#} bd"
  by (simp add: ledger_def)

lemma ledger_nonneg: "ledger H M bd \<Longrightarrow> k \<in> set H \<Longrightarrow> in_range bd k"
  by (auto simp: ledger_def)

text \<open>Records of other items do not matter.\<close>

lemma ledger_records:
  assumes "ledger H M bd" "length bd \<le> length bd'" "\<And>k. k \<in> set H \<Longrightarrow> bd' ! nat k = bd ! nat k"
  shows "ledger H M bd'"
  using assms by (auto simp: ledger_def intro: in_range_mono)

text \<open>One write less.\<close>

lemma ledger_drop:
  assumes led: "ledger H (M + {#(k, p)#}) bd" and item: "item = bd ! nat k"
    and u: "u = u64 (bd_uses item - 1)"
  shows "in_range bd k \<and> u = uses_left M k \<and>
    ledger (if u = 0 then removeAll k H else H) M (bd[nat k := item\<lparr>bd_uses := u\<rparr>])"
proof -
  let ?bd = "bd[nat k := item\<lparr>bd_uses := u\<rparr>]"
  have k: "in_range bd k" "bd_buff_ptr item = p" "bd_uses item = uses_left M k + 1" "uses_left M k + 1 < 2 ^ 64"
    using led item by (auto simp: ledger_def)
  then have u': "u = uses_left M k" using u by (simp add: u64_small)
  have old: "in_range bd (fst x)" "bd_buff_ptr (bd ! nat (fst x)) = snd x"
      "bd_uses (bd ! nat (fst x)) = uses_left M (fst x) + (if fst x = k then 1 else 0)" "uses_left M (fst x) < 2 ^ 64" if "x \<in># M" for x
  proof -
    have "in_range bd (fst x) \<and> bd_buff_ptr (bd ! nat (fst x)) = snd x \<and>
        bd_uses (bd ! nat (fst x)) = uses_left (M + {#(k, p)#}) (fst x) \<and> uses_left (M + {#(k, p)#}) (fst x) < 2 ^ 64"
      using led that unfolding ledger_def by (metis union_iff)
    then show "in_range bd (fst x)" "bd_buff_ptr (bd ! nat (fst x)) = snd x"
      "bd_uses (bd ! nat (fst x)) = uses_left M (fst x) + (if fst x = k then 1 else 0)" "uses_left M (fst x) < 2 ^ 64"
      by (auto split: if_splits)
  qed
  have rec: "in_range ?bd (fst x) \<and> bd_buff_ptr (?bd ! nat (fst x)) = snd x \<and>
        bd_uses (?bd ! nat (fst x)) = uses_left M (fst x) \<and> uses_left M (fst x) < 2 ^ 64" if "x \<in># M" for x
    using old [OF that] k u' item by (cases "fst x = k") (auto simp: nth_nat_update)
  have "set (if u = 0 then removeAll k H else H) = fst ` set_mset M"
    using led uses_left_0_iff [of M k] u' by (auto simp: ledger_def)
  then show ?thesis using k(1) u' rec led by (auto simp: ledger_def distinct_removeAll)
qed

text \<open>A new item, queued once per client.\<close>

lemma ledger_add:
  assumes led: "ledger H M bd" and k: "k \<notin> set H" "in_range bd' k" and bd': "length bd \<le> length bd'"
      "\<And>j. j \<in> set H \<Longrightarrow> bd' ! nat j = bd ! nat j"
    and item: "bd' ! nat k = \<lparr>bd_buff_ptr = p, bd_data_len = len, bd_uses = int n\<rparr>" and n: "0 < n" "int n < 2 ^ 64"
  shows "ledger (H @ [k]) (M + replicate_mset n (k, p)) bd'"
proof -
  have old: "ledger H M bd'" by (rule ledger_records [OF led bd'])
  then have none: "uses_left M k = 0" using k(1) by (simp add: uses_left_0_iff ledger_def)
  have new: "uses_left (replicate_mset n (k, p)) j = (if j = k then int n else 0)" for j
    by (induction n) auto
  have "in_range bd' (fst x) \<and> bd_buff_ptr (bd' ! nat (fst x)) = snd x \<and>
      bd_uses (bd' ! nat (fst x)) = uses_left (M + replicate_mset n (k, p)) (fst x) \<and>
      uses_left (M + replicate_mset n (k, p)) (fst x) < 2 ^ 64" if "x \<in># M + replicate_mset n (k, p)" for x
  proof (cases "x \<in># M")
    case True
    then have "fst x \<noteq> k" using old k(1) by (auto simp: ledger_def)
    then show ?thesis using old True new by (simp add: ledger_def)
  next
    case False
    then have "x = (k, p)" using that by (auto split: if_splits)
    then show ?thesis using k(2) item none new n by simp
  qed
  moreover have "set (H @ [k]) = fst ` set_mset (M + replicate_mset n (k, p))" using old n(1) by (auto simp: ledger_def)
  moreover have "distinct (H @ [k])" using old k(1) by (simp add: ledger_def)
  ultimately show ?thesis unfolding ledger_def by blast
qed

section \<open>Reports\<close>

text \<open>The steps of the contract that report an item, alone.\<close>

inductive report :: "'q queue_impl \<Rightarrow> 'q channel \<times> int list \<Rightarrow> 'q channel \<times> int list \<Rightarrow> bool" for Q where
  "report Q (ch, ks @ k # ks') (post_message_to_program Q broadcast_finished p len k (u64 (-1)) ch, ks @ ks')"

lemma report_tstep: "report Q th th' \<Longrightarrow> tstep Q th th'"
  by (erule report.cases) (auto intro: tstep.finished)

lemma report_removeAll:
  assumes "k \<in> set H" "distinct H"
  shows "report Q (ch, H) (post_message_to_program Q broadcast_finished p len k (u64 (-1)) ch, removeAll k H)"
proof -
  obtain ks ks' where H: "H = ks @ k # ks'" using assms(1) by (auto simp: in_set_conv_decomp)
  then have "removeAll k H = ks @ ks'" using assms(2) by simp
  then show ?thesis using report.intros [of Q ch ks k ks'] H by simp
qed

text \<open>The event counter of the server thread has no part in a report.\<close>

lemma report_efd: "report Q (ch, H) (ch', H') \<Longrightarrow> report Q (ch\<lparr>server_efd := n\<rparr>, H) (ch'\<lparr>server_efd := n\<rparr>, H')"
proof (erule report.cases, clarify)
  fix ks k ks' p len
  have "(post_message_to_program Q broadcast_finished p len k (u64 (-1)) ch)\<lparr>server_efd := n\<rparr> =
      post_message_to_program Q broadcast_finished p len k (u64 (-1)) (ch\<lparr>server_efd := n\<rparr>)"
    by (simp add: post_message_to_program_def)
  then show "report Q (ch\<lparr>server_efd := n\<rparr>, ks @ k # ks')
      ((post_message_to_program Q broadcast_finished p len k (u64 (-1)) ch)\<lparr>server_efd := n\<rparr>, ks @ ks')"
    using report.intros [of Q "ch\<lparr>server_efd := n\<rparr>" ks k ks'] by simp
qed

lemma reports_efd:
  assumes "(report Q)\<^sup>*\<^sup>* th th'"
  shows "(tstep Q)\<^sup>*\<^sup>* ((fst th)\<lparr>server_efd := n\<rparr>, snd th) ((fst th')\<lparr>server_efd := n\<rparr>, snd th')"
  using assms
proof (induction rule: rtranclp_induct)
  case base
  then show ?case by simp
next
  case (step y z)
  have "tstep Q ((fst y)\<lparr>server_efd := n\<rparr>, snd y) ((fst z)\<lparr>server_efd := n\<rparr>, snd z)"
    using report_efd [of Q "fst y" "snd y" "fst z" "snd z" n] step(2) by (simp add: report_tstep)
  then show ?case using step(3) by simp
qed

lemma broadcast_done_reports:
  assumes led: "ledger H (M + bcast info p) (broadcast_data w)" and run: "broadcast_done E info w = Some w'"
  shows "\<exists>H'. (report (env_queue E))\<^sup>*\<^sup>* (web_channel w, H) (web_channel w', H') \<and> ledger H' M (broadcast_data w')"
proof (cases "info = -1")
  case True
  then show ?thesis using assms by (auto simp: broadcast_done_def)
next
  case False
  let ?item = "broadcast_data w ! nat info"
  let ?u = "u64 (bd_uses ?item - 1)"
  let ?bd = "(broadcast_data w)[nat info := ?item\<lparr>bd_uses := ?u\<rparr>]"
  have led': "ledger H (M + {#(info, p)#}) (broadcast_data w)" using led False by (simp add: bcast_def)
  note drop = ledger_drop [OF led' refl refl]
  have bd: "broadcast_data w' = ?bd"
    and ch: "web_channel w' = (if ?u = 0 then post_message_to_program (env_queue E) broadcast_finished (bd_buff_ptr ?item)
         (bd_data_len ?item) info (u64 (-1)) (web_channel w) else web_channel w)"
    using run False drop by (auto simp: broadcast_done_def vget_in_range vset_in_range Let_def)
  have H: "info \<in> set H" "distinct H" using led' by (auto simp: ledger_def)
  show ?thesis
  proof (cases "?u = 0")
    case True
    then have "report (env_queue E) (web_channel w, H) (web_channel w', removeAll info H)"
      using report_removeAll [OF H] ch by simp
    moreover have "ledger (removeAll info H) M (broadcast_data w')" using drop bd True by simp
    ultimately show ?thesis by blast
  next
    case no: False
    then have "web_channel w' = web_channel w" "ledger H M (broadcast_data w')" using ch bd drop by auto
    then show ?thesis by auto
  qed
qed

section \<open>The contract of the callbacks\<close>

text \<open>
  The thread has reported some of the items it held since its channel was \<open>ch\<close> and its items \<open>H\<close>; the
  writes that are queued are among \<open>N\<close>.
\<close>

definition accounted ::
    "'q queue_impl \<Rightarrow> 'q channel \<Rightarrow> int list \<Rightarrow> (int \<times> cptr) set \<Rightarrow> items \<times> broadcast_data_items list \<times> 'q channel \<Rightarrow> bool" where
  "accounted Q ch H N bk \<longleftrightarrow> (case bk of (M, bd, ch') \<Rightarrow>
     set_mset M \<subseteq> N \<and> (\<exists>H'. (report Q)\<^sup>*\<^sup>* (ch, H) (ch', H') \<and> ledger H' M bd))"

lemma accounted_done:
  assumes "accounted (env_queue E) ch H N (M + bcast info p, broadcast_data w, web_channel w)" "broadcast_done E info w = Some w'"
  shows "accounted (env_queue E) ch H N (M, broadcast_data w', web_channel w')"
proof -
  obtain H1 where N: "set_mset (M + bcast info p) \<subseteq> N" and H1: "(report (env_queue E))\<^sup>*\<^sup>* (ch, H) (web_channel w, H1)"
      "ledger H1 (M + bcast info p) (broadcast_data w)"
    using assms(1) by (auto simp: accounted_def)
  obtain H2 where "(report (env_queue E))\<^sup>*\<^sup>* (web_channel w, H1) (web_channel w', H2)" "ledger H2 M (broadcast_data w')"
    using broadcast_done_reports [OF H1(2) assms(2)] by blast
  then show ?thesis using N rtranclp_trans [OF H1(1)] by (auto simp: accounted_def)
qed

lemma new_tcp_client_books:
  "new_tcp_client i w = Some w' \<Longrightarrow> broadcast_data w' = broadcast_data w \<and> web_channel w' = web_channel w"
  by (auto simp: new_tcp_client_def Let_def bind_Some_iff)

text \<open>
  The callbacks of the web server, between two messages of the program thread: a second
  interpretation of the contract, whose event callback is never called.
\<close>

interpretation accounts: plain_layer "web_callbacks E plain_ops"
    "\<lambda>n A M w. web_ok n A w \<and> accounted (env_queue E) ch H N (M, broadcast_data w, web_channel w)" "\<lambda>_. False"
  for E :: "'q web_env" and ch H N
proof (unfold_locales, goal_cases accept no_accept close no_close on_read on_write no_write on_event custom)
  case (accept f s i n t)
  obtain w where w: "new_tcp_client i (custom_obj s) = Some w" "t = s\<lparr>custom_obj := w\<rparr>"
    using accept(1,6) by (auto simp: web_callbacks_def accept_callback_def on_web_def bind_Some_iff)
  have "plain_inv t \<and> length (clients t) = length (clients s) \<and> web_ok (length (clients t)) (active_connections t) (custom_obj t)"
    using web.accept_pres [OF accept(1-3) _ accept(5,6)] accept(4) by blast
  then show ?case using accept(4) w new_tcp_client_books [OF w(1)] by simp
next
  case (close g n s M info p i t)
  obtain w where w: "broadcast_done E info (custom_obj s) = Some w"
      "web_channel (custom_obj t) = web_channel w" "broadcast_data (custom_obj t) = broadcast_data w"
    using close(1,5) kill_client_books by (fastforce simp: web_callbacks_def close_callback_def on_web_def bind_Some_iff)
  have "accounted (env_queue E) ch H N (M, broadcast_data w, web_channel w)"
    using accounted_done [OF _ w(1)] close(2) by blast
  moreover obtain w' where "t = s\<lparr>custom_obj := w'\<rparr>" "web_ok n (active_connections s) w'" "web_ok n (active_connections s - {i}) w'"
    using web.close_pres [OF close(1) _ close(3-5)] close(2) by blast
  ultimately show ?case using w(2,3) by auto
next
  case (on_read h s i data len t)
  then show ?case using read_callback_site [of s i E data len t] by (auto simp: web_callbacks_def site_ok_def books_def)
next
  case (on_write g s i info p t)
  obtain w where w: "broadcast_done E info (custom_obj s) = Some w" "site_ok t" "books t = books (s\<lparr>custom_obj := w\<rparr>)"
    using on_write write_callback_site [of s i E info t] by (auto simp: web_callbacks_def site_ok_def)
  have "accounted (env_queue E) ch H N (pending_items (clients s), broadcast_data w, web_channel w)"
    using accounted_done [OF _ w(1)] on_write(4) by blast
  then show ?case using w(2,3) by (simp add: site_ok_def books_def)
next
  case (custom k s i fd buff t)
  then show ?case using custom_read_callback_site [of s i E fd buff t] by (auto simp: web_callbacks_def site_ok_def books_def)
qed (simp_all add: web_callbacks_def)

section \<open>A message\<close>

text \<open>The records after a message: resized when the index is new, other items as before.\<close>

lemma resized_records:
  fixes bd :: "broadcast_data_items list"
  assumes k: "0 \<le> k" "k < 2 ^ 31"
    and bd': "bd' = (if int (length bd) \<le> u64 k then vresize (nat (u64 (k + 1))) new_broadcast_data_items bd else bd)"
  shows "in_range bd' k" "length bd \<le> length bd'" "\<And>j. in_range bd j \<Longrightarrow> bd' ! nat j = bd ! nat j"
proof -
  have u: "u64 k = k" "u64 (k + 1) = k + 1" using k by (simp_all add: u64_small)
  then show "in_range bd' k" "length bd \<le> length bd'" using k bd' by (auto simp: in_range_def)
  show "bd' ! nat j = bd ! nat j" if "in_range bd j" for j
    using that u k bd' by (auto simp: vresize_def nth_append in_range_def)
qed

lemma broadcast_pending:
  assumes "op_broadcast plain_ops idxs n p len k s = Some t" "0 < n" "0 \<le> k" "k < 2 ^ 31"
  shows "pending_items (clients t) = pending_items (clients s) + replicate_mset (length idxs) (k, p)"
proof -
  have "bcast (i32 k) p = {#(k, p)#}" using assms(3,4) by (simp add: bcast_def i32_small)
  moreover have "sum_list (map (\<lambda>_. {#x#}) idxs) = replicate_mset (length idxs) x" for x :: "int \<times> cptr"
    by (induction idxs) auto
  ultimately show ?thesis
    using assms(1,2) broadcast_loop_pending [of p len k idxs s t] by (simp add: plain_ops_def broadcast_message_ptr_def)
qed

text \<open>With WebSockets, the message is queued for each of them and recorded.\<close>

lemma event_queued:
  assumes ok: "site_ok s" and w: "w = custom_obj s" and A: "A = active_websocket_connections w" "0 < card A"
    and msg: "get_from_to_server_queue (env_queue E) (web_channel w) = (m, ch)" "msg_buff_ptr m \<noteq> Nullptr"
    and idx: "0 \<le> msg_item_idx m" "msg_item_idx m < 2 ^ 31"
    and bd: "bd = (if int (length (broadcast_data w)) \<le> u64 (msg_item_idx m)
      then vresize (nat (u64 (msg_item_idx m + 1))) new_broadcast_data_items (broadcast_data w) else broadcast_data w)"
    and item: "item = \<lparr>bd_buff_ptr = msg_buff_ptr m, bd_data_len = msg_length m, bd_uses = int (card A)\<rparr>"
  shows "\<exists>t. event_callback E plain_ops s = Some t \<and> is_active t = is_active s \<and>
    custom_obj t = w\<lparr>web_channel := ch, broadcast_data := bd[nat (msg_item_idx m) := item]\<rparr> \<and>
    pending_items (clients t) = pending_items (clients s) + replicate_mset (card A) (msg_item_idx m, msg_buff_ptr m)"
proof -
  let ?k = "msg_item_idx m" and ?idxs = "uord_list (env_order E) A"
  let ?s = "s\<lparr>custom_obj := w\<lparr>web_channel := ch, broadcast_data := bd[nat ?k := item]\<rparr>\<rparr>"
  have fin: "finite A" using A(2) card_ge_0_finite by blast
  then have len: "length ?idxs = card A" by (metis distinct_card distinct_uord_list set_uord_list)
  have sub: "set ?idxs \<subseteq> active_connections ?s" using ok w A fin by (auto simp: site_ok_def web_ok_def)
  have "plain_inv ?s" using ok by (simp add: site_ok_def)
  from broadcast_message_ptr_ok [OF this sub msg(2), of "int (card A)" "msg_length m" ?k]
  obtain t where t: "op_broadcast plain_ops ?idxs (int (card A)) (msg_buff_ptr m) (msg_length m) ?k ?s = Some t" "same_frame ?s t"
    by (auto simp: plain_ops_def)
  have "event_callback E plain_ops s = Some t"
    using t(1) A(2) resized_records(1) [OF idx bd]
    unfolding event_callback_def w [symmetric] A(1) [symmetric] Let_def msg(1) prod.case bd [symmetric]
    by (simp add: vset_in_range item)
  moreover have "pending_items (clients t) = pending_items (clients s) + replicate_mset (card A) (?k, msg_buff_ptr m)"
    using broadcast_pending [OF t(1) _ idx] A(2) len by simp
  ultimately show ?thesis using t(2) by (simp add: same_frame_def)
qed

lemma event_accounted:
  assumes ok: "site_ok s" and w: "w = custom_obj s" and led: "ledger H (pending_items (clients s)) (broadcast_data w)"
    and msg: "q_try_dequeue (env_queue E) (to_server_queue (web_channel w)) = Some (m, q)" "msg_buff_ptr m \<noteq> Nullptr"
    and idx: "msg_item_idx m \<notin> set H" "0 \<le> msg_item_idx m" "msg_item_idx m < 2 ^ 31"
    and few: "int (card (active_websocket_connections w)) < 2 ^ 64"
    and run: "event_callback E plain_ops s = Some t"
  shows "site_ok t \<and> accounted (env_queue E) ((web_channel w)\<lparr>to_server_queue := q\<rparr>) (H @ [msg_item_idx m])
    (insert (msg_item_idx m, msg_buff_ptr m) (set_mset (pending_items (clients s)))) (books t)"
proof -
  let ?k = "msg_item_idx m" and ?A = "active_websocket_connections w" and ?ch = "(web_channel w)\<lparr>to_server_queue := q\<rparr>"
  have take: "get_from_to_server_queue (env_queue E) (web_channel w) = (m, ?ch)"
    using msg(1) by (simp add: get_from_to_server_queue_def)
  have site: "site_ok t"
    by (rule event_callback_site [OF ok _ run]) (use msg w in \<open>simp add: posted_def\<close>)
  define bd where "bd = (if int (length (broadcast_data w)) \<le> u64 ?k
      then vresize (nat (u64 (?k + 1))) new_broadcast_data_items (broadcast_data w) else broadcast_data w)"
  note bd = resized_records [OF idx(2,3) bd_def]
  have old: "bd ! nat j = broadcast_data w ! nat j" if "j \<in> set H" for j using bd(3) ledger_nonneg [OF led that] by blast
  show ?thesis
  proof (cases "card ?A > 0")
    case True
    define item where "item = \<lparr>bd_buff_ptr = msg_buff_ptr m, bd_data_len = msg_length m, bd_uses = int (card ?A)\<rparr>"
    have obj: "custom_obj t = w\<lparr>web_channel := ?ch, broadcast_data := bd[nat ?k := item]\<rparr>"
      and pend: "pending_items (clients t) = pending_items (clients s) + replicate_mset (card ?A) (?k, msg_buff_ptr m)"
      using event_queued [OF ok w refl True take msg(2) idx(2,3) bd_def item_def] run by auto
    have "bd[nat ?k := item] ! nat j = broadcast_data w ! nat j" if "j \<in> set H" for j
    proof -
      have "nat j \<noteq> nat ?k" using ledger_nonneg [OF led that] that idx(1,2) by (auto simp: in_range_def eq_nat_nat_iff)
      then show ?thesis using old [OF that] by simp
    qed
    then have "ledger (H @ [?k]) (pending_items (clients t)) (bd[nat ?k := item])"
      unfolding pend by (intro ledger_add [OF led idx(1)])
        (use bd few True in \<open>auto simp: item_def in_range_nat\<close>)
    then show ?thesis using site obj pend by (auto simp: accounted_def books_def split: if_splits)
  next
    case False
    have t: "t = s\<lparr>custom_obj := w\<lparr>broadcast_data := bd, web_channel :=
        post_message_to_program (env_queue E) broadcast_finished (msg_buff_ptr m) (msg_length m) ?k (u64 (-1)) ?ch\<rparr>\<rparr>"
      using run False take unfolding event_callback_def w [symmetric] Let_def take prod.case bd_def [symmetric] by simp
    have "clients t = clients s" by (simp add: t)
    moreover have "report (env_queue E) (?ch, H @ [?k]) (web_channel (custom_obj t), H)"
      using report.intros [of "env_queue E" ?ch H ?k "[]"] by (simp add: t)
    moreover have "ledger H (pending_items (clients t)) (broadcast_data (custom_obj t))"
      using ledger_records [OF led bd(2) old] by (simp add: t)
    ultimately show ?thesis using site by (auto simp: accounted_def books_def)
  qed
qed

end
