(* ===== verification/Web_Signals.thy ===== *)
theory Web_Signals
  imports Web_Site
begin

text \<open>
  The notification event of a server thread. Only the completion of a read of it resets its counter
  and submits the next read; nothing else that the server or the web server on it does has a part in
  it. The locale \<open>quiet_layer\<close> is that contract of the callbacks.
\<close>

section \<open>What belongs to the notification event\<close>

definition is_notification :: "sqe \<times> request \<Rightarrow> bool" where
  "is_notification er \<longleftrightarrow> rq_event (snd er) = NOTIFICATION"

definition signal :: "('c, 'w) server \<Rightarrow> nat \<times> int \<times> (sqe \<times> request) multiset" where
  "signal s = (notification_count s, notification_efd s, filter_mset is_notification (inflight s))"

lemma signal_updates [simp]:
  "signal (s\<lparr>clients := cs\<rparr>) = signal s" "signal (s\<lparr>custom_obj := w\<rparr>) = signal s"
  "signal (s\<lparr>active_connections := A\<rparr>) = signal s" "signal (s\<lparr>freed_indexes := A\<rparr>) = signal s"
  "signal (s\<lparr>closed_fds := fs\<rparr>) = signal s" "signal (s\<lparr>multi_writes := ms\<rparr>) = signal s"
  "signal (s\<lparr>closed_fds := fs, freed_indexes := A\<rparr>) = signal s"
  by (simp_all add: signal_def)

lemma signal_submit [simp]: "rq_event r \<noteq> NOTIFICATION \<Longrightarrow> signal (submit e r s) = signal s"
  by (simp add: signal_def submit_def is_notification_def)

lemma new_request_event [simp]: "rq_event (new_request ev) = ev"
  by (simp add: new_request_def)

section \<open>The operations of the server\<close>

named_theorems quiet

lemma upd_client_quiet [quiet]: "upd_client i f s = Some t \<Longrightarrow> signal t = signal s"
  by (auto simp: upd_client_def bind_Some_iff)

lemma destroy_write_data_quiet [quiet]: "destroy_write_data wd s = Some t \<Longrightarrow> signal t = signal s"
  by (auto simp: destroy_write_data_def bind_Some_iff split: option.splits)

lemma pop_send_data_quiet [quiet]: "pop_send_data i s = Some t \<Longrightarrow> signal t = signal s"
  by (auto simp: pop_send_data_def elim!: bind_SomeE dest!: quiet split: list.splits)

lemma destroy_all_quiet [quiet]: "destroy_all ws s = Some t \<Longrightarrow> signal t = signal s"
  by (induction ws arbitrary: s) (auto simp: bind_Some_iff dest!: destroy_write_data_quiet)

lemma clear_send_data_quiet [quiet]: "clear_send_data i s = Some t \<Longrightarrow> signal t = signal s"
  by (auto simp: clear_send_data_def bind_Some_iff dest!: quiet)

lemma add_write_req_quiet [quiet]: "add_write_req i WRITE p n s = Some t \<Longrightarrow> signal t = signal s"
  by (auto simp: add_write_req_def bind_Some_iff Let_def dest!: quiet)

lemma read_connection_quiet [quiet]: "read_connection i s = Some t \<Longrightarrow> signal t = signal s"
  by (auto simp: read_connection_def add_read_req_def bind_Some_iff Let_def dest!: quiet split: if_splits)

lemma custom_read_req_quiet [quiet]: "custom_read_req fd n i b a s = Some t \<Longrightarrow> signal t = signal s"
  by (auto simp: custom_read_req_def Let_def split: if_splits)

lemma push_write_quiet [quiet]: "push_write i wd p n s = Some t \<Longrightarrow> signal t = signal s"
  by (auto simp: push_write_def enqueue_write_def bind_Some_iff dest!: quiet split: if_splits)

lemma write_vec_quiet [quiet]: "write_connection_vec i b s = Some t \<Longrightarrow> signal t = signal s"
  by (auto simp: write_connection_vec_push dest!: quiet)

lemma write_ptr_quiet [quiet]: "write_connection_ptr i p n s = Some t \<Longrightarrow> signal t = signal s"
  by (auto simp: write_connection_ptr_push dest!: quiet)

lemma broadcast_loop_quiet: "broadcast_ptr_loop p n k idxs s = Some t \<Longrightarrow> signal t = signal s"
  by (induction idxs arbitrary: s)
     (auto simp: broadcast_ptr_loop_push bind_Some_iff dest!: push_write_quiet simp del: broadcast_ptr_loop.simps(2))

lemma broadcast_quiet [quiet]: "broadcast_message_ptr idxs n p len k s = Some t \<Longrightarrow> signal t = signal s"
  by (auto simp: broadcast_message_ptr_def dest!: broadcast_loop_quiet split: if_splits)

lemma close_connection_quiet [quiet]: "close_connection i s = Some t \<Longrightarrow> signal t = signal s"
  by (auto simp: close_connection_def bind_Some_iff dest!: quiet split: if_splits)

lemma setup_client_quiet [quiet]: "setup_client d fd s = Some (i, t) \<Longrightarrow> signal t = signal s"
  by (auto simp: setup_client_def bind_Some_iff Let_def dest!: quiet split: if_splits)

lemma finish_write_quiet [quiet]: "finish_write r s = Some (info, t) \<Longrightarrow> signal t = signal s"
  by (auto simp: finish_write_def elim!: bind_SomeE dest!: quiet split: if_splits list.splits)

section \<open>The contract of the callbacks\<close>

locale quiet_layer =
  fixes CB :: "(unit, 'w) callbacks"
  assumes accept_quiet: "accept_cb CB = Some f \<Longrightarrow> f i s = Some t \<Longrightarrow> signal t = signal s"
    and close_quiet: "close_cb CB = Some g \<Longrightarrow> g i info s = Some t \<Longrightarrow> signal t = signal s"
    and read_quiet: "read_cb CB = Some h \<Longrightarrow> h i data len s = Some t \<Longrightarrow> signal t = signal s"
    and write_quiet: "write_cb CB = Some g \<Longrightarrow> g i info s = Some t \<Longrightarrow> signal t = signal s"
    and event_quiet: "event_cb CB = Some e \<Longrightarrow> e s = Some t \<Longrightarrow> signal t = signal s"
    and custom_read_quiet: "custom_read_cb CB = Some k \<Longrightarrow> k i fd buff s = Some t \<Longrightarrow> signal t = signal s"
begin

lemma call0_quiet: "(\<And>f s t. cb = Some f \<Longrightarrow> f s = Some t \<Longrightarrow> signal t = signal s) \<Longrightarrow> call0 cb s = Some t \<Longrightarrow> signal t = signal s"
  by (auto simp: call0_def split: option.splits)

lemma call_quiet:
  "call0 (map_option (\<lambda>f. f i) (accept_cb CB)) s = Some t \<Longrightarrow> signal t = signal s"
  "call0 (map_option (\<lambda>f. f i info) (close_cb CB)) s = Some t \<Longrightarrow> signal t = signal s"
  "call0 (map_option (\<lambda>f. f i data len) (read_cb CB)) s = Some t \<Longrightarrow> signal t = signal s"
  "call0 (map_option (\<lambda>f. f i info) (write_cb CB)) s = Some t \<Longrightarrow> signal t = signal s"
  "call0 (event_cb CB) s = Some t \<Longrightarrow> signal t = signal s"
  by (erule call0_quiet [rotated], auto dest: accept_quiet close_quiet read_quiet write_quiet event_quiet)+

lemma drain_quiet: "drain_send_data CB i s = Some t \<Longrightarrow> signal t = signal s"
proof -
  have "CB' = CB \<longrightarrow> signal t = signal s" if "drain_send_data CB' i s = Some t" for CB'
  proof (rule drain_send_data.raw_induct [OF _ that], intro impI)
    fix f CB' i s t
    assume IH: "\<And>CB' i s t. f CB' i s = Some t \<Longrightarrow> CB' = CB \<longrightarrow> signal t = signal s" and CB': "CB' = CB"
      and run: "do { c \<leftarrow> vget (clients s) i; (case send_data c of [] \<Rightarrow> Some s | wd # _ \<Rightarrow> do {
          s \<leftarrow> call0 (map_option (\<lambda>f. f i (broadcast_info wd)) (close_cb CB')) s; s \<leftarrow> pop_send_data i s; f CB' i s }) } = Some t"
    show "signal t = signal s"
      using run IH [of CB] CB' by (auto elim!: bind_SomeE dest!: call_quiet pop_send_data_quiet split: list.splits)
  qed
  then show "drain_send_data CB i s = Some t \<Longrightarrow> signal t = signal s" by blast
qed

lemma close_client_quiet: "close_client (plain_derived CB) CB i s = Some t \<Longrightarrow> signal t = signal s"
  by (auto simp: close_client_def plain_derived_def bind_Some_iff dest!: drain_quiet call_quiet close_connection_quiet)

lemma timer_loop_quiet: "timer_loop (plain_derived CB) CB peek idxs s = Some t \<Longrightarrow> signal t = signal s"
  by (induction idxs arbitrary: s) (auto simp: bind_Some_iff dest!: close_client_quiet split: if_splits)

lemma handle_failure_quiet: "handle_failure (plain_derived CB) CB r res s = Some t \<Longrightarrow> signal t = signal s"
  by (auto simp: handle_failure_def bind_Some_iff dest!: close_client_quiet upd_client_quiet split: if_splits)

lemma handle_accept_quiet: "handle_accept plain_client CB res s = Some t \<Longrightarrow> signal t = signal s"
  by (auto simp: handle_accept_def add_tcp_accept_req_def add_accept_req_def Let_def elim!: bind_SomeE
      dest!: setup_client_quiet read_connection_quiet call_quiet)

lemma handle_read_quiet: "handle_read CB r res s = Some t \<Longrightarrow> signal t = signal s"
  by (auto simp: handle_read_def elim!: bind_SomeE dest!: upd_client_quiet call_quiet)

lemma handle_write_quiet: "handle_write CB r res s = Some t \<Longrightarrow> rq_event r \<noteq> NOTIFICATION \<Longrightarrow> signal t = signal s"
  by (auto simp: handle_write_def add_write_req_continued_def Let_def elim!: bind_SomeE
      dest!: finish_write_quiet call_quiet split: if_splits)

lemma handle_custom_read_quiet: "handle_custom_read CB r res s = Some t \<Longrightarrow> rq_event r \<noteq> NOTIFICATION \<Longrightarrow> signal t = signal s"
  by (auto simp: handle_custom_read_def custom_read_req_continued_def Let_def call0_def
      dest: custom_read_quiet split: option.splits if_splits)

lemma loop_body_quiet:
  assumes "loop_body ord (plain_derived CB) CB peek r res s = Some t" "rq_event r \<noteq> NOTIFICATION" "rq_event r \<noteq> KILL"
  shows "signal t = signal s"
proof (cases "handle_failure (plain_derived CB) CB r res s = Some t")
  case True
  then show ?thesis by (rule handle_failure_quiet)
next
  case False
  consider "plain_handler CB r res s = Some t" | "handle_custom_read CB r res s = Some t"
    | s1 where "timer_loop (plain_derived CB) CB peek (uord_list ord (active_connections s)) s = Some s1" "t = add_timerfd_read_req s1"
    using assms False by (auto simp: loop_body_def plain_derived_def bind_Some_iff split: if_splits event_type.splits)
  then show ?thesis
  proof cases
    case 1
    then show ?thesis using assms(2)
      by (auto simp: plain_handler_def dest!: handle_accept_quiet handle_read_quiet handle_write_quiet split: event_type.splits)
  next
    case 2
    then show ?thesis using assms(2) handle_custom_read_quiet by blast
  next
    case 3
    then show ?thesis using timer_loop_quiet by (auto simp: add_timerfd_read_req_def)
  qed
qed

text \<open>
  A completion. Other requests than those for the notification event do not read its descriptor: the
  kernel hands out distinct descriptors.
\<close>

lemma complete_quiet:
  assumes run: "complete ord (plain_derived CB) CB peek e r res data s = Some t" and ev: "rq_event r \<noteq> NOTIFICATION" "rq_event r \<noteq> KILL"
    and fd: "op_fd e \<noteq> notification_efd s"
  shows "signal t = signal s"
proof -
  obtain r' where r': "fill_request e r data = Some r'"
    and t: "loop_body ord (plain_derived CB) CB peek r' res (consume_eventfd e res (s\<lparr>inflight := inflight s - {#(e, r)#}\<rparr>)) = Some t"
    using run by (auto simp: complete_def bind_Some_iff)
  have "signal (consume_eventfd e res (s\<lparr>inflight := inflight s - {#(e, r)#}\<rparr>)) = signal s"
    using ev(1) fd by (auto simp: signal_def consume_eventfd_def is_notification_def split: sqe.splits)
  then show ?thesis using loop_body_quiet [OF t] ev fill_request_keeps [OF r'] by simp
qed

text \<open>A read of the notification event: the callback finds the counter reset and the next read submitted.\<close>

lemma complete_notification:
  assumes run: "complete ord (plain_derived CB) CB peek e r res data s = Some t" and ev: "rq_event r = NOTIFICATION"
    and e: "e = Op_read (notification_efd s) at len off" "0 < res" and mem: "(e, r) \<in># inflight s"
  shows "notification_count t = 0" "notification_efd t = notification_efd s"
    "\<forall>er\<in>#inflight t. is_notification er \<longrightarrow> er \<in># inflight s \<or> fst er = Op_read (notification_efd s) 0 8 0"
    "call0 (event_cb CB) (event_read (notification_efd s) NOTIFICATION
       (s\<lparr>inflight := inflight s - {#(e, r)#}, notification_count := 0\<rparr>)) = Some t"
proof -
  let ?s = "event_read (notification_efd s) NOTIFICATION (s\<lparr>inflight := inflight s - {#(e, r)#}, notification_count := 0\<rparr>)"
  obtain r' where r': "fill_request e r data = Some r'"
    and body: "loop_body ord (plain_derived CB) CB peek r' res (s\<lparr>inflight := inflight s - {#(e, r)#}, notification_count := 0\<rparr>) = Some t"
    using run e by (auto simp: complete_def bind_Some_iff consume_eventfd_def)
  then show c: "call0 (event_cb CB) ?s = Some t"
    using ev fill_request_keeps [OF r'] by (simp add: loop_body_def client_request_def)
  have sg: "signal t = signal ?s" by (rule call_quiet(5) [OF c])
  then show "notification_count t = 0" "notification_efd t = notification_efd s"
    by (simp_all add: signal_def event_read_def submit_def)
  have eq: "filter_mset is_notification (inflight t) = filter_mset is_notification (inflight ?s)" using sg by (simp add: signal_def)
  have "er \<in># inflight ?s" if "er \<in># inflight t" "is_notification er" for er
  proof -
    have "er \<in># filter_mset is_notification (inflight t)" using that by simp
    then show ?thesis unfolding eq by simp
  qed
  then show "\<forall>er\<in>#inflight t. is_notification er \<longrightarrow> er \<in># inflight s \<or> fst er = Op_read (notification_efd s) 0 8 0"
    by (fastforce simp: event_read_def submit_def dest: in_diffD)
qed

end

section \<open>The web server\<close>

lemma on_web_quiet [quiet]: "on_web f s = Some t \<Longrightarrow> signal t = signal s"
  by (auto simp: on_web_def bind_Some_iff)

lemma plain_ops_quiet [quiet]:
  "op_write_vec plain_ops i b s = Some t \<Longrightarrow> signal t = signal s"
  "op_write_ptr plain_ops i p n s = Some t \<Longrightarrow> signal t = signal s"
  "op_broadcast plain_ops idxs m p n k s = Some t \<Longrightarrow> signal t = signal s"
  "op_close plain_ops i s = Some t \<Longrightarrow> signal t = signal s"
  by (auto simp: plain_ops_def dest!: quiet)

lemma web_close_quiet [quiet]: "web_close_connection plain_ops i s = Some t \<Longrightarrow> signal t = signal s"
  by (auto simp: web_close_connection_def elim!: bind_SomeE dest!: quiet)

lemma send_file_quiet [quiet]: "send_file_request E plain_ops i p ab code s = Some (b, t) \<Longrightarrow> signal t = signal s"
  by (auto simp: send_file_request_def Let_def elim!: bind_SomeE dest!: quiet split: if_splits sum.splits prod.splits)

lemma websocket_accept_quiet [quiet]: "websocket_accept_read_cb E plain_ops key i s = Some t \<Longrightarrow> signal t = signal s"
  by (auto simp: websocket_accept_read_cb_def Let_def elim!: bind_SomeE dest!: quiet)

lemma websocket_write_quiet [quiet]: "websocket_write plain_ops k b s = Some t \<Longrightarrow> signal t = signal s"
  by (auto simp: websocket_write_def elim!: bind_SomeE dest!: quiet)

lemma close_ws_req_quiet [quiet]: "close_ws_connection_req plain_ops k b s = Some t \<Longrightarrow> signal t = signal s"
  by (auto simp: close_ws_connection_req_def elim!: bind_SomeE dest!: quiet split: if_splits)

lemma close_ws_confirm_quiet [quiet]: "close_ws_connection_potential_confirm plain_ops k s = Some t \<Longrightarrow> signal t = signal s"
  by (auto simp: close_ws_connection_potential_confirm_def elim!: bind_SomeE dest!: quiet split: if_splits)

lemma process_write_quiet [quiet]: "websocket_process_write_cb plain_ops i s = Some (b, t) \<Longrightarrow> signal t = signal s"
  by (auto simp: websocket_process_write_cb_def elim!: bind_SomeE dest!: quiet split: if_splits)

lemma get_ws_frames_quiet [quiet]: "get_ws_frames plain_ops b n k s = Some (fs, t) \<Longrightarrow> signal t = signal s"
  by (auto simp: get_ws_frames_def elim!: bind_SomeE dest!: quiet split: sum.splits)

lemma process_frame_quiet [quiet]: "process_frame plain_ops k m f s = Some (cl, m', t) \<Longrightarrow> signal t = signal s"
  by (auto simp: process_frame_def elim!: bind_SomeE dest!: quiet split: if_splits)

lemma process_frames_quiet [quiet]: "process_frames plain_ops k m fs s = Some (cl, ms, t) \<Longrightarrow> signal t = signal s"
  by (induction fs arbitrary: m s cl ms) (auto simp: Let_def elim!: bind_SomeE dest!: process_frame_quiet split: if_splits)

lemma process_read_quiet [quiet]: "websocket_process_read_cb plain_ops i b n s = Some t \<Longrightarrow> signal t = signal s"
  by (auto simp: websocket_process_read_cb_def Let_def elim!: bind_SomeE dest!: quiet split: if_splits option.splits)

lemma get_process_quiet [quiet]: "get_process E plain_ops p ab key i s = Some (b, t) \<Longrightarrow> signal t = signal s"
  by (auto simp: get_process_def elim!: bind_SomeE dest!: quiet split: if_splits)

lemma read_callback_quiet: "read_callback E plain_ops i b n s = Some t \<Longrightarrow> signal t = signal s"
  by (auto simp: read_callback_def Let_def elim!: bind_SomeE dest!: quiet split: if_splits)

lemma event_callback_quiet: "event_callback E plain_ops s = Some t \<Longrightarrow> signal t = signal s"
  by (auto simp: event_callback_def Let_def case_prod_unfold elim!: bind_SomeE dest!: quiet split: if_splits)

lemma custom_read_callback_quiet: "custom_read_callback E plain_ops i fd b s = Some t \<Longrightarrow> signal t = signal s"
  by (auto simp: custom_read_callback_def Let_def elim!: bind_SomeE dest!: quiet split: if_splits)

interpretation web_quiet: quiet_layer "web_callbacks E plain_ops" for E :: "'q web_env"
  by unfold_locales
     (auto simp: web_callbacks_def accept_callback_def close_callback_def write_callback_def elim!: bind_SomeE
      dest!: quiet read_callback_quiet event_callback_quiet custom_read_callback_quiet split: if_splits)

end
