(* ===== verification/Program.thy ===== *)
theory Program
  imports Web_Books Web_Signals
begin

text \<open>
  The whole program: the program thread of \<open>central_web_server::run\<close> and its server threads, each a web
  server on a plain TCP server. The two sides share the channel of each thread. The composition refines
  the broadcast protocol of \<open>Central_Props\<close>, whose server threads are known by their contract alone.
\<close>

section \<open>The composition\<close>

text \<open>
  The channel of a server thread as the program thread sees it: the queues in the web server object,
  and the notification event of its TCP server. \<open>put_channel\<close> is the effect of a change on its side.
\<close>

definition thread_channel :: "('c, 'q web) server \<Rightarrow> 'q channel" where
  "thread_channel s = (web_channel (custom_obj s))\<lparr>server_efd := notification_count s\<rparr>"

definition put_channel :: "'q channel \<Rightarrow> ('c, 'q web) server \<Rightarrow> ('c, 'q web) server" where
  "put_channel ch s = s\<lparr>custom_obj := (custom_obj s)\<lparr>web_channel := ch\<rparr>, notification_count := server_efd ch\<rparr>"

record 'q program =
  pr_central :: "'q central"
  pr_servers :: "(unit, 'q web) server list"

text \<open>
  The completion of a request in a server thread. The kernel completes a read of an event descriptor
  when its counter is not zero, and hands out distinct descriptors. The files, the hash and the order
  of the sets may be different every time.
\<close>

inductive served :: "'q queue_impl \<Rightarrow> (unit, 'q web) server \<Rightarrow> (unit, 'q web) server \<Rightarrow> bool" for Q where
  "is_active s \<Longrightarrow> (e, r) \<in># inflight s \<Longrightarrow> kernel_result e res data \<Longrightarrow> on_time s peek r res \<Longrightarrow>
   (rq_event r = NOTIFICATION \<Longrightarrow> 0 < notification_count s \<and> 0 < res) \<Longrightarrow>
   (rq_event r \<noteq> NOTIFICATION \<Longrightarrow> op_fd e \<noteq> notification_efd s) \<Longrightarrow> env_queue E = Q \<Longrightarrow>
   complete (env_order E) (plain_derived (web_callbacks E plain_ops)) (web_callbacks E plain_ops) peek e r res data s = Some t \<Longrightarrow>
   served Q s t"

text \<open>The limits of the C++ types: the index of an item is an \<open>int\<close>, its uses a \<open>uint64_t\<close>.\<close>

definition within_limits :: "'q program \<Rightarrow> bool" where
  "within_limits p \<longleftrightarrow> length (data_vec (cw_store (pr_central p))) \<le> 2 ^ 31 \<and>
     (\<forall>s\<in>set (pr_servers p). int (card (active_websocket_connections (custom_obj s))) < 2 ^ 64)"

inductive prog_step :: "'q queue_impl \<Rightarrow> uorder \<Rightarrow> 'q program \<Rightarrow> 'q program \<Rightarrow> bool" for Q ord where
  program: "cstep Q ord (pr_central p) c \<Longrightarrow>
     prog_step Q ord p \<lparr>pr_central = c, pr_servers = map2 put_channel (cw_threads c) (pr_servers p)\<rparr>"
| server: "i < length (pr_servers p) \<Longrightarrow> within_limits p \<Longrightarrow> served Q (pr_servers p ! i) t \<Longrightarrow>
     prog_step Q ord p \<lparr>pr_central = (pr_central p)\<lparr>cw_threads := (cw_threads (pr_central p))[i := thread_channel t]\<rparr>,
       pr_servers = (pr_servers p)[i := t]\<rparr>"

inductive prog_run :: "'q queue_impl \<Rightarrow> uorder \<Rightarrow> 'q program \<Rightarrow> 'q program \<Rightarrow> bool" for Q ord p where
  here: "prog_run Q ord p p"
| more: "prog_run Q ord p p' \<Longrightarrow> prog_step Q ord p' p'' \<Longrightarrow> prog_run Q ord p p''"

text \<open>\<open>start_server\<close>: every server thread has been set up by \<open>thread_server_runner\<close>, and \<open>run\<close> enters its loop.\<close>

definition thread_started :: "(unit, 'q web) server \<Rightarrow> bool" where
  "thread_started s \<longleftrightarrow> (\<exists>conf N ch ifd. plain_thread_server_runner conf N (new_web ch ifd) = Some (Inr s))"

definition program_started :: "'q queue_impl \<Rightarrow> ('q \<Rightarrow> message_post_data list) \<Rightarrow> 'q central \<Rightarrow> 'q program \<Rightarrow> bool" where
  "program_started Q contents c p \<longleftrightarrow> fresh_central Q contents c \<and> cw_threads c = map thread_channel (pr_servers p) \<and>
     pr_central p = cw_run_start c \<and> list_all thread_started (pr_servers p)"

section \<open>The simulation\<close>

definition signals_ok :: "('c, 'w) server \<Rightarrow> bool" where
  "signals_ok s \<longleftrightarrow> (\<forall>er\<in>#inflight s. is_notification er \<longrightarrow> (\<exists>at len off. fst er = Op_read (notification_efd s) at len off))"

text \<open>A running server thread that holds the items \<open>h\<close>, with the store \<open>st\<close>.\<close>

definition thread_ok :: "data_store \<Rightarrow> (unit, 'q web) server \<Rightarrow> int list \<Rightarrow> bool" where
  "thread_ok st s h \<longleftrightarrow> site_ok s \<and> signals_ok s \<and> ledger h (pending_items (clients s)) (broadcast_data (custom_obj s)) \<and>
     (\<forall>x\<in>#pending_items (clients s). points_live st (fst x) (snd x))"

definition matches :: "'q program \<Rightarrow> int list list \<Rightarrow> bool" where
  "matches p hs \<longleftrightarrow> cw_threads (pr_central p) = map thread_channel (pr_servers p) \<and> length hs = length (pr_servers p) \<and>
     (\<forall>i<length (pr_servers p). is_active (pr_servers p ! i) \<longrightarrow>
        thread_ok (cw_store (pr_central p)) (pr_servers p ! i) (hs ! i))"

lemma thread_put [simp]: "thread_channel (put_channel ch s) = ch"
  by (simp add: thread_channel_def put_channel_def)

lemma put_frame:
  "is_active (put_channel ch s) = is_active s" "clients (put_channel ch s) = clients s"
  "broadcast_data (custom_obj (put_channel ch s)) = broadcast_data (custom_obj s)"
  "signals_ok (put_channel ch s) = signals_ok s" "site_ok (put_channel ch s) = site_ok s"
  by (auto simp: put_channel_def signals_ok_def site_ok_def plain_inv_at_def web_ok_def ws_linked_def)

lemma signals_ok_signal:
  assumes "signal t = signal s" "signals_ok s"
  shows "signals_ok t"
proof -
  have eq: "filter_mset is_notification (inflight t) = filter_mset is_notification (inflight s)" "notification_efd t = notification_efd s"
    using assms(1) by (auto simp: signal_def)
  have "er \<in># inflight s" if "er \<in># inflight t" "is_notification er" for er
  proof -
    have "er \<in># filter_mset is_notification (inflight t)" using that by simp
    then show ?thesis unfolding eq(1) by simp
  qed
  then show ?thesis using assms(2) eq(2) by (auto simp: signals_ok_def)
qed

text \<open>What a thread holds is counted as on its way.\<close>

lemma held_outstanding: "k \<in> set h \<Longrightarrow> 0 < thread_outstanding contents k ch h"
  using count_list_0_iff [of h k] by (simp add: thread_outstanding_def add_nonneg_pos add_pos_nonneg)

subsection \<open>Steps of the program thread\<close>

lemma program_matches:
  assumes Q: "is_fifo Q contents" and ok: "all_ok contents \<lparr>sys = pr_central p, held = hs\<rparr>"
    and step: "cstep Q ord (pr_central p) c" and m: "matches p hs"
  shows "matches \<lparr>pr_central = c, pr_servers = map2 put_channel (cw_threads c) (pr_servers p)\<rparr> hs"
proof -
  let ?s = "\<lparr>sys = pr_central p, held = hs\<rparr>"
  have step': "cstep Q ord (sys ?s) c" using step by simp
  note eff = cstep_effect [OF Q step' ok]
  have "all_ok contents (?s\<lparr>sys := c\<rparr>)" by (rule cstep_ok [OF Q step' ok])
  then have ok': "system_ok contents \<lparr>sys = c, held = hs\<rparr>" by (simp add: all_ok_def)
  have len: "length (cw_threads c) = length (pr_servers p)" using eff m by (simp add: matches_def)
  have "points_live (cw_store c) (fst x) (snd x)"
    if i: "i < length (pr_servers p)" "is_active (pr_servers p ! i)" and x: "x \<in># pending_items (clients (pr_servers p ! i))" for i x
  proof -
    have t: "thread_ok (cw_store (pr_central p)) (pr_servers p ! i) (hs ! i)" using m i by (simp add: matches_def)
    then have "fst x \<in> set (hs ! i)" using x by (auto simp: thread_ok_def ledger_def)
    then have "0 < thread_outstanding contents (fst x) (cw_threads c ! i) (hs ! i)" by (rule held_outstanding)
    then obtain bn where "store_live (cw_store c) (fst x) = Some bn"
      using outstanding_live [OF ok', of i "fst x"] i len by auto
    then show ?thesis using t x eff points_live_stays by (fastforce simp: thread_ok_def)
  qed
  moreover have "map thread_channel (map2 put_channel (cw_threads c) (pr_servers p)) = cw_threads c"
    using len by (auto intro: nth_equalityI)
  ultimately show ?thesis using m len by (auto simp: matches_def thread_ok_def put_frame)
qed

subsection \<open>Steps of a server thread\<close>

lemma served_steps:
  assumes s: "thread_ok st s h" and mem: "(e, r) \<in># inflight s" "kernel_result e res data" "on_time s peek r res"
    and ev: "rq_event r \<noteq> NOTIFICATION" "rq_event r \<noteq> KILL" "op_fd e \<noteq> notification_efd s" and E: "env_queue E = Q"
    and run: "complete (env_order E) (plain_derived (web_callbacks E plain_ops)) (web_callbacks E plain_ops) peek e r res data s = Some t"
  shows "\<exists>h'. (tstep Q)\<^sup>*\<^sup>* (thread_channel s, h) (thread_channel t, h') \<and> thread_ok st t h'"
proof -
  let ?ch = "web_channel (custom_obj s)" and ?N = "set_mset (pending_items (clients s))"
  have acc: "accounted (env_queue E) ?ch h ?N (pending_items (clients s), broadcast_data (custom_obj s), ?ch)"
    using s by (auto simp: accounted_def thread_ok_def)
  have "plain_inv t \<and> web_ok (length (clients t)) (active_connections t) (custom_obj t) \<and>
      accounted (env_queue E) ?ch h ?N (pending_items (clients t), broadcast_data (custom_obj t), web_channel (custom_obj t))"
    using accounts.complete_keeps [OF run mem _ _ ev(2), of ?ch h ?N] s acc ev(1) by (simp add: thread_ok_def site_ok_def)
  then obtain h' where t: "site_ok t" "set_mset (pending_items (clients t)) \<subseteq> ?N"
      "(report Q)\<^sup>*\<^sup>* (?ch, h) (web_channel (custom_obj t), h')" "ledger h' (pending_items (clients t)) (broadcast_data (custom_obj t))"
    using E by (auto simp: accounted_def site_ok_def)
  have sig: "signal t = signal s" by (rule web_quiet.complete_quiet [OF run ev])
  then have "notification_count t = notification_count s" by (simp add: signal_def)
  then have "(tstep Q)\<^sup>*\<^sup>* (thread_channel s, h) (thread_channel t, h')"
    using reports_efd [OF t(3), of "notification_count s"] by (simp add: thread_channel_def)
  moreover have "signals_ok t" using signals_ok_signal [OF sig] s by (simp add: thread_ok_def)
  ultimately show ?thesis using t s by (auto simp: thread_ok_def)
qed

lemma notified_steps:
  assumes Q: "is_fifo Q contents" and s: "thread_ok st s h" and mem: "(e, r) \<in># inflight s"
    and ev: "rq_event r = NOTIFICATION" "0 < notification_count s" "0 < res" and E: "env_queue E = Q"
    and run: "complete (env_order E) (plain_derived (web_callbacks E plain_ops)) (web_callbacks E plain_ops) peek e r res data s = Some t"
    and ch: "channel_ok contents (thread_channel s)"
    and one: "\<And>k. thread_outstanding contents k (thread_channel s) h \<le> 1"
    and live: "\<And>m. m \<in> set (contents (to_server_queue (thread_channel s))) \<Longrightarrow> points_live st (msg_item_idx m) (msg_buff_ptr m)"
    and lim: "length (data_vec st) \<le> 2 ^ 31" "int (card (active_websocket_connections (custom_obj s))) < 2 ^ 64"
  shows "\<exists>h'. (tstep Q)\<^sup>*\<^sup>* (thread_channel s, h) (thread_channel t, h') \<and> thread_ok st t h'"
proof -
  let ?w = "custom_obj s" and ?N = "set_mset (pending_items (clients s))"
  let ?s = "event_read (notification_efd s) NOTIFICATION (s\<lparr>inflight := inflight s - {#(e, r)#}, notification_count := 0\<rparr>)"
  obtain at len off where e: "e = Op_read (notification_efd s) at len off"
    using s mem ev(1) by (force simp: thread_ok_def signals_ok_def is_notification_def)
  note fx = web_quiet.complete_notification [OF run ev(1) e ev(3) mem]
  have "contents (to_server_queue (web_channel ?w)) \<noteq> []" using ch ev(2) by (simp add: channel_ok_def thread_channel_def)
  then obtain m q where deq: "q_try_dequeue (env_queue E) (to_server_queue (web_channel ?w)) = Some (m, q)"
    using fifo_dequeue(1) [OF Q] E by fastforce
  then have front: "contents (to_server_queue (web_channel ?w)) = m # contents q" using fifo_dequeue(2) [OF Q] E by blast
  let ?k = "msg_item_idx m" and ?p = "msg_buff_ptr m"
  have pl: "points_live st ?k ?p" using live [of m] front by (simp add: thread_channel_def)
  then have k: "0 \<le> ?k" "?k < 2 ^ 31" "?p \<noteq> Nullptr"
    using lim(1) by (auto simp: points_live_def store_live_def live_slot_def vget_def in_range_def split: if_splits)
  have "count_list h ?k = 0" using one [of ?k] front by (simp add: thread_outstanding_def thread_channel_def item_count_def)
  then have fresh: "?k \<notin> set h" by (simp add: count_list_0_iff)
  have "plain_inv ?s"
  proof -
    have "plain_ok (clients s) (active_connections s) (freed_indexes s) (inflight s - {#(e, r)#})"
      using plain_ok_remove_other [of "clients s" "active_connections s" "freed_indexes s" "(e, r)"] s mem ev(1)
      by (simp add: thread_ok_def site_ok_def plain_inv_at_def)
    then have "plain_inv (s\<lparr>inflight := inflight s - {#(e, r)#}, notification_count := 0\<rparr>)" by (simp add: plain_inv_at_def)
    then show ?thesis unfolding event_read_def by (rule submit_other_ok) (simp add: client_request_def)
  qed
  then have site: "site_ok ?s" using s by (simp add: thread_ok_def site_ok_def event_read_def submit_def)
  have same: "clients ?s = clients s" "custom_obj ?s = ?w" by (simp_all add: event_read_def submit_def)
  have "event_callback E plain_ops ?s = Some t" using fx(4) by (simp add: call0_def web_callbacks_def)
  from event_accounted [OF site same(2) [symmetric] _ deq k(3) fresh k(1,2) lim(2) this]
  have t: "site_ok t" "accounted Q ((web_channel ?w)\<lparr>to_server_queue := q\<rparr>) (h @ [?k]) (insert (?k, ?p) ?N) (books t)"
    using s same E by (auto simp: thread_ok_def)
  then obtain h' where h': "set_mset (pending_items (clients t)) \<subseteq> insert (?k, ?p) ?N"
      "(report Q)\<^sup>*\<^sup>* ((web_channel ?w)\<lparr>to_server_queue := q\<rparr>, h @ [?k]) (web_channel (custom_obj t), h')"
      "ledger h' (pending_items (clients t)) (broadcast_data (custom_obj t))"
    by (auto simp: accounted_def books_def)
  have "tstep Q (thread_channel s, h) ((web_channel ?w)\<lparr>to_server_queue := q, server_efd := 0\<rparr>, h @ [?k])"
    by (rule tstep.taken) (use ev(2) deq E in \<open>auto simp: thread_channel_def get_from_to_server_queue_def\<close>)
  moreover have "(tstep Q)\<^sup>*\<^sup>* ((web_channel ?w)\<lparr>to_server_queue := q, server_efd := 0\<rparr>, h @ [?k]) (thread_channel t, h')"
    using reports_efd [OF h'(2), of 0] fx(1) by (simp add: thread_channel_def)
  ultimately have "(tstep Q)\<^sup>*\<^sup>* (thread_channel s, h) (thread_channel t, h')" by (rule converse_rtranclp_into_rtranclp)
  moreover have "signals_ok t" using s fx(2,3) by (fastforce simp: thread_ok_def signals_ok_def)
  moreover have "points_live st (fst x) (snd x)" if "x \<in># pending_items (clients t)" for x
    using that h'(1) pl s by (auto simp: thread_ok_def)
  ultimately show ?thesis using t(1) h'(3) unfolding thread_ok_def by blast
qed

text \<open>One completion in the server thread \<open>i\<close> of a program is a sequence of steps of its contract.\<close>

lemma server_matches:
  assumes Q: "is_fifo Q contents" and ok: "all_ok contents \<lparr>sys = pr_central p, held = hs\<rparr>"
    and ms: "messages_ok contents \<lparr>sys = pr_central p, held = hs\<rparr>" and m: "matches p hs"
    and i: "i < length (pr_servers p)" and lim: "within_limits p" and step: "served Q (pr_servers p ! i) t"
    and p': "p' = \<lparr>pr_central = (pr_central p)\<lparr>cw_threads := (cw_threads (pr_central p))[i := thread_channel t]\<rparr>,
       pr_servers = (pr_servers p)[i := t]\<rparr>"
  shows "\<exists>h. (tstep Q)\<^sup>*\<^sup>* (cw_threads (pr_central p) ! i, hs ! i) (thread_channel t, h) \<and> matches p' (hs[i := h])"
proof -
  let ?s = "pr_servers p ! i" and ?st = "cw_store (pr_central p)"
  have ch: "cw_threads (pr_central p) ! i = thread_channel ?s" and len: "length hs = length (pr_servers p)"
    using m i by (auto simp: matches_def)
  have "\<exists>h. (tstep Q)\<^sup>*\<^sup>* (thread_channel ?s, hs ! i) (thread_channel t, h) \<and> (is_active t \<longrightarrow> thread_ok ?st t h)"
    using step
  proof cases
    case (1 e r res data peek E)
    have s: "thread_ok ?st ?s (hs ! i)" using m i 1(1) by (simp add: matches_def)
    have mem: "thread_channel ?s \<in> set (cw_threads (pr_central p))" using m i by (simp add: matches_def)
    consider "rq_event r = KILL" | "rq_event r = NOTIFICATION" | "rq_event r \<noteq> KILL" "rq_event r \<noteq> NOTIFICATION" by blast
    then show ?thesis
    proof cases
      case kill: 1
      have t: "t = handle_kill (consume_eventfd e res (?s\<lparr>inflight := inflight ?s - {#(e, r)#}\<rparr>))"
        by (rule complete_kill [OF 1(8) kill])
      have "thread_channel t = thread_channel ?s" "\<not> is_active t"
        using 1(6) kill unfolding t by (auto simp: thread_channel_def handle_kill_def consume_eventfd_def split: sqe.splits)
      then show ?thesis by auto
    next
      case 2
      have "thread_outstanding contents k (thread_channel ?s) (hs ! i) \<le> 1" for k
        using ms m i by (auto simp: messages_ok_def matches_def)
      moreover have "channel_ok contents (thread_channel ?s)" using ok mem by (simp add: all_ok_def system_ok_def)
      moreover have "points_live ?st (msg_item_idx x) (msg_buff_ptr x)" if "x \<in> set (contents (to_server_queue (thread_channel ?s)))" for x
        using that ms mem by (simp add: messages_ok_def)
      ultimately show ?thesis
        using notified_steps [OF Q s 1(2) 2 _ _ 1(7,8)] 1(5) 2 lim i by (auto simp: within_limits_def)
    next
      case 3
      then show ?thesis using served_steps [OF s 1(2-4) _ _ 1(6-8)] by blast
    qed
  qed
  then obtain h where h: "(tstep Q)\<^sup>*\<^sup>* (thread_channel ?s, hs ! i) (thread_channel t, h)" "is_active t \<longrightarrow> thread_ok ?st t h"
    by blast
  have "matches p' (hs[i := h])"
    using m i len h(2) unfolding matches_def p' by (auto simp: map_update nth_list_update)
  then show ?thesis using h(1) ch by auto
qed

subsection \<open>Runs\<close>

lemma runner_fresh:
  assumes "plain_thread_server_runner conf N (new_web ch ifd) = Some (Inr s)"
  shows "clients s = []" "signals_ok s"
proof -
  obtain port s0 s1 where "plain_server_new N port (new_web ch ifd) = Inr s0" "set_tcp_server s0 = Some s1" "s = start s1"
    using assms by (auto simp: plain_thread_server_runner_def elim!: bind_SomeE split: sum.splits)
  then show "clients s = []" "signals_ok s"
    by (auto simp: plain_server_new_def server_base_def Let_def event_read_def add_timerfd_read_req_def submit_def set_tcp_server_def
        custom_read_req_def start_def add_tcp_accept_req_def add_accept_req_def signals_ok_def is_notification_def split: sum.splits if_splits)
qed

lemma started_thread_ok: "thread_started s \<Longrightarrow> thread_ok st s []"
  using runner_site runner_fresh ledger_empty by (fastforce simp: thread_started_def thread_ok_def pending_items_def)

lemma started_matches:
  assumes "program_started Q contents c p"
  shows "matches p (replicate (length (pr_servers p)) [])" "\<lparr>sys = pr_central p, held = replicate (length (pr_servers p)) []\<rparr> = started_system c"
proof -
  have r: "cw_threads (read_thread_events i chs d) = cw_threads d" for i chs and d :: "'a central"
    by (induction chs arbitrary: i d) simp_all
  have "cw_threads (cw_run_start c) = cw_threads c" by (simp add: cw_run_start_def Let_def r)
  then show "matches p (replicate (length (pr_servers p)) [])"
    using assms started_thread_ok by (auto simp: program_started_def matches_def list_all_length)
  show "\<lparr>sys = pr_central p, held = replicate (length (pr_servers p)) []\<rparr> = started_system c"
    using assms by (simp add: program_started_def started_system_def)
qed

lemma prog_run_simulated:
  assumes Q: "is_fifo Q contents" and start: "program_started Q contents c p0" and run: "prog_run Q ord p0 p"
  shows "\<exists>hs. breach Q ord (started_system c) \<lparr>sys = pr_central p, held = hs\<rparr> \<and> matches p hs"
  using run
proof (induction rule: prog_run.induct)
  case here
  then show ?case using started_matches [OF start] breach.here by metis
next
  case (more p p')
  then obtain hs where b: "breach Q ord (started_system c) \<lparr>sys = pr_central p, held = hs\<rparr>" and m: "matches p hs" by blast
  have fresh: "fresh_central Q contents c" using start by (simp add: program_started_def)
  have ok: "all_ok contents \<lparr>sys = pr_central p, held = hs\<rparr>" "messages_ok contents \<lparr>sys = pr_central p, held = hs\<rparr>"
    using breach_messages [OF Q b started_ok [OF fresh] started_messages [OF fresh]] by blast+
  from more(2) show ?case
  proof cases
    case (program c')
    have "bstep Q ord \<lparr>sys = pr_central p, held = hs\<rparr> (\<lparr>sys = pr_central p, held = hs\<rparr>\<lparr>sys := c'\<rparr>)"
      by (rule bstep.program) (use program in simp)
    then show ?thesis using breach.there [OF b] program_matches [OF Q ok(1) program(2) m] program(1) by auto
  next
    case (server i t)
    obtain h where h: "(tstep Q)\<^sup>*\<^sup>* (cw_threads (pr_central p) ! i, hs ! i) (thread_channel t, h)" "matches p' (hs[i := h])"
      using server_matches [OF Q ok m server(2-4,1)] by blast
    have "breach Q ord (started_system c) (set_thread i (thread_channel t, h) \<lparr>sys = pr_central p, held = hs\<rparr>)"
      by (rule thread_run_breach [OF h(1) b]) (use m server(2) in \<open>auto simp: matches_def\<close>)
    then show ?thesis using h(2) server(1) by (auto simp: set_thread_def)
  qed
qed

end
