(* ===== verification/Web_Cache_Links.thy ===== *)
theory Web_Cache_Links
  imports Web_Cache
begin

text \<open>
  The links of the cache: doubly linked lists whose nodes are array elements, and what a hit,
  an eviction and an insertion do to the list from \<open>lowest_idx\<close> to \<open>highest_idx\<close>.
\<close>

section \<open>Doubly linked lists over an array\<close>

text \<open>
  \<open>dll nx pv p xs n\<close>: following \<open>nx\<close> from the first element of \<open>xs\<close> visits
  \<open>xs\<close> and then \<open>n\<close>; \<open>pv\<close> leads back to \<open>p\<close>.
\<close>

fun dll :: "(int \<Rightarrow> int) \<Rightarrow> (int \<Rightarrow> int) \<Rightarrow> int \<Rightarrow> int list \<Rightarrow> int \<Rightarrow> bool" where
  "dll nx pv p [] n \<longleftrightarrow> True"
| "dll nx pv p (x # xs) n \<longleftrightarrow> pv x = p \<and> nx x = hd (xs @ [n]) \<and> dll nx pv x xs n"

lemma dll_append:
  "dll nx pv p (xs @ ys) n \<longleftrightarrow> dll nx pv p xs (hd (ys @ [n])) \<and> dll nx pv (last (p # xs)) ys n"
  by (induction xs arbitrary: p) (auto simp: hd_append)

lemma dll_frame:
  "(\<And>x. x \<in> set xs \<Longrightarrow> nx' x = nx x \<and> pv' x = pv x) \<Longrightarrow> dll nx' pv' p xs n \<longleftrightarrow> dll nx pv p xs n"
  by (induction xs arbitrary: p) auto

lemma dll_upd_nx [simp]: "x \<notin> set xs \<Longrightarrow> dll (nx(x := v)) pv p xs n \<longleftrightarrow> dll nx pv p xs n"
  by (rule dll_frame) auto

lemma dll_upd_pv [simp]: "x \<notin> set xs \<Longrightarrow> dll nx (pv(x := v)) p xs n \<longleftrightarrow> dll nx pv p xs n"
  by (rule dll_frame) auto

lemma dll_snoc:
  "dll nx pv p (xs @ [x]) n \<longleftrightarrow> dll nx pv p xs x \<and> pv x = last (p # xs) \<and> nx x = n"
  by (simp add: dll_append)

lemma dll_nx_end: "dll nx pv p (as @ c # bs) (-1) \<Longrightarrow> -1 \<notin> set bs \<Longrightarrow> nx c = -1 \<longleftrightarrow> bs = []"
  by (cases bs) (auto simp: dll_append)

lemma dll_pv_start: "dll nx pv (-1) (as @ c # bs) n \<Longrightarrow> -1 \<notin> set as \<Longrightarrow> pv c = -1 \<longleftrightarrow> as = []"
  by (cases as rule: rev_cases) (auto simp: dll_append)

lemma dll_unlink:
  assumes d: "dll nx pv (-1) (as @ c # b # bs) n" and dist: "distinct (as @ c # b # bs)"
  shows "dll (if as = [] then nx else nx(last as := b)) (pv(b := last (-1 # as))) (-1) (as @ b # bs) n"
  using assms by (cases as rule: rev_cases) (auto simp: dll_append)

lemma dll_push:
  assumes "dll nx pv p xs n" "c \<notin> set xs" "distinct xs"
  shows "dll ((if xs = [] then nx else nx(last xs := c))(c := m)) (pv(c := last (p # xs))) p (xs @ [c]) m"
  using assms by (cases xs rule: rev_cases) (auto simp: dll_append)

lemma dll_pop:
  assumes "dll nx pv (-1) (c # b # bs) n" "distinct (c # b # bs)"
  shows "dll nx (pv(b := -1)) (-1) (b # bs) n"
  using dll_unlink [of nx pv "[]" c b bs n] assms by simp

section \<open>The links of the cache\<close>

abbreviation itm :: "cache \<Rightarrow> int \<Rightarrow> cache_item" where
  "itm c i \<equiv> cache_buffer c ! nat i"

abbreviation nx :: "cache_item list \<Rightarrow> int \<Rightarrow> int" where
  "nx B \<equiv> \<lambda>i. next_item_idx (B ! nat i)"

abbreviation pv :: "cache_item list \<Rightarrow> int \<Rightarrow> int" where
  "pv B \<equiv> \<lambda>i. prev_item_idx (B ! nat i)"

definition linked :: "cache \<Rightarrow> int list \<Rightarrow> bool" where
  "linked c xs \<longleftrightarrow> distinct xs \<and> (\<forall>i\<in>set xs. in_range (cache_buffer c) i) \<and>
     dll (nx (cache_buffer c)) (pv (cache_buffer c)) (-1) xs (-1) \<and>
     lowest_idx c = hd (xs @ [-1]) \<and> highest_idx c = last (-1 # xs)"

text \<open>What a relinking keeps of the items: everything but the links.\<close>

definition same_content :: "cache_item \<Rightarrow> cache_item \<Rightarrow> bool" where
  "same_content x y \<longleftrightarrow> item_buffer x = item_buffer y \<and> lock_number x = lock_number y \<and>
     outdated x = outdated y \<and> watch x = watch y"

lemma mod_item_run:
  "in_range (cache_buffer c) i \<Longrightarrow>
     mod_item i f c = Some (c\<lparr>cache_buffer := (cache_buffer c)[nat i := f (itm c i)]\<rparr>)"
  by (simp add: mod_item_def vec_simps)

lemma linked_in_range: "linked c xs \<Longrightarrow> i \<in> set xs \<Longrightarrow> in_range (cache_buffer c) i"
  by (simp add: linked_def)

lemma in_range_not_minus_one: "in_range xs i \<Longrightarrow> i \<noteq> -1"
  by (auto simp: in_range_def)

lemmas link_simps = mod_item_run vec_simps found_item_def unlink_item_def Let_def in_range_not_minus_one

lemma dll_frame_items:
  assumes "\<And>i. i \<in> set xs \<Longrightarrow> next_item_idx (B ! nat i) = nx' i \<and> prev_item_idx (B ! nat i) = pv' i"
    and "dll nx' pv' p xs n"
  shows "dll (nx B) (pv B) p xs n"
  using dll_frame [of xs "nx B" nx' "pv B" pv' p n] assms by simp

text \<open>
  A hit on an item that is not outdated moves it to the end of the list, locks it once more and
  keeps everything else.
\<close>

definition locked_item :: "int \<Rightarrow> cache \<Rightarrow> int \<Rightarrow> cache_item" where
  "locked_item cur c i =
     (if i = cur then (itm c i)\<lparr>lock_number := lock_number (itm c i) + 1\<rparr> else itm c i)"

definition hit_result :: "int list \<Rightarrow> int \<Rightarrow> int list \<Rightarrow> cache \<Rightarrow> cache_item list \<Rightarrow> bool" where
  "hit_result as cur bs c B \<longleftrightarrow> length B = length (cache_buffer c) \<and>
     dll (nx B) (pv B) (-1) (as @ bs @ [cur]) (-1) \<and>
     (\<forall>i. in_range (cache_buffer c) i \<longrightarrow> same_content (B ! nat i) (locked_item cur c i)) \<and>
     (\<forall>i. in_range (cache_buffer c) i \<longrightarrow> i \<notin> set (as @ cur # bs) \<longrightarrow> B ! nat i = itm c i)"

definition hit_cache :: "int \<Rightarrow> int \<Rightarrow> int list \<Rightarrow> cache_item list \<Rightarrow> cache \<Rightarrow> cache" where
  "hit_cache cur cl xs B c = c\<lparr>cache_buffer := B,
     client_idx_to_cache_idx := (client_idx_to_cache_idx c)(cl \<mapsto> cur),
     lowest_idx := hd xs, highest_idx := cur\<rparr>"

definition hit_item :: "int \<Rightarrow> cache \<Rightarrow> cache_fetch_item" where
  "hit_item cur c = \<lparr>found = True, fetch_size = int (length (item_buffer (itm c cur))),
     fetch_buff = Ptr (Cache_slot cur) (item_buffer (itm c cur))\<rparr>"

lemma linked_split:
  assumes "linked c (as @ cur # bs)"
  shows "in_range (cache_buffer c) cur" "\<And>i. i \<in> set as \<Longrightarrow> in_range (cache_buffer c) i"
    "\<And>i. i \<in> set bs \<Longrightarrow> in_range (cache_buffer c) i"
    "lowest_idx c = hd (as @ cur # bs)" "highest_idx c = last (cur # bs)"
    "dll (nx (cache_buffer c)) (pv (cache_buffer c)) (-1) (as @ cur # bs) (-1)"
    "distinct (as @ cur # bs)" "pv (cache_buffer c) cur = last (-1 # as)"
    "nx (cache_buffer c) cur = hd (bs @ [-1])"
  using assms by (auto simp: linked_def hd_append dll_append)

lemma fetch_item_hit_top:
  assumes hit: "filepath_to_cache_idx c p = Some cur" and l: "linked c (as @ [cur])"
    and fresh: "\<not> outdated (itm c cur)" "item_buffer (itm c cur) \<noteq> []"
  shows "\<exists>B. fetch_item p cl t c =
      Some (hit_cache cur cl (as @ [cur]) B c, t\<lparr>using_file := True\<rparr>, hit_item cur c) \<and>
      hit_result as cur [] c B"
proof -
  note s = linked_split [OF l]
  let ?B = "(cache_buffer c)[nat cur := (itm c cur)\<lparr>lock_number := lock_number (itm c cur) + 1\<rparr>]"
  have "dll (nx ?B) (pv ?B) (-1) (as @ [cur]) (-1)"
    by (rule dll_frame_items [OF _ s(6)]) (use s(1-3) in \<open>auto simp: vec_simps\<close>)
  then have "hit_result as cur [] c ?B"
    using s(1) by (auto simp: hit_result_def same_content_def locked_item_def vec_simps)
  moreover have "fetch_item p cl t c =
      Some (hit_cache cur cl (as @ [cur]) ?B c, t\<lparr>using_file := True\<rparr>, hit_item cur c)"
    using hit fresh s(1,4,5,9) by (simp add: fetch_item_def link_simps hit_cache_def hit_item_def)
  ultimately show ?thesis by blast
qed

lemma mod_item_obtain:
  assumes "in_range (cache_buffer c) i"
  obtains B where "mod_item i f c = Some (c\<lparr>cache_buffer := B\<rparr>)" "length B = length (cache_buffer c)"
    "\<And>j. in_range (cache_buffer c) j \<Longrightarrow> B ! nat j = (if j = i then f (itm c i) else itm c j)"
  using assms that by (auto simp: link_simps)

lemma in_range_length: "length xs = length ys \<Longrightarrow> in_range xs i = in_range ys i"
  by (simp add: in_range_def)

lemma unlink_item_linked:
  assumes len: "length B1 = length (cache_buffer c)"
    and l: "linked c (as @ cur # b # bs)"
    and it: "prev_item_idx it = last (-1 # as)" "next_item_idx it = b"
  obtains B where "unlink_item it (c\<lparr>cache_buffer := B1\<rparr>) =
      Some (c\<lparr>cache_buffer := B, lowest_idx := hd (as @ b # bs)\<rparr>)"
    "length B = length (cache_buffer c)"
    "\<And>j. in_range (cache_buffer c) j \<Longrightarrow> B ! nat j = (B1 ! nat j)
       \<lparr>next_item_idx := if as \<noteq> [] \<and> j = last as then b else next_item_idx (B1 ! nat j),
         prev_item_idx := if j = b then last (-1 # as) else prev_item_idx (B1 ! nat j)\<rparr>"
proof (cases "as = []")
  case True
  note s = linked_split [OF l]
  have rb: "in_range B1 b" using s(3) [of b] in_range_length [OF len] by simp
  have "unlink_item it (c\<lparr>cache_buffer := B1\<rparr>) = Some (c\<lparr>cache_buffer :=
      B1[nat b := (B1 ! nat b)\<lparr>prev_item_idx := -1\<rparr>], lowest_idx := hd (as @ b # bs)\<rparr>)"
    using it True rb by (simp add: link_simps)
  then show thesis
    by (rule that) (use True len rb in_range_length [OF len] in \<open>auto simp: vec_simps\<close>)
next
  case False
  note s = linked_split [OF l]
  have la: "in_range B1 (last as)" "last as \<noteq> b" "last as \<noteq> -1"
    using s(2) [of "last as"] s(7) False in_range_length [OF len] last_in_set [OF False]
      in_range_not_minus_one by auto
  have rb: "in_range B1 b" using s(3) [of b] in_range_length [OF len] by simp
  have low: "hd (as @ b # bs) = lowest_idx c" using False s(4) by simp
  have "unlink_item it (c\<lparr>cache_buffer := B1\<rparr>) = Some (c\<lparr>cache_buffer :=
      B1[nat (last as) := (B1 ! nat (last as))\<lparr>next_item_idx := b\<rparr>,
         nat b := (B1 ! nat b)\<lparr>prev_item_idx := last as\<rparr>], lowest_idx := hd (as @ b # bs)\<rparr>)"
    unfolding low using it False rb la by (simp add: link_simps)
  then show thesis
    by (rule that) (use False len rb la in_range_length [OF len] in \<open>auto simp: vec_simps\<close>)
qed

lemma fetch_item_hit_inner:
  assumes hit: "filepath_to_cache_idx c p = Some cur" and l: "linked c (as @ cur # b # bs)"
    and fresh: "\<not> outdated (itm c cur)" "item_buffer (itm c cur) \<noteq> []"
  shows "\<exists>B. fetch_item p cl t c =
      Some (hit_cache cur cl (as @ b # bs @ [cur]) B c, t\<lparr>using_file := True\<rparr>, hit_item cur c) \<and>
      hit_result as cur (b # bs) c B"
proof -
  note s = linked_split [OF l]
  define h where "h = last (b # bs)"
  have rb: "in_range (cache_buffer c) b" and rh: "in_range (cache_buffer c) h"
    and top: "highest_idx c = h" using s(3,5) by (auto simp: h_def)
  have ch: "cur \<noteq> b" "cur \<noteq> h" "b \<noteq> -1" using s(7) rb in_range_not_minus_one by (auto simp: h_def)
  let ?m = "(client_idx_to_cache_idx c)(cl \<mapsto> cur)"
  obtain B1 where B1: "mod_item cur (\<lambda>it. it\<lparr>lock_number := lock_number it + 1\<rparr>) c = Some (c\<lparr>cache_buffer := B1\<rparr>)"
    "length B1 = length (cache_buffer c)"
    "\<And>j. in_range (cache_buffer c) j \<Longrightarrow> B1 ! nat j = locked_item cur c j"
    by (rule mod_item_obtain [OF s(1), where f = "\<lambda>it. it\<lparr>lock_number := lock_number it + 1\<rparr>"])
      (simp add: locked_item_def)
  let ?c1 = "c\<lparr>client_idx_to_cache_idx := ?m\<rparr>"
  have l1: "linked ?c1 (as @ cur # b # bs)" using l by (simp add: linked_def)
  have it: "prev_item_idx (B1 ! nat cur) = last (-1 # as)" "next_item_idx (B1 ! nat cur) = b"
    "\<not> outdated (B1 ! nat cur)"
    using B1(3) [OF s(1)] s(8,9) fresh by (auto simp: locked_item_def)
  have len1: "length B1 = length (cache_buffer ?c1)" using B1 by simp
  obtain B3 where B3: "unlink_item (B1 ! nat cur) (?c1\<lparr>cache_buffer := B1\<rparr>) =
      Some (?c1\<lparr>cache_buffer := B3, lowest_idx := hd (as @ b # bs)\<rparr>)"
    "length B3 = length (cache_buffer c)"
    "\<And>j. in_range (cache_buffer c) j \<Longrightarrow> B3 ! nat j = (B1 ! nat j)
       \<lparr>next_item_idx := if as \<noteq> [] \<and> j = last as then b else next_item_idx (B1 ! nat j),
         prev_item_idx := if j = b then last (-1 # as) else prev_item_idx (B1 ! nat j)\<rparr>"
    by (rule unlink_item_linked [OF len1 l1 it(1,2)]) auto
  have r3: "in_range B3 i = in_range (cache_buffer c) i" for i by (rule in_range_length [OF B3(2)])
  let ?B5 = "B3[nat h := (B3 ! nat h)\<lparr>next_item_idx := cur\<rparr>,
    nat cur := (B3 ! nat cur)\<lparr>next_item_idx := -1, prev_item_idx := h\<rparr>]"
  let ?nx = "(if as = [] then nx (cache_buffer c) else (nx (cache_buffer c))(last as := b))(h := cur, cur := -1)"
  let ?pv = "(pv (cache_buffer c))(b := last (-1 # as), cur := h)"
  have items: "next_item_idx (?B5 ! nat i) = ?nx i \<and> prev_item_idx (?B5 ! nat i) = ?pv i \<and>
      same_content (?B5 ! nat i) (locked_item cur c i)" if i: "in_range (cache_buffer c) i" for i
    using s(1) rh ch B3(3) [OF i] B1(3) [OF i] B3(3) [OF s(1)] B1(3) [OF s(1)] B3(3) [OF rh] B1(3) [OF rh] i
    by (auto simp: nth_nat_update r3 same_content_def locked_item_def)
  have "dll ?nx ?pv (-1) ((as @ b # bs) @ [cur]) (-1)"
    using dll_push [OF dll_unlink [OF s(6,7)], of cur "-1"] s(7) by (simp add: h_def del: fun_upd_apply)
  then have "dll (nx ?B5) (pv ?B5) (-1) (as @ (b # bs) @ [cur]) (-1)"
    by (intro dll_frame_items [where nx' = ?nx and pv' = ?pv]) (use items s(1-3) in auto)
  moreover have "?B5 ! nat i = itm c i" if i: "in_range (cache_buffer c) i" "i \<notin> set (as @ cur # b # bs)" for i
  proof -
    have "i \<noteq> h" using i(2) last_in_set [of "b # bs"] by (auto simp: h_def)
    moreover have "\<not> (as \<noteq> [] \<and> i = last as)" using i(2) by auto
    ultimately show ?thesis
      using i s(1) rh B3(3) [OF i(1)] B1(3) [OF i(1)] by (auto simp: nth_nat_update r3 locked_item_def)
  qed
  ultimately have "hit_result as cur (b # bs) c ?B5" using items B3(2) by (simp add: hit_result_def)
  moreover have "found_item cur (?c1\<lparr>cache_buffer := ?B5, lowest_idx := hd (as @ b # bs), highest_idx := cur\<rparr>) =
      Some (hit_item cur c)"
    using s(1) fresh items [OF s(1)]
    by (simp add: found_item_def vget_in_range r3 hit_item_def same_content_def locked_item_def)
  moreover have "hd (as @ b # bs @ [cur]) = hd (as @ b # bs)" by (simp add: hd_append)
  moreover have "mod_item h (\<lambda>x. x\<lparr>next_item_idx := cur\<rparr>)
        (?c1\<lparr>cache_buffer := B3, lowest_idx := hd (as @ b # bs)\<rparr>) =
      Some (?c1\<lparr>cache_buffer := B3[nat h := (B3 ! nat h)\<lparr>next_item_idx := cur\<rparr>], lowest_idx := hd (as @ b # bs)\<rparr>)"
    (is "?M4 = Some ?c4") using rh by (simp add: mod_item_run r3)
  moreover have "mod_item cur (\<lambda>x. x\<lparr>next_item_idx := -1, prev_item_idx := h\<rparr>) ?c4 =
      Some (?c1\<lparr>cache_buffer := ?B5, lowest_idx := hd (as @ b # bs)\<rparr>)"
    using s(1) ch rh by (simp add: mod_item_run r3 nth_nat_update)
  moreover have swap: "c\<lparr>cache_buffer := B1, client_idx_to_cache_idx := ?m\<rparr> = ?c1\<lparr>cache_buffer := B1\<rparr>" by simp
  moreover have "vget B1 cur = Some (B1 ! nat cur)" using s(1) by (simp add: vget_in_range in_range_length [OF B1(2)])
  ultimately show ?thesis
    using hit B1(1) B3(1) it ch(3) top
    by (intro exI [of _ ?B5]) (simp add: fetch_item_def Let_def hit_cache_def swap)
qed

lemma fetch_item_hit:
  assumes "filepath_to_cache_idx c p = Some cur" "linked c (as @ cur # bs)"
    "\<not> outdated (itm c cur)" "item_buffer (itm c cur) \<noteq> []"
  obtains B where "fetch_item p cl t c =
      Some (hit_cache cur cl (as @ bs @ [cur]) B c, t\<lparr>using_file := True\<rparr>, hit_item cur c)"
    "hit_result as cur bs c B"
  using assms fetch_item_hit_top [of c p cur as cl t] fetch_item_hit_inner [of c p cur as _ _ cl t]
  by (cases bs) force+

lemma hit_linked:
  assumes "linked c (as @ cur # bs)" "hit_result as cur bs c B"
  shows "linked (hit_cache cur cl (as @ bs @ [cur]) B c) (as @ bs @ [cur])"
  using assms in_range_length [of B "cache_buffer c"]
  by (auto simp: linked_def hit_result_def hit_cache_def hd_append)

text \<open>Linking in an item.\<close>

lemma place_item_linked:
  assumes l: "distinct xs" "\<And>i. i \<in> set xs \<Longrightarrow> in_range (cache_buffer c) i"
      "dll (nx (cache_buffer c)) (pv (cache_buffer c)) (-1) xs (-1)" "highest_idx c = last (-1 # xs)"
    and cur: "in_range (cache_buffer c) cur" "cur \<notin> set xs"
  obtains B where "place_item wd path buff cur c =
      Some (c\<lparr>filepath_to_cache_idx := (filepath_to_cache_idx c)(path \<mapsto> cur),
               cache_idx_to_filepath := (cache_idx_to_filepath c)(cur \<mapsto> path),
               watch_to_cache_idx := (watch_to_cache_idx c)(wd \<mapsto> cur),
               kernel_watches := (if wd = -1 then kernel_watches c else insert wd (kernel_watches c)),
               cache_buffer := B, highest_idx := cur\<rparr>)"
    "length B = length (cache_buffer c)"
    "dll (nx B) (pv B) (-1) (xs @ [cur]) (-1)"
    "\<And>j. in_range (cache_buffer c) j \<Longrightarrow> j \<noteq> cur \<Longrightarrow> same_content (B ! nat j) (itm c j)"
    "same_content (B ! nat cur) ((itm c cur)\<lparr>watch := wd, item_buffer := buff\<rparr>)"
    "\<And>j. in_range (cache_buffer c) j \<Longrightarrow> j \<notin> set (xs @ [cur]) \<Longrightarrow> B ! nat j = itm c j"
proof -
  define h where "h = last (-1 # xs)"
  have rh: "xs \<noteq> [] \<Longrightarrow> in_range (cache_buffer c) h \<and> h \<noteq> -1 \<and> h \<noteq> cur \<and> h \<in> set xs"
    using l(2) last_in_set [of xs] cur(2) in_range_not_minus_one [of "cache_buffer c" "last xs"]
    by (auto simp: h_def)
  have e: "xs = [] \<Longrightarrow> h = -1" by (simp add: h_def)
  define B1 where "B1 = (if xs = [] then cache_buffer c
    else (cache_buffer c)[nat h := (itm c h)\<lparr>next_item_idx := cur\<rparr>])"
  define B where "B = B1[nat cur := (B1 ! nat cur)\<lparr>watch := wd, prev_item_idx := h,
    next_item_idx := -1, item_buffer := buff\<rparr>]"
  have B1: "length B1 = length (cache_buffer c)"
    "\<And>j. in_range (cache_buffer c) j \<Longrightarrow> B1 ! nat j =
       (if xs \<noteq> [] \<and> j = h then (itm c h)\<lparr>next_item_idx := cur\<rparr> else itm c j)"
    using rh by (auto simp: B1_def nth_nat_update)
  have r1: "in_range B1 i = in_range (cache_buffer c) i" for i by (rule in_range_length [OF B1(1)])
  have items: "B ! nat j = (if j = cur then (itm c cur)\<lparr>watch := wd, prev_item_idx := h,
      next_item_idx := -1, item_buffer := buff\<rparr>
      else if xs \<noteq> [] \<and> j = h then (itm c h)\<lparr>next_item_idx := cur\<rparr> else itm c j)"
    if "in_range (cache_buffer c) j" for j
    using that cur rh B1(2) by (auto simp: B_def nth_nat_update r1)
  let ?nx = "(if xs = [] then nx (cache_buffer c) else (nx (cache_buffer c))(h := cur))(cur := -1)"
  let ?pv = "(pv (cache_buffer c))(cur := h)"
  have "dll ?nx ?pv (-1) (xs @ [cur]) (-1)"
    using dll_push [OF l(3) cur(2) l(1), of "-1"] by (simp add: h_def split: if_splits del: fun_upd_apply)
  then have d: "dll (nx B) (pv B) (-1) (xs @ [cur]) (-1)"
    by (intro dll_frame_items [where nx' = ?nx and pv' = ?pv]) (use items l(2) cur in auto)
  have run: "place_item wd path buff cur c =
      Some (c\<lparr>filepath_to_cache_idx := (filepath_to_cache_idx c)(path \<mapsto> cur),
               cache_idx_to_filepath := (cache_idx_to_filepath c)(cur \<mapsto> path),
               watch_to_cache_idx := (watch_to_cache_idx c)(wd \<mapsto> cur),
               kernel_watches := (if wd = -1 then kernel_watches c else insert wd (kernel_watches c)),
               cache_buffer := B, highest_idx := cur\<rparr>)"
  proof -
    have h: "highest_idx c = h" using l(4) by (simp add: h_def)
    show ?thesis using cur(1) rh e
      by (cases "xs = []") (simp_all add: place_item_def mod_item_run Let_def B_def B1_def h nth_nat_update)
  qed
  have keep: "same_content (B ! nat j) (itm c j)" if "in_range (cache_buffer c) j" "j \<noteq> cur" for j
    using items [OF that(1)] that(2) by (auto simp: same_content_def)
  have new: "same_content (B ! nat cur) ((itm c cur)\<lparr>watch := wd, item_buffer := buff\<rparr>)"
    using items [OF cur(1)] by (auto simp: same_content_def)
  have rest: "B ! nat j = itm c j" if "in_range (cache_buffer c) j" "j \<notin> set (xs @ [cur])" for j
    using items [OF that(1)] that(2) rh by auto
  show thesis by (rule that [OF run _ d keep new rest]) (simp_all add: B_def B1)
qed

text \<open>Taking the lowest item out of the list.\<close>

lemma take_lowest_linked:
  assumes l: "linked c (low # b # bs)" and unlocked: "lock_number (itm c low) = 0"
    and path: "cache_idx_to_filepath c low = Some p"
  obtains B where "take_lowest c =
      Some (c\<lparr>kernel_watches := kernel_watches c - {watch (itm c low)},
               watch_to_cache_idx := (watch_to_cache_idx c)(watch (itm c low) := None),
               cache_buffer := B,
               filepath_to_cache_idx := (filepath_to_cache_idx c)(p := None),
               cache_idx_to_filepath := (cache_idx_to_filepath c)(low := None),
               lowest_idx := b\<rparr>, low)"
    "length B = length (cache_buffer c)"
    "dll (nx B) (pv B) (-1) (b # bs) (-1)"
    "\<And>j. in_range (cache_buffer c) j \<Longrightarrow> j \<noteq> low \<Longrightarrow> same_content (B ! nat j) (itm c j)"
    "B ! nat low = new_cache_item"
    "\<And>j. in_range (cache_buffer c) j \<Longrightarrow> j \<notin> set (low # b # bs) \<Longrightarrow> B ! nat j = itm c j"
proof -
  have "linked c ([] @ low # b # bs)" using l by simp
  note s = linked_split [OF this]
  have rb: "in_range (cache_buffer c) b" "b \<noteq> low" using s(3,7) by auto
  define B where "B = (cache_buffer c)[nat b := (itm c b)\<lparr>prev_item_idx := -1\<rparr>, nat low := new_cache_item]"
  have items: "B ! nat j = (if j = low then new_cache_item
      else if j = b then (itm c b)\<lparr>prev_item_idx := -1\<rparr> else itm c j)"
    if "in_range (cache_buffer c) j" for j
    using that s(1) rb by (auto simp: B_def nth_nat_update)
  have "dll (nx (cache_buffer c)) ((pv (cache_buffer c))(b := -1)) (-1) (b # bs) (-1)"
    by (rule dll_pop [where c = low]) (use s(6,7) in simp_all)
  then have d: "dll (nx B) (pv B) (-1) (b # bs) (-1)"
    by (rule dll_frame_items [rotated]) (use items s(3,7) in auto)
  have low: "lowest_idx c = low" "next_item_idx (itm c low) = b" using s(4,9) by simp_all
  have run: "take_lowest c =
      Some (c\<lparr>kernel_watches := kernel_watches c - {watch (itm c low)},
               watch_to_cache_idx := (watch_to_cache_idx c)(watch (itm c low) := None),
               cache_buffer := B,
               filepath_to_cache_idx := (filepath_to_cache_idx c)(p := None),
               cache_idx_to_filepath := (cache_idx_to_filepath c)(low := None),
               lowest_idx := b\<rparr>, low)"
    using s(1) rb unlocked path
    by (simp add: take_lowest_def low vget_in_range mod_item_run Let_def B_def)
  show thesis
    by (rule that [OF run _ d]) (use items s(1) in \<open>auto simp: B_def same_content_def\<close>)
qed

text \<open>Changing an item without its links.\<close>

lemma linked_content:
  assumes l: "linked c xs" and i: "in_range (cache_buffer c) i"
    and keep: "next_item_idx v = next_item_idx (itm c i)" "prev_item_idx v = prev_item_idx (itm c i)"
  shows "linked (c\<lparr>cache_buffer := (cache_buffer c)[nat i := v]\<rparr>) xs"
proof -
  let ?B = "(cache_buffer c)[nat i := v]"
  have "dll (nx ?B) (pv ?B) (-1) xs (-1)"
    by (rule dll_frame_items [where nx' = "nx (cache_buffer c)" and pv' = "pv (cache_buffer c)"])
      (use l i keep in \<open>auto simp: linked_def nth_nat_update\<close>)
  then show ?thesis using l by (simp add: linked_def)
qed

end
