(* ===== verification/Web_Cache_Lru.thy ===== *)
theory Web_Cache_Lru
  imports Web_Cache_Links
begin

text \<open>
  The cache is a least-recently-used store. \<open>lru\<close> is the abstract store: the entries in
  order of use, the paths whose file has been modified, and the path each client is using. The
  relation \<open>cache_sim\<close> says that the linked list of the cache holds these entries in
  this order, that the maps agree with it, and that the lock number of an item is the number of
  clients using it. Every operation of \<open>Web_Cache\<close> simulates the abstract one.
\<close>

section \<open>The abstract store\<close>

record lru =
  lru_entries :: "(string \<times> bytes) list"
  lru_stale :: "string set"
  lru_holder :: "int \<rightharpoonup> string"
  lru_watch :: "int \<rightharpoonup> string"

definition lru_empty :: lru where
  "lru_empty = \<lparr>lru_entries = [], lru_stale = {}, lru_holder = (\<lambda>_. None), lru_watch = (\<lambda>_. None)\<rparr>"

text \<open>The clients that are using the file at \<open>p\<close>.\<close>

definition holders :: "lru \<Rightarrow> string \<Rightarrow> int set" where
  "holders l p = {cl. lru_holder l cl = Some p}"

datatype cache_op = Fetch string int | Put int int string bytes | Modified int | Finish int

datatype cache_out = Found bytes | Missing | Inserted bool | Done

text \<open>
  The abstract operations. Three uses of the cache are outside the specification: fetching a
  path whose file was modified, fetching for a client that already uses a file, and inserting a
  path that is present or a watch that is in use; there the result is \<open>None\<close>.
\<close>

fun lru_step :: "nat \<Rightarrow> cache_op \<Rightarrow> lru \<Rightarrow> (lru \<times> cache_out) option" where
  "lru_step N (Fetch p cl) l =
     (case map_of (lru_entries l) p of
        None \<Rightarrow> Some (l, Missing)
      | Some b \<Rightarrow>
          if p \<in> lru_stale l \<or> lru_holder l cl \<noteq> None then None
          else Some (l\<lparr>lru_entries := filter (\<lambda>e. fst e \<noteq> p) (lru_entries l) @ [(p, b)],
                        lru_holder := (lru_holder l)(cl \<mapsto> p)\<rparr>, Found b))"
| "lru_step N (Put cl wd p b) l =
     (if map_of (lru_entries l) p \<noteq> None \<or> lru_watch l wd \<noteq> None \<or> b = [] then None
      else if length (lru_entries l) < N then
        Some (l\<lparr>lru_entries := lru_entries l @ [(p, b)], lru_watch := (lru_watch l)(wd \<mapsto> p)\<rparr>,
              Inserted True)
      else let q = fst (hd (lru_entries l)) in
        if holders l q \<noteq> {} then Some (l, Inserted False)
        else Some (l\<lparr>lru_entries := tl (lru_entries l) @ [(p, b)],
                      lru_stale := lru_stale l - {q},
                      lru_watch := (\<lambda>w. if lru_watch l w = Some q then None else lru_watch l w)(wd \<mapsto> p)\<rparr>,
                   Inserted True))"
| "lru_step N (Modified wd) l =
     (case lru_watch l wd of None \<Rightarrow> Some (l, Done)
      | Some p \<Rightarrow> Some (l\<lparr>lru_stale := insert p (lru_stale l)\<rparr>, Done))"
| "lru_step N (Finish cl) l = Some (l\<lparr>lru_holder := (lru_holder l)(cl := None)\<rparr>, Done)"

fun lru_run :: "nat \<Rightarrow> cache_op list \<Rightarrow> lru \<Rightarrow> (lru \<times> cache_out list) option" where
  "lru_run N [] l = Some (l, [])"
| "lru_run N (op # ops) l = do {
     (l, r) \<leftarrow> lru_step N op l;
     (l, rs) \<leftarrow> lru_run N ops l;
     Some (l, r # rs)
   }"

text \<open>The same operations on the cache and the clients' data.\<close>

fun cache_step ::
    "uorder \<Rightarrow> cache_op \<Rightarrow> cache \<times> (int \<Rightarrow> tcp_client) \<Rightarrow> ((cache \<times> (int \<Rightarrow> tcp_client)) \<times> cache_out) option"
  where
  "cache_step ord (Fetch p cl) (c, tc) = do {
     (c, t, r) \<leftarrow> fetch_item p cl (tc cl) c;
     Some ((c, tc(cl := t)),
           if found r then Found (take (nat (fetch_size r)) (ptr_bytes (fetch_buff r))) else Missing)
   }"
| "cache_step ord (Put cl wd p b) (c, tc) = do {
     (c, ok) \<leftarrow> try_insert_item ord wd cl p b c;
     Some ((c, tc), Inserted ok)
   }"
| "cache_step ord (Modified wd) (c, tc) = do {
     c \<leftarrow> inotify_event_handler wd c;
     Some ((c, tc), Done)
   }"
| "cache_step ord (Finish cl) (c, tc) = do {
     (c, t) \<leftarrow> finished_with_item cl (tc cl) c;
     Some ((c, tc(cl := t)), Done)
   }"

fun cache_run ::
    "uorder \<Rightarrow> cache_op list \<Rightarrow> cache \<times> (int \<Rightarrow> tcp_client) \<Rightarrow>
      ((cache \<times> (int \<Rightarrow> tcp_client)) \<times> cache_out list) option"
  where
  "cache_run ord [] s = Some (s, [])"
| "cache_run ord (op # ops) s = do {
     (s, r) \<leftarrow> cache_step ord op s;
     (s, rs) \<leftarrow> cache_run ord ops s;
     Some (s, r # rs)
   }"

section \<open>The simulation relation\<close>

abbreviation path_of :: "cache \<Rightarrow> int \<Rightarrow> string" where
  "path_of c i \<equiv> the (cache_idx_to_filepath c i)"

definition sim_entries :: "nat \<Rightarrow> cache \<Rightarrow> lru \<Rightarrow> int list \<Rightarrow> bool" where
  "sim_entries N c l xs \<longleftrightarrow>
     length (cache_buffer c) = N \<and> linked c xs \<and> cache_free_idxs c = {0..<int N} - set xs \<and>
     lru_entries l = map (\<lambda>i. (path_of c i, item_buffer (itm c i))) xs \<and>
     inj_on (path_of c) (set xs) \<and>
     (\<forall>i\<in>set xs. cache_idx_to_filepath c i \<noteq> None) \<and>
     (\<forall>p i. filepath_to_cache_idx c p = Some i \<longleftrightarrow> i \<in> set xs \<and> cache_idx_to_filepath c i = Some p)"

definition sim_items :: "cache \<Rightarrow> lru \<Rightarrow> int list \<Rightarrow> bool" where
  "sim_items c l xs \<longleftrightarrow>
     (\<forall>i. in_range (cache_buffer c) i \<longrightarrow>
        (if i \<in> set xs then item_buffer (itm c i) \<noteq> [] \<and>
           outdated (itm c i) = (path_of c i \<in> lru_stale l) \<and>
           lock_number (itm c i) = int (card (holders l (path_of c i)))
         else itm c i = new_cache_item)) \<and>
     lru_stale l \<subseteq> path_of c ` set xs"

definition sim_watches :: "cache \<Rightarrow> lru \<Rightarrow> int list \<Rightarrow> bool" where
  "sim_watches c l xs \<longleftrightarrow>
     (\<forall>w i. watch_to_cache_idx c w = Some i \<longleftrightarrow> i \<in> set xs \<and> watch (itm c i) = w) \<and>
     (\<forall>w. lru_watch l w = map_option (path_of c) (watch_to_cache_idx c w))"

definition sim_clients :: "cache \<Rightarrow> (int \<Rightarrow> tcp_client) \<Rightarrow> lru \<Rightarrow> bool" where
  "sim_clients c tc l \<longleftrightarrow> finite (dom (lru_holder l)) \<and>
     (\<forall>cl. using_file (tc cl) \<longleftrightarrow> lru_holder l cl \<noteq> None) \<and>
     (\<forall>cl p. lru_holder l cl = Some p \<longrightarrow>
        (\<exists>i. filepath_to_cache_idx c p = Some i \<and> client_idx_to_cache_idx c cl = Some i))"

definition cache_sim :: "nat \<Rightarrow> cache \<times> (int \<Rightarrow> tcp_client) \<Rightarrow> lru \<Rightarrow> bool" where
  "cache_sim N s l \<longleftrightarrow>
     (\<exists>xs. sim_entries N (fst s) l xs \<and> sim_items (fst s) l xs \<and> sim_watches (fst s) l xs \<and>
        sim_clients (fst s) (snd s) l)"

text \<open>Facts about the relation that the simulations share.\<close>

lemma sim_lookup:
  assumes "sim_entries N c l xs"
  shows "map_of (lru_entries l) p = map_option (\<lambda>i. item_buffer (itm c i)) (filepath_to_cache_idx c p)"
proof (cases "filepath_to_cache_idx c p")
  case None
  then have "p \<notin> fst ` set (lru_entries l)"
    using assms by (auto simp: sim_entries_def) (metis option.exhaust_sel option.distinct(1))
  then show ?thesis using None by (simp add: map_of_eq_None_iff)
next
  case (Some i)
  then have i: "i \<in> set xs" "path_of c i = p" using assms by (auto simp: sim_entries_def)
  have "distinct (map fst (lru_entries l))"
    using assms by (auto simp: sim_entries_def linked_def distinct_map comp_def)
  moreover have "(p, item_buffer (itm c i)) \<in> set (lru_entries l)"
    using assms i by (auto simp: sim_entries_def)
  ultimately show ?thesis using Some by simp
qed

lemma sim_maps:
  "sim_entries N c l xs \<Longrightarrow>
     filepath_to_cache_idx c p = Some i \<longleftrightarrow> i \<in> set xs \<and> cache_idx_to_filepath c i = Some p"
  unfolding sim_entries_def by blast

lemma sim_path_defined: "sim_entries N c l xs \<Longrightarrow> i \<in> set xs \<Longrightarrow> \<exists>p. cache_idx_to_filepath c i = Some p"
  by (auto simp: sim_entries_def)

lemma sim_holder:
  "sim_clients c tc l \<Longrightarrow> lru_holder l cl = Some p \<Longrightarrow>
     \<exists>i. filepath_to_cache_idx c p = Some i \<and> client_idx_to_cache_idx c cl = Some i"
  unfolding sim_clients_def by blast

lemma sim_watch:
  assumes "sim_watches c l xs"
  shows "watch_to_cache_idx c w = Some i \<longleftrightarrow> i \<in> set xs \<and> watch (itm c i) = w"
    "lru_watch l w = map_option (path_of c) (watch_to_cache_idx c w)"
  using assms unfolding sim_watches_def by blast+

lemma sim_path_inj:
  "sim_entries N c l xs \<Longrightarrow> i \<in> set xs \<Longrightarrow> j \<in> set xs \<Longrightarrow> path_of c i = path_of c j \<longleftrightarrow> i = j"
  by (auto simp: sim_entries_def inj_on_def)

lemma sim_filter:
  assumes s: "sim_entries N c l (as @ cur # bs)"
  shows "filter (\<lambda>e. fst e \<noteq> path_of c cur) (lru_entries l) =
    map (\<lambda>i. (path_of c i, item_buffer (itm c i))) (as @ bs)"
proof -
  have "distinct (as @ cur # bs)" using s by (simp add: sim_entries_def linked_def)
  then have "\<And>i. i \<in> set (as @ bs) \<Longrightarrow> path_of c i \<noteq> path_of c cur"
    using sim_path_inj [OF s] by auto
  then show ?thesis using s by (simp add: sim_entries_def filter_map comp_def)
qed

lemma finite_holders: "finite (dom (lru_holder l)) \<Longrightarrow> finite (holders l q)"
  by (rule finite_subset [of _ "dom (lru_holder l)"]) (auto simp: holders_def)

lemma card_holders_insert:
  assumes "finite (dom (lru_holder l))" "lru_holder l cl = None"
  shows "card (holders (l\<lparr>lru_holder := (lru_holder l)(cl \<mapsto> p)\<rparr>) q) =
    card (holders l q) + (if q = p then 1 else 0)"
proof -
  note fin = finite_holders [OF assms(1), of q]
  have "holders (l\<lparr>lru_holder := (lru_holder l)(cl \<mapsto> p)\<rparr>) q =
      (if q = p then insert cl (holders l q) else holders l q)" "cl \<notin> holders l q"
    using assms(2) by (auto simp: holders_def)
  then show ?thesis using fin by (cases "q = p") auto
qed

lemma fetch_sim:
  assumes s: "sim_entries N c l xs" "sim_items c l xs" "sim_watches c l xs" "sim_clients c tc l"
    and st: "lru_step N (Fetch p cl) l = Some (l', r)"
  shows "\<exists>s'. cache_step ord (Fetch p cl) (c, tc) = Some (s', r) \<and> cache_sim N s' l'"
proof (cases "filepath_to_cache_idx c p")
  case None
  then have "map_of (lru_entries l) p = None" using sim_lookup [OF s(1)] by simp
  then show ?thesis using st s None by (auto simp: fetch_item_def not_found_def cache_sim_def)
next
  case (Some cur)
  then have cur: "cur \<in> set xs" "cache_idx_to_filepath c cur = Some p"
    using s(1) by (auto simp: sim_entries_def)
  then obtain as bs where xs: "xs = as @ cur # bs" by (meson split_list)
  have lk: "linked c (as @ cur # bs)" using s(1) xs by (simp add: sim_entries_def)
  have rc: "in_range (cache_buffer c) cur" using linked_split(1) [OF lk] .
  let ?b = "item_buffer (itm c cur)"
  have m: "map_of (lru_entries l) p = Some ?b" using sim_lookup [OF s(1)] Some by simp
  then have ok: "p \<notin> lru_stale l" "lru_holder l cl = None" "r = Found ?b"
    and l': "l' = l\<lparr>lru_entries := filter (\<lambda>e. fst e \<noteq> p) (lru_entries l) @ [(p, ?b)],
                  lru_holder := (lru_holder l)(cl \<mapsto> p)\<rparr>"
    using st by (auto split: if_splits)
  have it: "\<not> outdated (itm c cur)" "?b \<noteq> []" using s(2) cur rc ok(1) by (auto simp: sim_items_def)
  obtain B where f: "fetch_item p cl (tc cl) c =
      Some (hit_cache cur cl (as @ bs @ [cur]) B c, (tc cl)\<lparr>using_file := True\<rparr>, hit_item cur c)"
    and B: "hit_result as cur bs c B"
    by (rule fetch_item_hit [OF Some lk it])
  let ?c = "hit_cache cur cl (as @ bs @ [cur]) B c"
  let ?xs = "as @ bs @ [cur]"
  have len: "length B = length (cache_buffer c)" using B by (simp add: hit_result_def)
  have r: "in_range B i = in_range (cache_buffer c) i" for i by (rule in_range_length [OF len])
  have sc: "in_range (cache_buffer c) i \<Longrightarrow> same_content (B ! nat i) (locked_item cur c i)" for i
    using B by (simp add: hit_result_def)
  have buf: "item_buffer (B ! nat i) = item_buffer (itm c i)" "outdated (B ! nat i) = outdated (itm c i)"
    "watch (B ! nat i) = watch (itm c i)"
    "lock_number (B ! nat i) = lock_number (itm c i) + (if i = cur then 1 else 0)"
    if "in_range (cache_buffer c) i" for i
    using sc [OF that] by (auto simp: same_content_def locked_item_def)
  have inr: "\<And>i. i \<in> set xs \<Longrightarrow> in_range (cache_buffer c) i" using linked_in_range [OF lk] xs by simp
  have set: "set ?xs = set xs" using xs by auto
  have p: "path_of c cur = p" using cur by simp
  have fields: "cache_buffer ?c = B" "cache_free_idxs ?c = cache_free_idxs c"
    "cache_idx_to_filepath ?c = cache_idx_to_filepath c" "filepath_to_cache_idx ?c = filepath_to_cache_idx c"
    "watch_to_cache_idx ?c = watch_to_cache_idx c"
    "client_idx_to_cache_idx ?c = (client_idx_to_cache_idx c)(cl \<mapsto> cur)"
    by (simp_all add: hit_cache_def)
  have "lru_entries l' = map (\<lambda>i. (path_of c i, item_buffer (B ! nat i))) ?xs"
    using sim_filter [of N c l as cur bs] s(1) xs l' p buf(1) inr by simp
  then have 1: "sim_entries N ?c l' ?xs"
    using s(1) hit_linked [OF lk B, of cl] set len unfolding sim_entries_def fields set by simp
  have 2: "sim_items ?c l' ?xs"
    unfolding sim_items_def fields set
  proof (intro conjI allI impI)
    fix i assume i: "in_range B i"
    then have i': "in_range (cache_buffer c) i" by (simp add: r)
    have card: "card (holders l' q) = card (holders l q) + (if q = p then 1 else 0)" for q
      using card_holders_insert [of l cl p q] s(4) ok(2) l'
      by (simp add: sim_clients_def holders_def)
    have "B ! nat i = itm c i" if "i \<notin> set xs" using B i' that xs by (simp add: hit_result_def)
    moreover have "path_of c i = p \<longleftrightarrow> i = cur" if "i \<in> set xs" using sim_path_inj [OF s(1) that cur(1)] p by simp
    ultimately show "if i \<in> set xs then item_buffer (B ! nat i) \<noteq> [] \<and>
          outdated (B ! nat i) = (path_of c i \<in> lru_stale l') \<and>
          lock_number (B ! nat i) = int (card (holders l' (path_of c i)))
        else B ! nat i = new_cache_item"
      using s(2) i' buf [OF i'] card l' by (auto simp: sim_items_def)
  qed (use s(2) l' in \<open>auto simp: sim_items_def\<close>)
  have 3: "sim_watches ?c l' ?xs"
    using s(3) inr buf(3) l' unfolding sim_watches_def fields set by auto
  have 4: "sim_clients ?c (tc(cl := (tc cl)\<lparr>using_file := True\<rparr>)) l'"
    using s(4) Some l' unfolding sim_clients_def fields by auto
  show ?thesis using 1 2 3 4 f ok(3) by (auto simp: cache_sim_def hit_item_def)
qed

lemma modified_sim:
  assumes s: "sim_entries N c l xs" "sim_items c l xs" "sim_watches c l xs" "sim_clients c tc l"
    and small: "int N < 2 ^ 64"
    and st: "lru_step N (Modified wd) l = Some (l', r)"
  shows "\<exists>s'. cache_step ord (Modified wd) (c, tc) = Some (s', r) \<and> cache_sim N s' l'"
proof (cases "watch_to_cache_idx c wd")
  case None
  then have "lru_watch l wd = None" using s(3) by (simp add: sim_watches_def)
  then show ?thesis using st s None by (auto simp: inotify_event_handler_def cache_sim_def)
next
  case (Some i)
  then have i: "i \<in> set xs" using s(3) by (simp add: sim_watches_def)
  have lk: "linked c xs" and len: "length (cache_buffer c) = N" using s(1) by (auto simp: sim_entries_def)
  have ri: "in_range (cache_buffer c) i" using linked_in_range [OF lk i] .
  have l': "l' = l\<lparr>lru_stale := insert (path_of c i) (lru_stale l)\<rparr>" "r = Done"
  proof -
    have "lru_watch l wd = map_option (path_of c) (watch_to_cache_idx c wd)"
      using s(3) unfolding sim_watches_def by blast
    then have "lru_watch l wd = Some (path_of c i)" using Some by simp
    then show "l' = l\<lparr>lru_stale := insert (path_of c i) (lru_stale l)\<rparr>" "r = Done" using st by auto
  qed
  let ?B = "(cache_buffer c)[nat i := (itm c i)\<lparr>outdated := True\<rparr>]"
  let ?c = "c\<lparr>cache_buffer := ?B\<rparr>"
  have buf: "?B ! nat j = (if j = i then (itm c i)\<lparr>outdated := True\<rparr> else itm c j)"
    if "in_range (cache_buffer c) j" for j using that ri by (auto simp: nth_nat_update)
  have inr: "\<And>j. j \<in> set xs \<Longrightarrow> in_range (cache_buffer c) j" using linked_in_range [OF lk] .
  have run: "inotify_event_handler wd c = Some ?c"
    using Some ri small len by (simp add: inotify_event_handler_def mod_item_run u64_small in_range_def)
  have "linked ?c xs" by (rule linked_content [OF lk ri]) simp_all
  moreover have "map (\<lambda>j. (path_of c j, item_buffer (itm c j))) xs = map (\<lambda>j. (path_of c j, item_buffer (?B ! nat j))) xs"
    using buf inr by auto
  ultimately have 1: "sim_entries N ?c l' xs" using s(1) l'(1) by (simp add: sim_entries_def)
  have 2: "sim_items ?c l' xs"
    using s(2) buf sim_path_inj [OF s(1) _ i] l'(1) i by (auto simp: sim_items_def holders_def)
  have 3: "sim_watches ?c l' xs" using s(3) buf inr l'(1) by (auto simp: sim_watches_def)
  have 4: "sim_clients ?c tc l'" using s(4) l'(1) by (simp add: sim_clients_def)
  show ?thesis using run 1 2 3 4 l'(2) by (auto simp: cache_sim_def)
qed

lemma finish_sim:
  assumes s: "sim_entries N c l xs" "sim_items c l xs" "sim_watches c l xs" "sim_clients c tc l"
    and st: "lru_step N (Finish cl) l = Some (l', r)"
  shows "\<exists>s'. cache_step ord (Finish cl) (c, tc) = Some (s', r) \<and> cache_sim N s' l'"
proof (cases "lru_holder l cl")
  case None
  then have "\<not> using_file (tc cl)" "l' = l" "r = Done" using s(4) st by (auto simp: sim_clients_def fun_upd_idem)
  then show ?thesis using s by (auto simp: finished_with_item_def cache_sim_def)
next
  case (Some p)
  then obtain i where i: "filepath_to_cache_idx c p = Some i" "client_idx_to_cache_idx c cl = Some i"
    using s(4) unfolding sim_clients_def by blast
  have u: "using_file (tc cl)" using s(4) Some by (simp add: sim_clients_def)
  have ix: "i \<in> set xs" "path_of c i = p" using i s(1) by (auto simp: sim_entries_def)
  have lk: "linked c xs" using s(1) by (auto simp: sim_entries_def)
  have ri: "in_range (cache_buffer c) i" using linked_in_range [OF lk ix(1)] .
  have l': "l' = l\<lparr>lru_holder := (lru_holder l)(cl := None)\<rparr>" "r = Done" using st by auto
  let ?B = "(cache_buffer c)[nat i := (itm c i)\<lparr>lock_number := lock_number (itm c i) - 1\<rparr>]"
  let ?c = "c\<lparr>cache_buffer := ?B\<rparr>"
  have buf: "?B ! nat j = (if j = i then (itm c i)\<lparr>lock_number := lock_number (itm c i) - 1\<rparr> else itm c j)"
    if "in_range (cache_buffer c) j" for j using that ri by (auto simp: nth_nat_update)
  have inr: "\<And>j. j \<in> set xs \<Longrightarrow> in_range (cache_buffer c) j" using linked_in_range [OF lk] .
  have idem: "(client_idx_to_cache_idx c)(cl \<mapsto> i) = client_idx_to_cache_idx c" using i by (simp add: fun_upd_idem)
  have run: "finished_with_item cl (tc cl) c = Some (?c, (tc cl)\<lparr>using_file := False\<rparr>)"
    using u i ri by (simp add: finished_with_item_def Let_def mod_item_run idem)
  have card: "int (card (holders l' q)) = int (card (holders l q)) - (if q = p then 1 else 0)" for q
    using card_holders_insert [of l' cl p q] s(4) l' Some
    by (simp add: sim_clients_def holders_def fun_upd_idem split: if_splits)
  have "linked ?c xs" by (rule linked_content [OF lk ri]) simp_all
  moreover have "map (\<lambda>j. (path_of c j, item_buffer (itm c j))) xs = map (\<lambda>j. (path_of c j, item_buffer (?B ! nat j))) xs"
    using buf inr by auto
  ultimately have 1: "sim_entries N ?c l' xs" using s(1) l'(1) by (simp add: sim_entries_def)
  have 2: "sim_items ?c l' xs"
    using s(2) buf sim_path_inj [OF s(1) _ ix(1)] l'(1) ix card by (auto simp: sim_items_def)
  have 3: "sim_watches ?c l' xs" using s(3) buf inr l'(1) by (auto simp: sim_watches_def)
  have 4: "sim_clients ?c (tc(cl := (tc cl)\<lparr>using_file := False\<rparr>)) l'" using s(4) l'(1) by (simp add: sim_clients_def)
  show ?thesis using run 1 2 3 4 l'(2) by (auto simp: cache_sim_def)
qed

text \<open>Placing a new entry, and evicting the least recently used one.\<close>

lemma place_sim:
  assumes s: "sim_entries N c l xs" "sim_items c l xs" "sim_watches c l xs" "sim_clients c tc l"
    and cur: "cur \<in> cache_free_idxs c" and p: "filepath_to_cache_idx c p = None"
    and wd: "watch_to_cache_idx c wd = None" and b: "b \<noteq> []"
    and c0: "c0 = c\<lparr>cache_free_idxs := cache_free_idxs c - {cur}, lowest_idx := hd (xs @ [cur])\<rparr>"
  shows "\<exists>c'. place_item wd p b cur c0 = Some c' \<and>
    cache_sim N (c', tc) (l\<lparr>lru_entries := lru_entries l @ [(p, b)], lru_watch := (lru_watch l)(wd \<mapsto> p)\<rparr>)"
proof -
  have lk: "linked c xs" and len: "length (cache_buffer c) = N"
    and free: "cache_free_idxs c = {0..<int N} - set xs" using s(1) by (auto simp: sim_entries_def)
  have rc: "in_range (cache_buffer c) cur" "cur \<notin> set xs" using cur free len by (auto simp: in_range_def)
  have new: "itm c cur = new_cache_item" using s(2) rc by (auto simp: sim_items_def)
  have inr: "\<And>j. j \<in> set xs \<Longrightarrow> in_range (cache_buffer c) j" using linked_in_range [OF lk] .
  obtain B where run: "place_item wd p b cur c0 =
      Some (c0\<lparr>filepath_to_cache_idx := (filepath_to_cache_idx c0)(p \<mapsto> cur),
               cache_idx_to_filepath := (cache_idx_to_filepath c0)(cur \<mapsto> p),
               watch_to_cache_idx := (watch_to_cache_idx c0)(wd \<mapsto> cur),
               kernel_watches := (if wd = -1 then kernel_watches c0 else insert wd (kernel_watches c0)),
               cache_buffer := B, highest_idx := cur\<rparr>)" (is "_ = Some ?c")
    and B: "length B = length (cache_buffer c0)" "dll (nx B) (pv B) (-1) (xs @ [cur]) (-1)"
    "\<And>j. in_range (cache_buffer c0) j \<Longrightarrow> j \<noteq> cur \<Longrightarrow> same_content (B ! nat j) (itm c0 j)"
    "same_content (B ! nat cur) ((itm c0 cur)\<lparr>watch := wd, item_buffer := b\<rparr>)"
    "\<And>j. in_range (cache_buffer c0) j \<Longrightarrow> j \<notin> set (xs @ [cur]) \<Longrightarrow> B ! nat j = itm c0 j"
  proof (rule place_item_linked)
    show "distinct xs" "dll (nx (cache_buffer c0)) (pv (cache_buffer c0)) (-1) xs (-1)"
      "highest_idx c0 = last (-1 # xs)" "in_range (cache_buffer c0) cur" "cur \<notin> set xs"
      "\<And>i. i \<in> set xs \<Longrightarrow> in_range (cache_buffer c0) i"
      using lk rc inr c0 by (simp_all add: linked_def)
  qed (rule that)
  let ?l = "l\<lparr>lru_entries := lru_entries l @ [(p, b)], lru_watch := (lru_watch l)(wd \<mapsto> p)\<rparr>"
  let ?xs = "xs @ [cur]"
  have fields: "cache_buffer ?c = B" "cache_free_idxs ?c = cache_free_idxs c - {cur}"
    "cache_idx_to_filepath ?c = (cache_idx_to_filepath c)(cur \<mapsto> p)"
    "filepath_to_cache_idx ?c = (filepath_to_cache_idx c)(p \<mapsto> cur)"
    "watch_to_cache_idx ?c = (watch_to_cache_idx c)(wd \<mapsto> cur)"
    "client_idx_to_cache_idx ?c = client_idx_to_cache_idx c"
    "lowest_idx ?c = hd (xs @ [cur])" "highest_idx ?c = cur"
    by (simp_all add: c0)
  have len': "length B = length (cache_buffer c)" using B(1) c0 by simp
  have r: "in_range B i = in_range (cache_buffer c) i" for i by (rule in_range_length [OF len'])
  have keep: "item_buffer (B ! nat j) = item_buffer (itm c j)" "outdated (B ! nat j) = outdated (itm c j)"
    "lock_number (B ! nat j) = lock_number (itm c j)" "watch (B ! nat j) = watch (itm c j)"
    if "j \<in> set xs" for j
    using B(3) [of j] inr [OF that] that rc c0 by (auto simp: same_content_def)
  have at: "item_buffer (B ! nat cur) = b" "\<not> outdated (B ! nat cur)" "lock_number (B ! nat cur) = 0"
    "watch (B ! nat cur) = wd"
    using B(4) c0 new by (auto simp: same_content_def new_cache_item_def)
  have absent: "\<And>i. i \<in> set xs \<Longrightarrow> cache_idx_to_filepath c i \<noteq> Some p" "holders l p = {}" "p \<notin> lru_stale l"
  proof -
    show no: "cache_idx_to_filepath c i \<noteq> Some p" if "i \<in> set xs" for i
      using sim_maps [OF s(1), of p i] p that by simp
    show "holders l p = {}" using sim_holder [OF s(4)] p by (force simp: holders_def)
    show "p \<notin> lru_stale l"
    proof
      assume "p \<in> lru_stale l"
      then obtain i where i: "i \<in> set xs" "p = path_of c i" using s(2) by (auto simp: sim_items_def)
      then show False using no [OF i(1)] sim_path_defined [OF s(1) i(1)] by auto
    qed
  qed
  let ?f = "(cache_idx_to_filepath c)(cur \<mapsto> p)"
  have lk': "linked ?c ?xs"
    using lk B(2) rc(1) rc(2) inr unfolding linked_def fields by (simp add: hd_append r)
  have ent: "lru_entries ?l = map (\<lambda>i. (the (?f i), item_buffer (B ! nat i))) ?xs"
    using s(1) keep(1) at(1) rc(2) by (simp add: sim_entries_def)
  have inj: "inj_on (\<lambda>i. the (?f i)) (set ?xs)"
    using s(1) absent(1) rc by (auto simp: sim_entries_def inj_on_def)
  have maps: "((filepath_to_cache_idx c)(p \<mapsto> cur)) q = Some i \<longleftrightarrow> i \<in> set ?xs \<and> ?f i = Some q" for q i
    using sim_maps [OF s(1), of q i] absent(1) [of i] rc(2) by auto
  have def: "\<forall>i\<in>set ?xs. ?f i \<noteq> None" using s(1) by (auto simp: sim_entries_def)
  have fr: "cache_free_idxs c - {cur} = {0..<int N} - set ?xs" unfolding free by auto
  have 1: "sim_entries N ?c ?l ?xs"
    unfolding sim_entries_def fields
    by (intro conjI allI lk' ent inj maps def fr) (simp add: len' len)
  have 2: "sim_items ?c ?l ?xs"
    unfolding sim_items_def fields
  proof (intro conjI allI impI)
    fix i assume "in_range B i"
    then have i: "in_range (cache_buffer c) i" by (simp add: r)
    show "if i \<in> set ?xs then item_buffer (B ! nat i) \<noteq> [] \<and>
          outdated (B ! nat i) = (the (?f i) \<in> lru_stale ?l) \<and>
          lock_number (B ! nat i) = int (card (holders ?l (the (?f i))))
        else B ! nat i = new_cache_item"
    proof (cases "i = cur")
      case True
      then show ?thesis using at b absent(2,3) by (simp add: holders_def)
    next
      case False
      then show ?thesis
        using s(2) i keep [of i] B(5) [of i] c0 by (simp add: sim_items_def holders_def)
    qed
  next
    show "lru_stale ?l \<subseteq> (\<lambda>i. the (?f i)) ` set ?xs"
      using s(2) rc(2) by (fastforce simp: sim_items_def)
  qed
  have 3: "sim_watches ?c ?l ?xs"
    unfolding sim_watches_def fields
  proof (intro conjI allI)
    fix w i
    show "((watch_to_cache_idx c)(wd \<mapsto> cur)) w = Some i \<longleftrightarrow> i \<in> set ?xs \<and> watch (B ! nat i) = w"
      using sim_watch(1) [OF s(3), of w i] sim_watch(1) [OF s(3), of wd i] wd keep(4) [of i] at(4) rc(2) by auto
    show "lru_watch ?l w = map_option (\<lambda>i. the (?f i)) (((watch_to_cache_idx c)(wd \<mapsto> cur)) w)"
      using sim_watch(1) [OF s(3), of w cur] sim_watch(2) [OF s(3), of w] rc(2)
      by (cases "watch_to_cache_idx c w") auto
  qed
  have 4: "sim_clients ?c tc ?l"
    using s(4) sim_holder [OF s(4)] p unfolding sim_clients_def fields by force
  show ?thesis using run 1 2 3 4 by (auto simp: cache_sim_def)
qed

lemma evict_sim:
  assumes s: "sim_entries N c l (low # b # bs)" "sim_items c l (low # b # bs)"
      "sim_watches c l (low # b # bs)" "sim_clients c tc l"
    and unlocked: "holders l (path_of c low) = {}"
  obtains c' where "take_lowest c = Some (c', low)"
    "sim_entries N (c'\<lparr>cache_free_idxs := insert low (cache_free_idxs c)\<rparr>)
       (l\<lparr>lru_entries := tl (lru_entries l), lru_stale := lru_stale l - {path_of c low},
          lru_watch := (\<lambda>w. if lru_watch l w = Some (path_of c low) then None else lru_watch l w)\<rparr>) (b # bs)"
    "sim_items c' (l\<lparr>lru_stale := lru_stale l - {path_of c low}\<rparr>) (b # bs)"
    "sim_watches c'
       (l\<lparr>lru_watch := (\<lambda>w. if lru_watch l w = Some (path_of c low) then None else lru_watch l w)\<rparr>) (b # bs)"
    "sim_clients c' tc l" "cache_free_idxs c' = cache_free_idxs c" "lowest_idx c' = b"
    "\<And>q. filepath_to_cache_idx c' q = (if q = path_of c low then None else filepath_to_cache_idx c q)"
    "\<And>w. watch_to_cache_idx c w = None \<Longrightarrow> watch_to_cache_idx c' w = None"
proof -
  let ?xs = "low # b # bs"
  have lk: "linked c ?xs" and len: "length (cache_buffer c) = N"
    and free: "cache_free_idxs c = {0..<int N} - set ?xs" using s(1) by (auto simp: sim_entries_def)
  have dist: "low \<notin> set (b # bs)" using lk by (simp add: linked_def)
  have inr: "\<And>j. j \<in> set ?xs \<Longrightarrow> in_range (cache_buffer c) j" using linked_in_range [OF lk] .
  obtain q where q: "cache_idx_to_filepath c low = Some q" using s(1) by (auto simp: sim_entries_def)
  have "lock_number (itm c low) = int (card (holders l (path_of c low)))"
    using s(2) inr [of low] by (simp add: sim_items_def)
  then have "lock_number (itm c low) = 0" using unlocked by simp
  then obtain B where run: "take_lowest c =
      Some (c\<lparr>kernel_watches := kernel_watches c - {watch (itm c low)},
               watch_to_cache_idx := (watch_to_cache_idx c)(watch (itm c low) := None),
               cache_buffer := B,
               filepath_to_cache_idx := (filepath_to_cache_idx c)(q := None),
               cache_idx_to_filepath := (cache_idx_to_filepath c)(low := None),
               lowest_idx := b\<rparr>, low)" (is "_ = Some (?c, low)")
    and B: "length B = length (cache_buffer c)" "dll (nx B) (pv B) (-1) (b # bs) (-1)"
    "\<And>j. in_range (cache_buffer c) j \<Longrightarrow> j \<noteq> low \<Longrightarrow> same_content (B ! nat j) (itm c j)"
    "B ! nat low = new_cache_item"
    "\<And>j. in_range (cache_buffer c) j \<Longrightarrow> j \<notin> set ?xs \<Longrightarrow> B ! nat j = itm c j"
    by (rule take_lowest_linked [OF lk _ q]) (rule that)
  have r: "in_range B i = in_range (cache_buffer c) i" for i by (rule in_range_length [OF B(1)])
  have keep: "item_buffer (B ! nat j) = item_buffer (itm c j)" "outdated (B ! nat j) = outdated (itm c j)"
    "lock_number (B ! nat j) = lock_number (itm c j)" "watch (B ! nat j) = watch (itm c j)"
    if "j \<in> set (b # bs)" for j
  proof -
    have "in_range (cache_buffer c) j" "j \<noteq> low" using inr [of j] that dist by auto
    then show "item_buffer (B ! nat j) = item_buffer (itm c j)" "outdated (B ! nat j) = outdated (itm c j)"
      "lock_number (B ! nat j) = lock_number (itm c j)" "watch (B ! nat j) = watch (itm c j)"
      using B(3) [of j] by (simp_all add: same_content_def)
  qed
  have other: "path_of c j \<noteq> q" "j \<noteq> low" if "j \<in> set (b # bs)" for j
    using sim_path_inj [OF s(1), of j low] that dist q by auto
  have lk': "linked (?c\<lparr>cache_free_idxs := insert low (cache_free_idxs c)\<rparr>) (b # bs)"
    using lk B(2) inr by (simp add: linked_def r)
  have ent: "tl (lru_entries l) =
      map (\<lambda>i. (the (((cache_idx_to_filepath c)(low := None)) i), item_buffer (B ! nat i))) (b # bs)"
    using s(1) keep(1) dist by (auto simp: sim_entries_def)
  have inj: "inj_on (\<lambda>i. the (((cache_idx_to_filepath c)(low := None)) i)) (set (b # bs))"
    using s(1) dist by (auto simp: sim_entries_def inj_on_def)
  have maps: "((filepath_to_cache_idx c)(q := None)) p = Some i \<longleftrightarrow>
      i \<in> set (b # bs) \<and> ((cache_idx_to_filepath c)(low := None)) i = Some p" for p i
    using sim_maps [OF s(1), of p i] other [of i] q dist by auto
  have fr: "insert low (cache_free_idxs c) = {0..<int N} - set (b # bs)"
  proof -
    have "0 \<le> low" "low < int N" using inr [of low] len by (simp_all add: in_range_def)
    then show ?thesis unfolding free using dist by auto
  qed
  have def: "\<forall>i\<in>set (b # bs). ((cache_idx_to_filepath c)(low := None)) i \<noteq> None"
    using s(1) dist by (auto simp: sim_entries_def)
  let ?l1 = "l\<lparr>lru_entries := tl (lru_entries l), lru_stale := lru_stale l - {path_of c low},
    lru_watch := (\<lambda>w. if lru_watch l w = Some (path_of c low) then None else lru_watch l w)\<rparr>"
  have 1: "sim_entries N (?c\<lparr>cache_free_idxs := insert low (cache_free_idxs c)\<rparr>) ?l1 (b # bs)"
    unfolding sim_entries_def
    by (intro conjI allI lk') (use B(1) len ent inj maps fr def in simp_all)
  have 2: "sim_items ?c (l\<lparr>lru_stale := lru_stale l - {path_of c low}\<rparr>) (b # bs)"
    unfolding sim_items_def
  proof (intro conjI allI impI)
    fix i assume "in_range (cache_buffer ?c) i"
    then have i: "in_range (cache_buffer c) i" by (simp add: r)
    consider "i = low" | "i \<in> set (b # bs)" | "i \<notin> set ?xs" by auto
    then show "if i \<in> set (b # bs) then item_buffer (itm ?c i) \<noteq> [] \<and>
          outdated (itm ?c i) = (path_of ?c i \<in> lru_stale (l\<lparr>lru_stale := lru_stale l - {path_of c low}\<rparr>)) \<and>
          lock_number (itm ?c i) = int (card (holders (l\<lparr>lru_stale := lru_stale l - {path_of c low}\<rparr>) (path_of ?c i)))
        else itm ?c i = new_cache_item"
    proof cases
      case 1
      then show ?thesis using B(4) dist by simp
    next
      case 2
      then have "item_buffer (itm c i) \<noteq> [] \<and> outdated (itm c i) = (path_of c i \<in> lru_stale l) \<and>
          lock_number (itm c i) = int (card (holders l (path_of c i)))"
        using s(2) i by (simp add: sim_items_def)
      then show ?thesis using 2 keep [OF 2] other [OF 2] q by (simp add: holders_def)
    next
      case 3
      then have "itm c i = new_cache_item" using s(2) i by (simp add: sim_items_def)
      then show ?thesis using 3 B(5) [OF i 3] by simp
    qed
  next
    have "lru_stale l \<subseteq> path_of c ` set ?xs" using s(2) by (simp add: sim_items_def)
    then have sub: "lru_stale l - {path_of c low} \<subseteq> path_of c ` set (b # bs)" by auto
    have eq: "path_of ?c ` set (b # bs) = path_of c ` set (b # bs)"
      using dist by (intro image_cong) auto
    show "lru_stale (l\<lparr>lru_stale := lru_stale l - {path_of c low}\<rparr>) \<subseteq> path_of ?c ` set (b # bs)"
      unfolding eq using sub by simp
  qed
  have w0: "watch_to_cache_idx c (watch (itm c low)) = Some low" using sim_watch(1) [OF s(3)] by simp
  have 3: "sim_watches ?c (l\<lparr>lru_watch :=
      (\<lambda>w. if lru_watch l w = Some (path_of c low) then None else lru_watch l w)\<rparr>) (b # bs)"
    unfolding sim_watches_def
  proof (intro conjI allI)
    fix w i
    show "watch_to_cache_idx ?c w = Some i \<longleftrightarrow> i \<in> set (b # bs) \<and> watch (itm ?c i) = w"
    proof (cases "w = watch (itm c low)")
      case True
      then have "watch (itm c i) = w \<Longrightarrow> i \<in> set ?xs \<Longrightarrow> i = low"
        using w0 sim_watch(1) [OF s(3), of w i] by simp
      then show ?thesis using True keep(4) [of i] other(2) [of i] by (simp del: set_simps) auto
    next
      case False
      then show ?thesis using sim_watch(1) [OF s(3), of w i] keep(4) [of i] by auto
    qed
    show "lru_watch (l\<lparr>lru_watch :=
        (\<lambda>w. if lru_watch l w = Some (path_of c low) then None else lru_watch l w)\<rparr>) w =
        map_option (path_of ?c) (watch_to_cache_idx ?c w)"
    proof (cases "watch_to_cache_idx c w")
      case None
      then show ?thesis using sim_watch(2) [OF s(3), of w] by simp
    next
      case (Some j)
      then have j: "j \<in> set ?xs" "watch (itm c j) = w" using sim_watch(1) [OF s(3), of w j] by simp_all
      show ?thesis
      proof (cases "j = low")
        case True
        then show ?thesis using Some j sim_watch(2) [OF s(3), of w] by simp
      next
        case False
        then have "w \<noteq> watch (itm c low)" using Some w0 by auto
        moreover have "path_of c j \<noteq> path_of c low" using other [of j] j(1) False q by auto
        ultimately show ?thesis using Some False sim_watch(2) [OF s(3), of w] by simp
      qed
    qed
  qed
  have 4: "sim_clients ?c tc l"
  proof -
    have "lru_holder l cl \<noteq> Some q" for cl using unlocked q by (auto simp: holders_def)
    then show ?thesis using s(4) by (auto simp: sim_clients_def)
  qed
  show thesis by (rule that [OF run 1 2 3 4]) (simp_all add: q)
qed

lemma put_sim_free:
  assumes s: "sim_entries N c l xs" "sim_items c l xs" "sim_watches c l xs" "sim_clients c tc l"
    and absent: "filepath_to_cache_idx c p = None" "watch_to_cache_idx c wd = None" "b \<noteq> []"
    and room: "length xs < N"
  shows "\<exists>c'. try_insert_item ord wd cl p b c = Some (c', True) \<and>
    cache_sim N (c', tc) (l\<lparr>lru_entries := lru_entries l @ [(p, b)], lru_watch := (lru_watch l)(wd \<mapsto> p)\<rparr>)"
proof -
  have free: "cache_free_idxs c = {0..<int N} - set xs" and lk: "linked c xs"
    using s(1) by (auto simp: sim_entries_def)
  have "card (set xs) < card {0..<int N}" using room card_length [of xs] by simp
  then have ne: "cache_free_idxs c \<noteq> {}" unfolding free
    by (metis Diff_eq_empty_iff List.finite_set card_mono not_less)
  define cur where "cur = cbegin ord (cache_free_idxs c)"
  have cur: "cur \<in> cache_free_idxs c" unfolding cur_def by (rule cbegin_in) (use ne free in simp_all)
  then have "cur \<noteq> -1" using free by auto
  let ?c0 = "c\<lparr>cache_free_idxs := cache_free_idxs c - {cur}, lowest_idx := hd (xs @ [cur])\<rparr>"
  have "choose_item ord c = Some (?c0, cur)"
  proof (cases xs)
    case Nil
    then have "lowest_idx c = -1" using lk by (simp add: linked_def)
    then show ?thesis using ne Nil by (simp add: choose_item_def Let_def cur_def)
  next
    case (Cons x ys)
    then have "lowest_idx c = x" "x \<noteq> -1"
      using lk in_range_not_minus_one [of "cache_buffer c" x] by (auto simp: linked_def)
    then show ?thesis using ne Cons by (simp add: choose_item_def Let_def cur_def)
  qed
  then show ?thesis using place_sim [OF s cur absent, of ?c0] \<open>cur \<noteq> -1\<close>
    by (auto simp: try_insert_item_def)
qed

lemma put_sim_full:
  assumes s: "sim_entries N c l xs" "sim_items c l xs" "sim_watches c l xs" "sim_clients c tc l"
    and absent: "filepath_to_cache_idx c p = None" "watch_to_cache_idx c wd = None" "b \<noteq> []"
    and xs: "xs = low # x # bs" and full: "cache_free_idxs c = {}"
    and unlocked: "holders l (path_of c low) = {}"
  shows "\<exists>c'. try_insert_item ord wd cl p b c = Some (c', True) \<and>
    cache_sim N (c', tc) (l\<lparr>lru_entries := tl (lru_entries l) @ [(p, b)],
      lru_stale := lru_stale l - {path_of c low},
      lru_watch := (\<lambda>w. if lru_watch l w = Some (path_of c low) then None else lru_watch l w)(wd \<mapsto> p)\<rparr>)"
proof -
  let ?l1 = "l\<lparr>lru_entries := tl (lru_entries l), lru_stale := lru_stale l - {path_of c low},
    lru_watch := (\<lambda>w. if lru_watch l w = Some (path_of c low) then None else lru_watch l w)\<rparr>"
  obtain c1 where t: "take_lowest c = Some (c1, low)"
    and s1: "sim_entries N (c1\<lparr>cache_free_idxs := insert low (cache_free_idxs c)\<rparr>) ?l1 (x # bs)"
      "sim_items c1 (l\<lparr>lru_stale := lru_stale l - {path_of c low}\<rparr>) (x # bs)"
      "sim_watches c1 (l\<lparr>lru_watch :=
         (\<lambda>w. if lru_watch l w = Some (path_of c low) then None else lru_watch l w)\<rparr>) (x # bs)"
      "sim_clients c1 tc l" "cache_free_idxs c1 = cache_free_idxs c" "lowest_idx c1 = x"
    and m: "\<And>q. filepath_to_cache_idx c1 q = (if q = path_of c low then None else filepath_to_cache_idx c q)"
      "\<And>w. watch_to_cache_idx c w = None \<Longrightarrow> watch_to_cache_idx c1 w = None"
    by (rule evict_sim [OF s [unfolded xs] unlocked]) (rule that)
  let ?c1 = "c1\<lparr>cache_free_idxs := insert low (cache_free_idxs c)\<rparr>"
  have s2: "sim_items ?c1 ?l1 (x # bs)" "sim_watches ?c1 ?l1 (x # bs)" "sim_clients ?c1 tc ?l1"
    using s1(2,3,4) by (simp_all add: sim_items_def sim_watches_def sim_clients_def holders_def)
  have low: "in_range (cache_buffer c) low" using s(1) xs by (simp add: sim_entries_def linked_def)
  have c1: "c1 = ?c1\<lparr>cache_free_idxs := cache_free_idxs ?c1 - {low}, lowest_idx := hd ((x # bs) @ [low])\<rparr>"
    using s1(5,6) full by simp
  have eq: "l\<lparr>lru_entries := tl (lru_entries l) @ [(p, b)], lru_stale := lru_stale l - {path_of c low},
        lru_watch := (\<lambda>w. if lru_watch l w = Some (path_of c low) then None else lru_watch l w)(wd \<mapsto> p)\<rparr> =
      ?l1\<lparr>lru_entries := lru_entries ?l1 @ [(p, b)], lru_watch := (lru_watch ?l1)(wd \<mapsto> p)\<rparr>" (is "?l2 = ?l3")
    by simp
  have "\<exists>c'. place_item wd p b low c1 = Some c' \<and> cache_sim N (c', tc) ?l3"
    by (rule place_sim [OF s1(1) s2 _ _ _ absent(3) c1]) (use absent m in simp_all)
  then obtain c' where "place_item wd p b low c1 = Some c'" "cache_sim N (c', tc) ?l2"
    unfolding eq by (elim exE conjE)
  moreover have "choose_item ord c = Some (c1, low)" using t full by (simp add: choose_item_def)
  ultimately show ?thesis using in_range_not_minus_one [OF low] by (simp add: try_insert_item_def)
qed

lemma put_sim:
  assumes s: "sim_entries N c l xs" "sim_items c l xs" "sim_watches c l xs" "sim_clients c tc l"
    and N: "2 \<le> N" and st: "lru_step N (Put cl wd p b) l = Some (l', r)"
  shows "\<exists>s'. cache_step ord (Put cl wd p b) (c, tc) = Some (s', r) \<and> cache_sim N s' l'"
proof -
  have len: "length (lru_entries l) = length xs" and lk: "linked c xs"
    and free: "cache_free_idxs c = {0..<int N} - set xs" and buf: "length (cache_buffer c) = N"
    using s(1) by (auto simp: sim_entries_def)
  have a: "filepath_to_cache_idx c p = None" "watch_to_cache_idx c wd = None" "b \<noteq> []"
  proof -
    have "map_of (lru_entries l) p = None \<and> lru_watch l wd = None \<and> b \<noteq> []"
      by (rule ccontr) (use st in simp)
    then show "filepath_to_cache_idx c p = None" "watch_to_cache_idx c wd = None" "b \<noteq> []"
      using sim_lookup [OF s(1), of p] sim_watch(2) [OF s(3), of wd] by simp_all
  qed
  have pre: "map_of (lru_entries l) p = None" "lru_watch l wd = None"
    using a sim_lookup [OF s(1), of p] sim_watch(2) [OF s(3), of wd] by simp_all
  show ?thesis
  proof (cases "length xs < N")
    case True
    then have "l' = l\<lparr>lru_entries := lru_entries l @ [(p, b)], lru_watch := (lru_watch l)(wd \<mapsto> p)\<rparr>" "r = Inserted True"
      using st len pre a(3) by simp_all
    then show ?thesis using put_sim_free [OF s a True, of ord cl] by auto
  next
    case False
    have sub: "set xs \<subseteq> {0..<int N}" using linked_in_range [OF lk] buf by (auto simp: in_range_def)
    have card: "card (set xs) = length xs" using lk by (simp add: linked_def distinct_card)
    have "set xs = {0..<int N}" by (rule card_seteq [OF _ sub]) (use card False in simp_all)
    then have none: "cache_free_idxs c = {}" using free by simp
    obtain low x bs where xs: "xs = low # x # bs" using False N by (cases xs; cases "tl xs") auto
    let ?q = "path_of c low"
    have hdq: "fst (hd (lru_entries l)) = ?q" using s(1) xs by (simp add: sim_entries_def)
    have rl: "in_range (cache_buffer c) low" using lk xs by (simp add: linked_def)
    show ?thesis
    proof (cases "holders l ?q = {}")
      case True
      then have "r = Inserted True" "l' = l\<lparr>lru_entries := tl (lru_entries l) @ [(p, b)],
          lru_stale := lru_stale l - {?q},
          lru_watch := (\<lambda>w. if lru_watch l w = Some ?q then None else lru_watch l w)(wd \<mapsto> p)\<rparr>"
        using st len False hdq pre a(3) by (simp_all add: Let_def)
      then show ?thesis using put_sim_full [OF s a xs none True, of ord cl] by auto
    next
      case held: False
      then have r: "r = Inserted False" "l' = l" using st len False hdq pre a(3) by (simp_all add: Let_def)
      have "finite (holders l ?q)" using s(4) by (intro finite_holders) (simp add: sim_clients_def)
      then have "lock_number (itm c low) \<noteq> 0" using s(2) rl xs held by (simp add: sim_items_def)
      moreover have "lowest_idx c = low" using lk xs by (simp add: linked_def)
      ultimately have "try_insert_item ord wd cl p b c = Some (c, False)"
        using none rl by (simp add: try_insert_item_def choose_item_def take_lowest_def vget_in_range)
      then show ?thesis using r s by (auto simp: cache_sim_def)
    qed
  qed
qed

section \<open>Runs\<close>

lemma step_sim:
  assumes "cache_sim N s l" "2 \<le> N" "int N < 2 ^ 64" "lru_step N op l = Some (l', r)"
  shows "\<exists>s'. cache_step ord op s = Some (s', r) \<and> cache_sim N s' l'"
proof -
  obtain c tc xs where s: "s = (c, tc)" "sim_entries N c l xs" "sim_items c l xs" "sim_watches c l xs"
      "sim_clients c tc l"
    using assms(1) by (cases s) (auto simp: cache_sim_def)
  show ?thesis unfolding s(1) using assms(2-4)
    by (cases op) (blast intro: fetch_sim [OF s(2-5)] put_sim [OF s(2-5)] modified_sim [OF s(2-5)] finish_sim [OF s(2-5)])+
qed

lemma run_sim:
  assumes "2 \<le> N" "int N < 2 ^ 64"
  shows "cache_sim N s l \<Longrightarrow> lru_run N ops l = Some (l', rs) \<Longrightarrow>
    \<exists>s'. cache_run ord ops s = Some (s', rs) \<and> cache_sim N s' l'"
proof (induction ops arbitrary: s l rs)
  case Nil
  then show ?case by simp
next
  case (Cons op ops)
  from Cons.prems(2) obtain l1 r rs1 where 1: "lru_step N op l = Some (l1, r)"
      "lru_run N ops l1 = Some (l', rs1)" "rs = r # rs1"
    by (auto simp: bind_Some_iff)
  obtain s1 where "cache_step ord op s = Some (s1, r)" "cache_sim N s1 l1"
    using step_sim [OF Cons.prems(1) assms 1(1)] by blast
  then show ?case using Cons.IH [OF _ 1(2)] 1(3) by fastforce
qed

lemma new_cache_sim: "cache_sim N (new_cache N, \<lambda>_. new_tcp_client_value) lru_empty"
  unfolding cache_sim_def
  by (rule exI [of _ "[]"])
    (auto simp: new_cache_def lru_empty_def new_tcp_client_value_def sim_entries_def sim_items_def
      sim_watches_def sim_clients_def linked_def in_range_def)

end
