(* ===== verification/Web_Cache_Props.thy ===== *)
theory Web_Cache_Props
  imports Web_Cache_Lru
begin

text \<open>
  The properties of the cache: it refines the abstract store, the bytes handed to a client stay
  in place while the client uses them, lock numbers count the users; and what happens outside
  the specification, when a file has been modified or a client asks twice.
\<close>

abbreviation fresh_cache :: "nat \<Rightarrow> cache \<times> (int \<Rightarrow> tcp_client)" where
  "fresh_cache N \<equiv> (new_cache N, \<lambda>_. new_tcp_client_value)"

text \<open>Evaluation of concrete runs.\<close>

lemma new_cache_2:
  "new_cache 2 = \<lparr>filepath_to_cache_idx = (\<lambda>_. None), cache_idx_to_filepath = (\<lambda>_. None),
     cache_buffer = replicate 2 new_cache_item, cache_free_idxs = {0, 1},
     client_idx_to_cache_idx = (\<lambda>_. None), highest_idx = -1, lowest_idx = -1,
     watch_to_cache_idx = (\<lambda>_. None), kernel_watches = {}\<rparr>"
  unfolding new_cache_def by auto

lemma new_cache_5:
  "new_cache 5 = \<lparr>filepath_to_cache_idx = (\<lambda>_. None), cache_idx_to_filepath = (\<lambda>_. None),
     cache_buffer = replicate 5 new_cache_item, cache_free_idxs = {0, 1, 2, 3, 4},
     client_idx_to_cache_idx = (\<lambda>_. None), highest_idx = -1, lowest_idx = -1,
     watch_to_cache_idx = (\<lambda>_. None), kernel_watches = {}\<rparr>"
  unfolding new_cache_def by auto

lemmas cache_eval = try_insert_item_def choose_item_def place_item_def take_lowest_def fetch_item_def
  unlink_item_def found_item_def drop_outdated_def inotify_event_handler_def finished_with_item_def
  mod_item_def vmod_def vget_def in_range_def Let_def new_cache_item_def not_found_def
  new_tcp_client_value_def u64_def cbegin_ascending insert_Diff_if

text \<open>A run on a cache of two items: the third file evicts the one that was not used last.\<close>

definition ex_ops :: "cache_op list" where
  "ex_ops = [Put 0 1 ''a'' [10], Put 0 2 ''b'' [20], Fetch ''a'' 7, Put 0 3 ''c'' [30], Fetch ''b'' 8,
     Put 0 4 ''d'' [40], Finish 7, Put 0 4 ''d'' [40]]"

lemma ex_ops_lru: "map_option snd (lru_run 2 ex_ops lru_empty) =
    Some [Inserted True, Inserted True, Found [10], Inserted True, Missing, Inserted False, Done, Inserted True]"
  by (simp add: ex_ops_def lru_empty_def holders_def Let_def)

text \<open>C11. The cache behaves like a least-recently-used store: whatever sequence of fetches,
  insertions, file modifications and releases is put to a new cache, it gives the results of the
  abstract store, in which a fetch returns the bytes inserted for the path and makes the entry the
  most recently used one, and an insertion into a full store replaces the least recently used entry
  unless a client is using it. (Sequences that the abstract store leaves open are described after
  \<open>lru_step\<close>.) In particular no operation of such a run indexes out of range.\<close>

theorem cache_refines_lru:
  assumes "2 \<le> N" "int N < 2 ^ 64"
    and "lru_run N ops lru_empty = Some (l', rs)"
  shows "\<exists>s'. cache_run ord ops (fresh_cache N) = Some (s', rs)"
  using run_sim [OF assms(1,2) new_cache_sim assms(3)] by blast

theorem cache_refines_lru_witness:
  "\<exists>s'. cache_run ascending ex_ops (fresh_cache 2) = Some (s',
     [Inserted True, Inserted True, Found [10], Inserted True, Missing, Inserted False, Done, Inserted True])"
proof -
  obtain l' where "lru_run 2 ex_ops lru_empty = Some (l',
      [Inserted True, Inserted True, Found [10], Inserted True, Missing, Inserted False, Done, Inserted True])"
    using ex_ops_lru by auto
  from cache_refines_lru [OF _ _ this] show ?thesis by simp
qed

section \<open>Locks and the bytes they protect\<close>

lemma mod_item_fields:
  "mod_item i f c = Some c' \<Longrightarrow> client_idx_to_cache_idx c' = client_idx_to_cache_idx c"
  by (auto simp: mod_item_def bind_Some_iff)

lemma drop_outdated_fields:
  "drop_outdated i c = Some c' \<Longrightarrow> client_idx_to_cache_idx c' = client_idx_to_cache_idx c"
  by (auto simp: drop_outdated_def bind_Some_iff Let_def dest!: mod_item_fields)

lemma unlink_item_fields:
  "unlink_item it c = Some c' \<Longrightarrow> client_idx_to_cache_idx c' = client_idx_to_cache_idx c"
  by (auto simp: unlink_item_def bind_Some_iff split: if_splits dest!: mod_item_fields)

lemma take_lowest_fields:
  "take_lowest c = Some (c', i) \<Longrightarrow> client_idx_to_cache_idx c' = client_idx_to_cache_idx c"
  by (auto simp: take_lowest_def bind_Some_iff Let_def split: if_splits dest!: mod_item_fields)

lemma choose_item_fields:
  "choose_item ord c = Some (c', i) \<Longrightarrow> client_idx_to_cache_idx c' = client_idx_to_cache_idx c"
  by (auto simp: choose_item_def Let_def split: if_splits dest!: take_lowest_fields)

lemma place_item_fields:
  "place_item wd p b i c = Some c' \<Longrightarrow> client_idx_to_cache_idx c' = client_idx_to_cache_idx c"
  by (auto simp: place_item_def bind_Some_iff Let_def split: if_splits dest!: mod_item_fields)

lemma try_insert_item_fields:
  "try_insert_item ord wd cl p b c = Some (c', ok) \<Longrightarrow>
     client_idx_to_cache_idx c' = client_idx_to_cache_idx c"
  by (auto simp: try_insert_item_def bind_Some_iff split: if_splits
      dest!: choose_item_fields place_item_fields)

lemma fetch_item_fields:
  "fetch_item p cl t c = Some (c', t', r) \<Longrightarrow> cl \<noteq> cl' \<Longrightarrow>
     client_idx_to_cache_idx c' cl' = client_idx_to_cache_idx c cl'"
  by (auto simp: fetch_item_def bind_Some_iff Let_def split: option.splits if_splits
      dest!: mod_item_fields drop_outdated_fields unlink_item_fields)

lemma step_keeps_slot:
  assumes "cache_step ord op (c, tc) = Some ((c', tc'), r)" "op \<noteq> Finish cl"
    "\<And>q. op = Fetch q cl \<Longrightarrow> filepath_to_cache_idx c q = None"
  shows "client_idx_to_cache_idx c' cl = client_idx_to_cache_idx c cl"
proof (cases op)
  case (Fetch q cl')
  then show ?thesis using assms fetch_item_fields [of q cl' "tc cl'" c c' _ _ cl]
    by (cases "cl' = cl") (auto simp: bind_Some_iff fetch_item_def)
next
  case (Put cl' wd q b)
  then show ?thesis using assms by (auto simp: bind_Some_iff dest!: try_insert_item_fields)
next
  case (Modified wd)
  then show ?thesis using assms
    by (auto simp: bind_Some_iff inotify_event_handler_def split: option.splits if_splits dest!: mod_item_fields)
next
  case (Finish cl')
  then show ?thesis using assms
    by (auto simp: bind_Some_iff finished_with_item_def Let_def split: if_splits dest!: mod_item_fields)
qed

text \<open>In the abstract store a held entry stays.\<close>

lemma map_of_filter_snoc:
  "map_of (filter (\<lambda>e. fst e \<noteq> q) xs @ [(q, b)]) p = (if p = q then Some b else map_of xs p)"
  by (induction xs) auto

lemma lru_step_keeps_held:
  assumes st: "lru_step N op l = Some (l', r)" and h: "lru_holder l cl = Some p"
    and e: "map_of (lru_entries l) p = Some b" and op: "op \<noteq> Finish cl"
  shows "lru_holder l' cl = Some p \<and> map_of (lru_entries l') p = Some b"
proof (cases op)
  case (Fetch q cl')
  then show ?thesis using st h e
    by (cases "map_of (lru_entries l) q") (auto simp: map_of_filter_snoc simp del: map_of_append split: if_splits)
next
  case (Put cl' wd q b')
  have "map_of (tl (lru_entries l)) p = Some b" if none: "holders l (fst (hd (lru_entries l))) = {}"
  proof -
    have "fst (hd (lru_entries l)) \<noteq> p" using h none by (auto simp: holders_def)
    then show ?thesis using e by (cases "lru_entries l") (auto split: if_splits)
  qed
  then show ?thesis using st h e Put by (auto simp: Let_def map_add_def split: if_splits option.splits)
next
  case (Modified wd)
  then show ?thesis using st h e by (auto split: option.splits)
next
  case (Finish cl')
  then show ?thesis using st h e op by auto
qed

lemma run_keeps_slot:
  assumes "2 \<le> N" "int N < 2 ^ 64"
  shows "cache_sim N s l \<Longrightarrow> lru_run N ops l = Some (l', rs) \<Longrightarrow> Finish cl \<notin> set ops \<Longrightarrow>
    lru_holder l cl = Some p \<Longrightarrow> map_of (lru_entries l) p = Some b \<Longrightarrow>
    client_idx_to_cache_idx (fst s) cl = Some i \<Longrightarrow>
    \<exists>c' tc'. cache_run ord ops s = Some ((c', tc'), rs) \<and> in_range (cache_buffer c') i \<and> item_buffer (itm c' i) = b"
proof (induction ops arbitrary: s l rs)
  case Nil
  obtain c tc xs where s: "s = (c, tc)" "sim_entries N c l xs" "sim_clients c tc l"
    using Nil.prems(1) by (cases s) (auto simp: cache_sim_def)
  have f: "filepath_to_cache_idx c p = Some i" using sim_holder [OF s(3) Nil.prems(4)] Nil.prems(6) s(1) by auto
  have "item_buffer (itm c i) = b" using sim_lookup [OF s(2), of p] f Nil.prems(5) by simp
  moreover have "in_range (cache_buffer c) i"
    using sim_maps [OF s(2), of p i] f s(2) linked_in_range [of c xs i] by (simp add: sim_entries_def)
  ultimately show ?case using Nil.prems(2) s(1) by auto
next
  case (Cons op ops)
  from Cons.prems(2) obtain l1 r rs1 where 1: "lru_step N op l = Some (l1, r)"
      "lru_run N ops l1 = Some (l', rs1)" "rs = r # rs1"
    by (auto simp: bind_Some_iff)
  obtain s1 where s1: "cache_step ord op s = Some (s1, r)" "cache_sim N s1 l1"
    using step_sim [OF Cons.prems(1) assms 1(1)] by blast
  have held: "lru_holder l1 cl = Some p \<and> map_of (lru_entries l1) p = Some b"
    using lru_step_keeps_held [OF 1(1) Cons.prems(4,5)] Cons.prems(3) by auto
  obtain c tc xs where s: "s = (c, tc)" "sim_entries N c l xs"
    using Cons.prems(1) by (cases s) (auto simp: cache_sim_def)
  have miss: "filepath_to_cache_idx c q = None" if "op = Fetch q cl" for q
    using 1(1) that Cons.prems(4) sim_lookup [OF s(2), of q]
    by (cases "filepath_to_cache_idx c q") (auto split: if_splits)
  have "client_idx_to_cache_idx (fst s1) cl = Some i"
    using step_keeps_slot [of ord op c tc "fst s1" "snd s1" r cl] s1(1) s(1) miss Cons.prems(3,6) by auto
  then show ?case using Cons.IH [OF s1(2) 1(2)] held Cons.prems(3) s1(1) 1(3) by fastforce
qed

lemma lru_run_append:
  "lru_run N (xs @ ys) l = do {
     (l, r) \<leftarrow> lru_run N xs l; (l, r') \<leftarrow> lru_run N ys l; Some (l, r @ r') }"
  by (induction xs arbitrary: l) (auto split: Option.bind_splits)

lemma cache_run_append:
  "cache_run ord (xs @ ys) s = do {
     (s, r) \<leftarrow> cache_run ord xs s; (s, r') \<leftarrow> cache_run ord ys s; Some (s, r @ r') }"
  by (induction xs arbitrary: s) (auto split: Option.bind_splits)

lemma fetch_found:
  "fetch_item p cl t c = Some (c', t', r) \<Longrightarrow> found r \<Longrightarrow>
     \<exists>i. client_idx_to_cache_idx c' cl = Some i \<and> fetch_buff r = Ptr (Cache_slot i) (item_buffer (itm c' i)) \<and>
       filepath_to_cache_idx c p = Some i"
  by (auto simp: fetch_item_def found_item_def not_found_def bind_Some_iff Let_def vget_eq_Some
      split: option.splits if_splits dest!: mod_item_fields unlink_item_fields)





section \<open>Outside the specification\<close>

lemma drop_outdated_run:
  assumes "in_range (cache_buffer c) i"
  shows "\<exists>c'. drop_outdated i c = Some c' \<and> itm c' i = new_cache_item \<and> i \<in> cache_free_idxs c' \<and>
    filepath_to_cache_idx c' = filepath_to_cache_idx c \<and> in_range (cache_buffer c') i"
  using assms by (auto simp: drop_outdated_def vget_in_range mod_item_run Let_def nth_nat_update)

lemma fetch_reset_item:
  assumes "filepath_to_cache_idx c p = Some i" "in_range (cache_buffer c) i" "itm c i = new_cache_item"
  shows "fetch_item p cl t c = None"
  using assms by (simp add: fetch_item_def mod_item_run Let_def vget_in_range nth_nat_update new_cache_item_def found_item_def)

text \<open>C26. Fetching a file that was modified drops the item even if other clients are using it:
  its bytes are gone and its lock number is reset to 0 whatever it was, while the path still leads to
  it, so that the next fetch of the path, before the file has been read again, takes the address of
  the first byte of an empty vector.\<close>

theorem stale_fetch_drops_locked_item:
  assumes l: "linked c xs" and i: "i \<in> set xs" "filepath_to_cache_idx c p = Some i"
    and old: "outdated (itm c i)"
  shows "\<exists>c'. fetch_item p cl t c = Some (c', t\<lparr>using_file := True\<rparr>, not_found) \<and>
    item_buffer (itm c' i) = [] \<and> lock_number (itm c' i) = 0 \<and> i \<in> cache_free_idxs c' \<and>
    filepath_to_cache_idx c' p = Some i \<and> fetch_item p cl2 t2 c' = None"
proof -
  obtain as bs where xs: "xs = as @ i # bs" using i(1) by (meson split_list)
  note s = linked_split [OF l [unfolded xs]]
  let ?m = "(client_idx_to_cache_idx c)(cl \<mapsto> i)"
  define B1 where "B1 = (cache_buffer c)[nat i := (itm c i)\<lparr>lock_number := lock_number (itm c i) + 1\<rparr>]"
  let ?c1 = "c\<lparr>cache_buffer := B1, client_idx_to_cache_idx := ?m\<rparr>"
  have it: "B1 ! nat i = (itm c i)\<lparr>lock_number := lock_number (itm c i) + 1\<rparr>"
    and len: "length B1 = length (cache_buffer c)"
    using s(1) by (simp_all add: B1_def nth_nat_update)
  have r: "in_range B1 j = in_range (cache_buffer c) j" for j by (rule in_range_length [OF len])
  have lock: "mod_item i (\<lambda>it. it\<lparr>lock_number := lock_number it + 1\<rparr>) c = Some (c\<lparr>cache_buffer := B1\<rparr>)"
    using s(1) by (simp add: mod_item_run B1_def)
  have "\<exists>c2. (if next_item_idx (B1 ! nat i) = -1 then
        (if prev_item_idx (B1 ! nat i) \<noteq> -1
         then mod_item (prev_item_idx (B1 ! nat i)) (\<lambda>p. p\<lparr>next_item_idx := -1\<rparr>) ?c1 else Some ?c1)
      else unlink_item (B1 ! nat i) ?c1) = Some c2 \<and> filepath_to_cache_idx c2 = filepath_to_cache_idx c \<and>
      length (cache_buffer c2) = length (cache_buffer c)"
    using s(2,3,8,9) last_in_set [of as]
    by (cases bs; cases "as = []") (auto simp: it len mod_item_run r unlink_item_def)
  then obtain c2 where c2: "(if next_item_idx (B1 ! nat i) = -1 then
        (if prev_item_idx (B1 ! nat i) \<noteq> -1
         then mod_item (prev_item_idx (B1 ! nat i)) (\<lambda>p. p\<lparr>next_item_idx := -1\<rparr>) ?c1 else Some ?c1)
      else unlink_item (B1 ! nat i) ?c1) = Some c2" "filepath_to_cache_idx c2 = filepath_to_cache_idx c"
      "length (cache_buffer c2) = length (cache_buffer c)" by blast
  have "in_range (cache_buffer c2) i" using s(1) in_range_length [OF c2(3)] by simp
  from drop_outdated_run [OF this] obtain c' where c': "drop_outdated i c2 = Some c'" "itm c' i = new_cache_item"
    "i \<in> cache_free_idxs c'" "filepath_to_cache_idx c' = filepath_to_cache_idx c2" "in_range (cache_buffer c') i"
    by blast
  have "fetch_item p cl t c = Some (c', t\<lparr>using_file := True\<rparr>, not_found)"
    using i(2) lock c2(1) c'(1) it old s(1)
    by (auto simp: fetch_item_def vget_in_range r split: if_splits)
  moreover have "fetch_item p cl2 t2 c' = None"
    by (rule fetch_reset_item [OF _ c'(5,2)]) (use c' c2 i in simp)
  ultimately show ?thesis using c' c2(2) i(2) by (simp add: new_cache_item_def)
qed

theorem stale_fetch_drops_locked_item_witness:
  "case cache_run ascending [Put 0 1 ''a'' [10], Fetch ''a'' 7, Modified 1] (fresh_cache 2) of
     None \<Rightarrow> False
   | Some ((c, tc), rs) \<Rightarrow> lock_number (itm c 0) = 1 \<and> item_buffer (itm c 0) = [10] \<and>
       (\<exists>c'. fetch_item ''a'' 8 (tc 8) c = Some (c', (tc 8)\<lparr>using_file := True\<rparr>, not_found) \<and>
          item_buffer (itm c' 0) = [] \<and> lock_number (itm c' 0) = 0)"
proof -
  have "case cache_run ascending [Put 0 1 ''a'' [10], Fetch ''a'' 7, Modified 1] (fresh_cache 2) of
     None \<Rightarrow> False
   | Some ((c, tc), rs) \<Rightarrow> lock_number (itm c 0) = 1 \<and> item_buffer (itm c 0) = [10] \<and>
       linked c [0] \<and> filepath_to_cache_idx c ''a'' = Some 0 \<and> outdated (itm c 0)"
    unfolding new_cache_2 by (simp add: cache_eval linked_def eval_nat_numeral)
  then show ?thesis
    using stale_fetch_drops_locked_item [of _ "[0]" 0 "''a''" 8] by (fastforce split: option.splits prod.splits)
qed

definition corrupt_ops :: "cache_op list" where
  "corrupt_ops = [Put 0 1 ''a'' [10], Modified 1, Fetch ''a'' 0, Put 0 2 ''a'' [11], Fetch ''a'' 0, Finish 0,
     Put 1 3 ''b'' [20], Put 1 4 ''c'' [30], Put 1 5 ''d'' [40], Put 1 6 ''e'' [50],
     Fetch ''a'' 2, Finish 2]"

text \<open>On a cache of five items the following run, in which every step so far is defined, ends
  with an index of \<open>-1\<close> into the array: a file is cached, modified, fetched and read again;
  four more files are cached; the first is fetched once more and a sixth file is inserted. Reusing the
  item of the modified file links it to itself, and promoting it leaves \<open>lowest_idx\<close> at an
  item without successor.\<close>

theorem stale_reload_corrupts_list:
  "cache_run ascending corrupt_ops (fresh_cache 5) \<noteq> None \<and>
   cache_run ascending (corrupt_ops @ [Put 1 7 ''f'' [60]]) (fresh_cache 5) = None"
  unfolding new_cache_5 corrupt_ops_def by (simp add: cache_eval eval_nat_numeral)

text \<open>A client that asks for a second file before the first was sent (a pipelined request)
  leaves the first item locked for ever: after it has released its file nobody uses a file, and yet
  the full cache refuses every further insertion.\<close>

theorem pipelined_fetch_leaks_lock:
  "case cache_run ascending [Put 0 1 ''a'' [1], Put 0 2 ''b'' [2], Put 0 3 ''c'' [3], Put 0 4 ''d'' [4],
        Put 0 5 ''e'' [5], Fetch ''a'' 0, Fetch ''b'' 0, Finish 0, Fetch ''c'' 1, Finish 1,
        Fetch ''d'' 1, Finish 1, Fetch ''e'' 1, Finish 1] (fresh_cache 5) of
     None \<Rightarrow> False
   | Some ((c, tc), rs) \<Rightarrow> (\<forall>cl. \<not> using_file (tc cl)) \<and> lock_number (itm c (lowest_idx c)) = 1 \<and>
       try_insert_item ascending wd cl p b c = Some (c, False)"
  unfolding new_cache_5 by (simp add: cache_eval eval_nat_numeral)

end
