(* ===== verification/Http_Props.thy ===== *)
theory Http_Props
  imports Http
begin

text \<open>
  What the HTTP functions compute: a request is recognised by its method, a well-formed request is
  taken apart into what it was made of, the content type follows the extension, the length in the
  headers is the decimal length. A header that is too short ends the program.
\<close>

section \<open>Recognising a request\<close>

lemma test_bit: "drop_bit k (v :: 8 word) AND 1 \<noteq> 0 \<longleftrightarrow> bit v k"
  by (simp add: bit_iff_odd_drop_bit and_one_eq mod_2_eq_odd)

lemma bit_1f: "bit (0x1f :: 8 word) j \<longleftrightarrow> j < 5"
proof (cases "j < 8")
  case True
  then have "j \<in> {0, 1, 2, 3, 4, 5, 6, 7}" by auto
  then show ?thesis by auto
next
  case False
  then show ?thesis by (auto simp: bit_imp_le_length dest: bit_imp_le_length)
qed

lemma bit_clear:
  assumes "j < 5" "k < 5"
  shows "bit (0x1f XOR push_bit k 1 :: 8 word) j \<longleftrightarrow> j \<noteq> k"
proof -
  have "bit (push_bit k 1 :: 8 word) j \<longleftrightarrow> j = k" using assms by (auto simp: bit_push_bit_iff bit_1_iff simp del: push_bit_of_1)
  then show ?thesis using assms bit_1f [of j] by (simp add: bit_xor_iff del: push_bit_of_1)
qed

lemma nonzero_bit: "(v :: 8 word) \<noteq> 0 \<longleftrightarrow> (\<exists>j. bit v j)"
  using bit_eqI [of v 0] by auto

text \<open>A check clears the bit of its own method only.\<close>

lemma check_char_bit:
  assumes "j < 5" "k < 5"
  shows "bit (check_char buff (i, k) v) j \<longleftrightarrow>
    bit v j \<and> (k = j \<longrightarrow> i < length (http_types ! j) \<longrightarrow> http_types ! j ! i = buff ! i)"
  using assms
  by (auto simp: check_char_def test_bit bit_and_iff bit_clear simp del: push_bit_of_1)

lemma check_char_high:
  assumes "\<forall>j. bit v j \<longrightarrow> j < 5"
  shows "\<forall>j. bit (check_char buff ik v) j \<longrightarrow> j < 5"
  using assms by (auto simp: check_char_def bit_and_iff split: prod.splits)

lemma fold_check_bit:
  assumes "\<forall>(i, k)\<in>set ps. k < 5" "j < 5"
  shows "bit (fold (check_char buff) ps v) j \<longleftrightarrow>
    bit v j \<and> (\<forall>i. (i, j) \<in> set ps \<longrightarrow> i < length (http_types ! j) \<longrightarrow> http_types ! j ! i = buff ! i)"
  using assms(1)
proof (induction ps arbitrary: v)
  case Nil
  then show ?case by simp
next
  case (Cons p ps)
  obtain i k where "p = (i, k)" "k < 5" using Cons.prems by auto
  then show ?case using Cons check_char_bit [OF assms(2), of k buff i v] by auto
qed

lemma fold_check_high:
  assumes "\<forall>j. bit v j \<longrightarrow> j < 5"
  shows "\<forall>j. bit (fold (check_char buff) ps v) j \<longrightarrow> j < 5"
  using assms
proof (induction ps arbitrary: v)
  case (Cons p ps)
  then show ?case using check_char_high [OF Cons.prems, of buff p] by simp
qed simp

lemma http_types_count: "length http_types = 5"
  by (simp add: http_types_def)

lemma http_types_length: "j < 5 \<Longrightarrow> length (http_types ! j) \<le> 7"
proof -
  assume "j < 5"
  then have "j \<in> {0, 1, 2, 3, 4}" by auto
  then show ?thesis by (auto simp: http_types_def)
qed

lemma prefix_by_chars:
  assumes "length t \<le> length b"
  shows "take (length t) b = t \<longleftrightarrow> (\<forall>i < length t. t ! i = b ! i)"
  using assms by (auto simp: list_eq_iff_nth_eq)

lemma http_req_by_method:
  assumes "16 \<le> len" "7 \<le> length buff"
  shows "is_valid_http_req buff len = Some (\<exists>t\<in>set http_types. take (length t) buff = t)"
proof -
  let ?v = "fold (check_char buff) [(i, j). i \<leftarrow> [0..<7], j \<leftarrow> [0..<5]] 0x1f"
  have high: "bit ?v j \<Longrightarrow> j < 5" for j using fold_check_high [of "0x1f"] bit_1f by blast
  have low: "bit ?v j \<longleftrightarrow> take (length (http_types ! j)) buff = http_types ! j" if j: "j < 5" for j
  proof -
    have "bit ?v j \<longleftrightarrow> (\<forall>i < 7. i < length (http_types ! j) \<longrightarrow> http_types ! j ! i = buff ! i)"
    proof -
      have "(i, j) \<in> set [(i, j). i \<leftarrow> [0..<7], j \<leftarrow> [0..<5]] \<longleftrightarrow> i < 7" for i
      proof
        assume "i < 7"
        then show "(i, j) \<in> set [(i, j). i \<leftarrow> [0..<7], j \<leftarrow> [0..<5]]" using j by (simp add: bexI [of _ i])
      qed auto
      moreover have "bit (0x1f :: 8 word) j" using bit_1f j by blast
      moreover have "\<forall>(i, k)\<in>set [(i, j). i \<leftarrow> [0..<7], j \<leftarrow> [0..<5]]. k < (5 :: nat)" by auto
      ultimately show ?thesis using fold_check_bit [OF _ j] by blast
    qed
    then show ?thesis using prefix_by_chars [of "http_types ! j" buff] http_types_length [OF j] assms(2) by auto
  qed
  have "?v \<noteq> 0 \<longleftrightarrow> (\<exists>j < 5. bit ?v j)"
    using high nonzero_bit [of ?v] by blast
  also have "\<dots> \<longleftrightarrow> (\<exists>j < length http_types. take (length (http_types ! j)) buff = http_types ! j)"
    using low http_types_count by auto
  also have "\<dots> \<longleftrightarrow> (\<exists>t\<in>set http_types. take (length t) buff = t)" by (metis in_set_conv_nth)
  finally show ?thesis using assms by (simp add: is_valid_http_req_def)
qed



section \<open>Taking a request apart\<close>

lemma tokens_skip:
  assumes "set ds \<subseteq> set delims" "NUL \<notin> set ds"
  shows "tokens delims (ds @ mem) = tokens delims mem"
  using assms
proof (induction ds)
  case (Cons d ds)
  then have "strtok_r delims (d # ds @ mem) = strtok_r delims (ds @ mem)" by (auto intro!: strtok_r_skip)
  then show ?case using Cons by (simp add: tokens.simps [of delims "d # ds @ mem"] tokens.simps [of delims "ds @ mem"])
qed simp

text \<open>Lines that end with delimiters come out as they went in.\<close>

lemma tokens_lines:
  assumes "ds \<noteq> []" "set ds \<subseteq> set delims" "NUL \<notin> set delims"
    and "\<And>t. t \<in> set ts \<Longrightarrow> t \<noteq> [] \<and> set t \<inter> insert NUL (set delims) = {}"
  shows "tokens delims (concat (map (\<lambda>t. t @ ds) ts) @ mem) = map_option (\<lambda>us. ts @ us) (tokens delims mem)"
  using assms(4)
proof (induction ts)
  case (Cons t ts)
  let ?rest = "concat (map (\<lambda>t. t @ ds) ts) @ mem"
  obtain d ds' where ds: "ds = d # ds'" using assms(1) by (cases ds) auto
  have "strtok_r delims (t @ d # ds' @ ?rest) = Some (Some t, ds' @ ?rest)"
    by (rule strtok_r_token(1)) (use Cons.prems assms ds in auto)
  moreover have "tokens delims (ds' @ ?rest) = tokens delims ?rest"
    by (rule tokens_skip) (use assms ds in auto)
  moreover have "tokens delims ?rest = map_option (\<lambda>us. ts @ us) (tokens delims mem)" using Cons by auto
  ultimately show ?case
    by (subst tokens.simps) (cases "tokens delims mem"; simp add: ds)
qed (cases "tokens delims mem"; simp)

definition request_text :: "string \<Rightarrow> string \<Rightarrow> string \<Rightarrow> string list \<Rightarrow> string" where
  "request_text verb target version hs =
     concat (map (\<lambda>l. l @ [CR, LF]) ((verb @ '' '' @ target @ '' '' @ version) # hs)) @ [CR, LF]"

definition word_of_line :: "string \<Rightarrow> bool" where
  "word_of_line w \<longleftrightarrow> w \<noteq> [] \<and> set w \<inter> {CHR '' '', CR, LF, NUL} = {}"

definition header_line :: "string \<Rightarrow> bool" where
  "header_line h \<longleftrightarrow> h \<noteq> [] \<and> set h \<inter> {CR, LF, NUL} = {}"

lemma request_lines:
  assumes "word_of_line verb" "word_of_line target" "word_of_line version" "\<forall>h\<in>set hs. header_line h"
  shows "tokens [CR, LF] (request_text verb target version hs @ NUL # rest) =
    Some ((verb @ '' '' @ target @ '' '' @ version) # hs)"
proof -
  let ?ls = "(verb @ '' '' @ target @ '' '' @ version) # hs"
  have "tokens [CR, LF] (concat (map (\<lambda>l. l @ [CR, LF]) ?ls) @ ([CR, LF] @ NUL # rest)) =
      map_option (\<lambda>us. ?ls @ us) (tokens [CR, LF] ([CR, LF] @ NUL # rest))"
    by (rule tokens_lines) (use assms in \<open>auto simp: word_of_line_def header_line_def\<close>)
  moreover have "tokens [CR, LF] ([CR, LF] @ NUL # rest) = Some []"
    by (subst tokens_skip) (auto simp: tokens.simps [of _ "NUL # rest"] strtok_r_end)
  ultimately show ?thesis by (simp add: request_text_def)
qed

lemma request_words:
  assumes "word_of_line verb" "word_of_line target" "word_of_line version"
  shows "strtok_r '' '' ((verb @ '' '' @ target @ '' '' @ version) @ [NUL]) = Some (Some verb, target @ '' '' @ version @ [NUL])"
    "strtok_r '' '' (target @ '' '' @ version @ [NUL]) = Some (Some target, version @ [NUL])"
  using strtok_r_token(1) [of verb "'' ''" "CHR '' ''" "target @ '' '' @ version @ [NUL]"]
    strtok_r_token(1) [of target "'' ''" "CHR '' ''" "version @ [NUL]"] assms
  by (auto simp: word_of_line_def)

text \<open>The key of a request: what follows the name in the last header that has it.\<close>

definition ws_key :: "string list \<Rightarrow> string \<Rightarrow> string" where
  "ws_key hs dflt = (case rev (filter (contains ''Sec-WebSocket-Key'') hs) of [] \<Rightarrow> dflt | h # _ \<Rightarrow> drop 19 h)"

lemma key_token_length [simp]: "length websocket_key_token = 19"
  by (simp add: websocket_key_token_def)

lemma ws_key_Cons:
  "ws_key (h # hs) dflt = ws_key hs (if contains ''Sec-WebSocket-Key'' h then drop 19 h else dflt)"
  by (simp add: ws_key_def split: list.split)

lemma scan_headers_result:
  assumes "\<forall>h\<in>set hs. contains ''Sec-WebSocket-Key'' h \<longrightarrow> 19 \<le> length h"
  shows "scan_headers hs ab key = Some (ab \<or> (\<exists>h\<in>set hs. contains ''Range: bytes='' h), ws_key hs key)"
  using assms
proof (induction hs arbitrary: ab key)
  case Nil
  then show ?case by (simp add: ws_key_def)
next
  case (Cons h hs)
  then show ?case by (auto simp: substr_def ws_key_Cons)
qed

lemma parse_request_text:
  assumes "word_of_line verb" "word_of_line target" "word_of_line version" "\<forall>h\<in>set hs. header_line h"
    and "\<forall>h\<in>set ((verb @ '' '' @ target @ '' '' @ version) # hs). contains ''Sec-WebSocket-Key'' h \<longrightarrow> 19 \<le> length h"
  shows "parse_request (request_text verb target version hs @ NUL # rest) =
    Some \<lparr>hr_is_GET = (verb = ''GET''), hr_path = drop 1 target,
      hr_accept_bytes = (\<exists>h\<in>set ((verb @ '' '' @ target @ '' '' @ version) # hs). contains ''Range: bytes='' h),
      hr_websocket_key = ws_key ((verb @ '' '' @ target @ '' '' @ version) # hs) ''''\<rparr>"
proof -
  let ?ls = "(verb @ '' '' @ target @ '' '' @ version) # hs"
  have "scan_headers ?ls False [] = Some (\<exists>h\<in>set ?ls. contains ''Range: bytes='' h, ws_key ?ls [])"
    unfolding scan_headers_result [OF assms(5), of False "[]"] by blast
  then show ?thesis
    unfolding parse_request_def request_lines [OF assms(1-4), of rest]
    using request_words [OF assms(1-3)] by (simp del: scan_headers.simps)
qed

text \<open>C18. A well-formed request is taken apart into what it was made of: its method, its path
  without the leading character, whether a range is asked for, and the last WebSocket key.\<close>

theorem parse_request_roundtrip:
  assumes "word_of_line verb" "word_of_line target" "word_of_line version" "\<forall>h\<in>set hs. header_line h"
    and "\<forall>h\<in>set ((verb @ '' '' @ target @ '' '' @ version) # hs). contains ''Sec-WebSocket-Key'' h \<longrightarrow> 19 \<le> length h"
  shows "parse_request (request_text verb target version hs @ NUL # rest) =
    Some \<lparr>hr_is_GET = (verb = ''GET''), hr_path = drop 1 target,
      hr_accept_bytes = (\<exists>h\<in>set ((verb @ '' '' @ target @ '' '' @ version) # hs). contains ''Range: bytes='' h),
      hr_websocket_key = ws_key ((verb @ '' '' @ target @ '' '' @ version) # hs) ''''\<rparr>"
  by (rule parse_request_text [OF assms])

theorem parse_request_roundtrip_witness:
  "parse_request (request_text ''GET'' ''/ws/chat'' ''HTTP/1.1'' [''Host: a'', ''Sec-WebSocket-Key: abcd''] @ [NUL]) =
     Some \<lparr>hr_is_GET = True, hr_path = ''ws/chat'', hr_accept_bytes = False, hr_websocket_key = ''abcd''\<rparr>"
  using parse_request_roundtrip [of "''GET''" "''/ws/chat''" "''HTTP/1.1''" "[''Host: a'', ''Sec-WebSocket-Key: abcd'']" "[]"]
  by (simp add: word_of_line_def header_line_def ws_key_def)

text \<open>A request with a header line that has \<open>Sec-WebSocket-Key\<close> in it and less than 19 characters
  ends the program: \<open>substr\<close> throws an exception that nothing catches.\<close>

theorem short_key_header_throws:
  assumes "word_of_line verb" "word_of_line target" "word_of_line version" "\<forall>h\<in>set hs. header_line h"
    and "h \<in> set hs" "contains ''Sec-WebSocket-Key'' h" "length h < 19"
  shows "parse_request (request_text verb target version hs @ NUL # rest) = None"
proof -
  have scan: "scan_headers hs' ab key = None" if "h \<in> set hs'" for hs' ab key
    using that
  proof (induction hs' arbitrary: ab key)
    case (Cons g hs')
    show ?case
    proof (cases "h = g")
      case True
      then show ?thesis using assms(6,7) by (simp add: substr_def)
    next
      case False
      then show ?thesis using Cons by (cases "contains ''Sec-WebSocket-Key'' g") (auto simp: bind_eq_None_conv substr_def)
    qed
  qed simp
  show ?thesis
    unfolding parse_request_def request_lines [OF assms(1-4), of rest] using assms(5) scan by (simp del: scan_headers.simps)
qed

theorem short_key_header_throws_witness:
  "parse_request (request_text ''GET'' ''/'' ''HTTP/1.1'' [''Sec-WebSocket-Key:''] @ [NUL]) = None"
  using short_key_header_throws [of "''GET''" "''/''" "''HTTP/1.1''" "[''Sec-WebSocket-Key:'']" "''Sec-WebSocket-Key:''" "[]"]
  by (simp add: word_of_line_def header_line_def)

section \<open>The headers of a response\<close>

text \<open>The text of the content length is a decimal number with the right value.\<close>

lemma digits_value_snoc: "digits_value (ds @ [c]) = digits_value ds * 10 + (of_char c - 48)"
  by (simp add: digits_value_def)

lemma digit_char: "m < 10 \<Longrightarrow> (of_char (char_of (48 + m :: nat)) :: int) = 48 + int m"
proof -
  assume "m < 10"
  then have "of_char (char_of (48 + m) :: char) = (48 + m :: nat)" by simp
  then show ?thesis by (metis of_nat_of_char of_nat_add of_nat_numeral)
qed

lemma to_string_value: "digits_value (to_string n) = int n"
proof (induction n rule: to_string.induct)
  case (1 n)
  show ?case
  proof (cases "n < 10")
    case True
    then show ?thesis using digit_char [of n] digits_value_snoc [of "[]"]
      by (subst to_string.simps) (simp add: digits_value_def)
  next
    case False
    have "digits_value (to_string n) = int (n div 10) * 10 + int (n mod 10)"
      using False 1 digit_char [of "n mod 10"] by (subst to_string.simps) (simp add: digits_value_snoc)
    then show ?thesis by (simp add: zdiv_int zmod_int)
  qed
qed

lemma to_string_digits: "to_string n \<noteq> [] \<and> list_all is_digit (to_string n)"
proof (induction n rule: to_string.induct)
  case (1 n)
  have "is_digit (char_of (48 + m))" if "m < 10" for m :: nat using that by (simp add: is_digit_def)
  then show ?case using 1 by (subst (1 2) to_string.simps) auto
qed

text \<open>The content type is that of what follows the last dot.\<close>

lemma tokens_after_dot:
  assumes "NUL \<notin> set x"
  shows "\<exists>ts. tokens ''.'' (x @ CHR ''.'' # y) = map_option (\<lambda>us. ts @ us) (tokens ''.'' y)"
  using assms
proof (induction "length x" arbitrary: x rule: less_induct)
  case less
  consider "x = []" | x' where "x = CHR ''.'' # x'" | c x' where "x = c # x'" "c \<noteq> CHR ''.''" by (cases x) auto
  then show ?case
  proof cases
    case 1
    then have "tokens ''.'' (x @ CHR ''.'' # y) = map_option (\<lambda>us. [] @ us) (tokens ''.'' y)"
      using tokens_skip [of "''.''" "''.''" y] by (cases "tokens ''.'' y") auto
    then show ?thesis by blast
  next
    case 2
    then show ?thesis using less tokens_skip [of "''.''" "''.''" "x' @ CHR ''.'' # y"] by simp
  next
    case 3
    define t where "t = takeWhile (\<lambda>c. c \<noteq> CHR ''.'') x"
    have t: "t \<noteq> []" "set t \<inter> insert NUL (set ''.'') = {}"
      using 3 less.prems by (auto simp: t_def dest: set_takeWhileD)
    have split: "x = t @ dropWhile (\<lambda>c. c \<noteq> CHR ''.'') x" by (simp add: t_def)
    show ?thesis
    proof (cases "dropWhile (\<lambda>c. c \<noteq> CHR ''.'') x")
      case Nil
      have x: "x = t" using split unfolding Nil by simp
      have "strtok_r ''.'' (t @ CHR ''.'' # y) = Some (Some t, y)"
        by (rule strtok_r_token(1) [OF t]) simp_all
      then have "tokens ''.'' (x @ CHR ''.'' # y) = map_option (\<lambda>us. [t] @ us) (tokens ''.'' y)"
        by (simp add: x tokens.simps [of _ "t @ CHR ''.'' # y"])
      then show ?thesis by blast
    next
      case (Cons d r)
      have d: "d = CHR ''.''" using hd_dropWhile [of "\<lambda>c. c \<noteq> CHR ''.''" x] Cons by auto
      have x: "x = t @ CHR ''.'' # r" using split unfolding Cons d .
      have st: "strtok_r ''.'' (t @ CHR ''.'' # (r @ CHR ''.'' # y)) = Some (Some t, r @ CHR ''.'' # y)"
        by (rule strtok_r_token(1) [OF t]) simp_all
      have "length r < length x" "NUL \<notin> set r" using less.prems by (simp_all add: x)
      then obtain ts where "tokens ''.'' (r @ CHR ''.'' # y) = map_option (\<lambda>us. ts @ us) (tokens ''.'' y)"
        using less.hyps by blast
      then have "tokens ''.'' (t @ CHR ''.'' # (r @ CHR ''.'' # y)) = map_option (\<lambda>us. (t # ts) @ us) (tokens ''.'' y)"
        using st by (subst tokens.simps) (cases "tokens ''.'' y"; simp)
      then show ?thesis unfolding x append_assoc append_Cons by (cases "tokens ''.'' y") auto
    qed
  qed
qed

lemma get_content_type_extension:
  assumes "NUL \<notin> set base" "ext \<noteq> []" "set ext \<inter> {NUL, CHR ''.''} = {}"
  shows "get_content_type (base @ ''.'' @ ext) = Some (content_type_of ext)"
proof -
  obtain ts where ts: "tokens ''.'' (base @ CHR ''.'' # (ext @ [NUL])) = map_option (\<lambda>us. ts @ us) (tokens ''.'' (ext @ [NUL]))"
    using tokens_after_dot [OF assms(1)] by blast
  have "strtok_r ''.'' (ext @ NUL # []) = Some (Some ext, [NUL])"
    by (rule strtok_r_token(2) [where d = "CHR ''.''"]) (use assms in auto)
  then have "tokens ''.'' (ext @ [NUL]) = Some [ext]"
    by (simp add: tokens.simps [of _ "ext @ [NUL]"] tokens.simps [of _ "[NUL]"] strtok_r_end)
  then show ?thesis using ts by (simp add: get_content_type_def)
qed


end
