(* ===== verification/Web_Runs.thy ===== *)
theory Web_Runs
  imports Web_Site Web_Cache_Props Ws_Codec_Props Http_Props
begin

text \<open>
  The states a web server on the plain TCP server reaches, and its broadcasts.
\<close>

section \<open>A small site\<close>

text \<open>
  A web server with an empty list queue and inotify descriptor 8, on a TCP server with descriptors
  3 to 6; every path opens as descriptor 9, a regular file of three bytes, and every file is watched
  under number 1.
\<close>

definition ex_env :: "message_post_data list web_env" where
  "ex_env = \<lparr>env_queue = list_queue, env_order = ascending, env_open = (\<lambda>_. 9),
     env_stat = (\<lambda>_. Some (Regular_file 3)), env_watch = (\<lambda>_. 1), env_sha1_base64 = id\<rparr>"

definition ex_channel :: "message_post_data list channel" where
  "ex_channel = \<lparr>to_server_queue = [], to_program_queue = [], tcp_server_set = True, server_efd = 0,
     server_kill = 0, central_efd = 0, central_communication_eventfd = 7\<rparr>"

definition ex_site_base :: "(unit, message_post_data list web) server" where
  "ex_site_base = add_timerfd_read_req (event_read 4 NOTIFICATION (event_read 5 KILL
     \<lparr>clients = [], active_connections = {}, freed_indexes = {}, inflight = {#}, multi_writes = [],
      closed_fds = [], notification_count = 0, kill_count = 0, listener_fd = 3,
      notification_efd = 4, kill_efd = 5, timerfd = 6, ran_server = False, is_active = True,
      custom_obj = new_web ex_channel 8\<rparr>))"

definition ex_site :: "(unit, message_post_data list web) server" where
  "ex_site = start (the (set_tcp_server ex_site_base))"

lemma ex_site_base_eq: "server_base 4 5 6 0 [ex_addr] (\<lambda>_. 0) (new_web ex_channel 8) = Inr ex_site_base"
  by (simp add: server_base_def setup_listener_def ex_addr_def ex_site_base_def event_read_def
      add_timerfd_read_req_def submit_def Let_def)

lemma ex_site_set: "\<exists>s1. set_tcp_server ex_site_base = Some s1 \<and> ex_site = start s1"
  by (simp add: ex_site_def set_tcp_server_def custom_read_req_def Let_def)

definition ex_thread :: thread_env where
  "ex_thread = \<lparr>th_notification_efd = 4, th_kill_efd = 5, th_timerfd = 6, th_getaddrinfo = (\<lambda>_. 0), th_addresses = (\<lambda>_. [ex_addr]),
     th_listen = (\<lambda>_. 0), th_ctx_ok = True, th_load_chain = (\<lambda>_. 1), th_load_key = (\<lambda>_. 1)\<rparr>"

lemma ex_site_runner: "plain_thread_server_runner [''PORT'' \<mapsto> ''80''] ex_thread (new_web ex_channel 8) = Some (Inr ex_site)"
proof -
  have "stoi ''80'' = Some 80" by code_simp
  then show ?thesis using ex_site_base_eq ex_site_set
    by (auto simp: plain_thread_server_runner_def plain_server_new_def config_value_def ex_thread_def)
qed

text \<open>The site with one connection, descriptor 7.\<close>

definition ex_site_conn :: "(unit, message_post_data list web) server" where
  "ex_site_conn = the (complete ascending (plain_derived (web_callbacks ex_env plain_ops)) (web_callbacks ex_env plain_ops)
     (\<lambda>_. 1) (Op_accept 3) (new_request ACCEPT) 7 [] ex_site)"

lemmas ex_site_defs = ex_site_def ex_site_base_def set_tcp_server_def custom_read_req_def new_web_def ex_channel_def
  start_def add_tcp_accept_req_def add_accept_req_def add_timerfd_read_req_def event_read_def submit_def new_request_def

lemma ex_site_accept:
  "complete ascending (plain_derived (web_callbacks ex_env plain_ops)) (web_callbacks ex_env plain_ops)
     (\<lambda>_. 1) (Op_accept 3) (new_request ACCEPT) 7 [] ex_site = Some ex_site_conn"
  "clients ex_site_conn = [plain_client\<lparr>sockfd := 7, read_req_active := True\<rparr>]" "active_connections ex_site_conn = {0}"
  "custom_obj ex_site_conn = (new_web ex_channel 8)\<lparr>tcp_clients := [new_tcp_client_value]\<rparr>"
  "inflight ex_site_conn = add_mset (Op_read 7 0 (int READ_SIZE) 0, ex_read_req (-1)) (inflight ex_site)"
  "is_active ex_site_conn" "closed_fds ex_site_conn = []" "inotify_fd (custom_obj ex_site) = 8"
  "notification_efd ex_site_conn = 4" "kill_efd ex_site_conn = 5"
  by (simp_all add: ex_site_conn_def complete_def fill_request_def consume_eventfd_def loop_body_def client_request_def
      plain_derived_def plain_handler_def handle_accept_def setup_client_def call0_def web_callbacks_def accept_callback_def
      on_web_def new_tcp_client_def vset_def vresize_def ex_read_req_def plain_client_def
      read_connection_def add_read_req_def upd_client_def vget_def vmod_def in_range_def ex_site_defs Let_def)

lemma ex_site_run: "web_run ex_env ex_site ex_site_conn"
proof (rule web_run.more [OF web_run.here])
  have o: "ascending = env_order ex_env" by (simp add: ex_env_def)
  show "web_step ex_env ex_site ex_site_conn"
    by (rule web_step.completion [OF _ _ _ _ _ ex_site_accept(1) [unfolded o]]) (auto simp: on_time_def ex_site_defs)
qed

lemma ex_site_conn_ok: "site_ok ex_site_conn"
  using web_run_site [OF ex_site_run runner_site [OF ex_site_runner] ex_site_accept(6)] .

section \<open>What holds in every state\<close>



section \<open>Broadcasts\<close>

lemma broadcast_loop_unsent:
  assumes "plain_inv s" "set idxs \<subseteq> active_connections s" "distinct idxs" "p \<noteq> Nullptr" "0 \<le> n" "n < 2 ^ 32"
    and "broadcast_ptr_loop p n info idxs s = Some t" "j \<in> active_connections s"
  shows "unsent (inflight t) j (clients t ! nat j) = unsent (inflight s) j (clients s ! nat j) @
    (if j \<in> set idxs then take (nat n) (ptr_bytes p) else [])"
  using assms
proof (induction idxs arbitrary: s)
  case Nil
  then show ?case by simp
next
  case (Cons i rest)
  let ?wd = "write_data_ptr p n True info"
  have v: "multi_write_data ?wd = None" "entry_view ?wd = (p, n)"
    using Cons.prems(4) by (simp_all add: write_data_ptr_def entry_view_def)
  obtain s1 where s1: "push_write i ?wd p n s = Some s1" "plain_inv s1" "same_frame s s1"
    using push_write_ok [OF Cons.prems(1) _ v] Cons.prems(2) by auto
  have rest: "broadcast_ptr_loop p n info rest s1 = Some t"
    using Cons.prems(7) s1(1) by (simp add: broadcast_ptr_loop_push del: broadcast_ptr_loop.simps)
  have j0: "0 \<le> j" using Cons.prems(1,8) by (auto simp: plain_inv_at_def in_range_def dest: plain_ok_active)
  have first: "unsent (inflight s1) j (clients s1 ! nat j) = unsent (inflight s) j (clients s ! nat j) @
      (if j = i then take (nat n) (ptr_bytes p) else [])"
  proof (cases "j = i")
    case True
    then show ?thesis
      using push_write_unsent [OF Cons.prems(1,8) v s1(1) [folded True]] entry_bytes_ptr [OF Cons.prems(4-6)] by simp
  next
    case False
    then show ?thesis using push_write_others [OF s1(1) False j0] by simp
  qed
  have "unsent (inflight t) j (clients t ! nat j) = unsent (inflight s1) j (clients s1 ! nat j) @
      (if j \<in> set rest then take (nat n) (ptr_bytes p) else [])"
    by (rule Cons.IH [OF s1(2) _ _ Cons.prems(4-6) rest]) (use Cons.prems(2,3,8) s1(3) in \<open>auto simp: same_frame_def\<close>)
  then show ?case using first Cons.prems(3) by auto
qed

text \<open>C19. A broadcast reaches every WebSocket once. When the server thread reads a notification, the
  message at the front of its queue is appended behind everything still to be sent to each
  WebSocket, nothing is added for the other connections, and the item is recorded with one use per
  WebSocket; without WebSockets the program thread is told at once that it is finished.\<close>

theorem broadcast_reaches_websockets:
  assumes "site_ok s" "w = custom_obj s" "A = active_websocket_connections w"
    and "q_try_dequeue (env_queue E) (to_server_queue (web_channel w)) = Some (m, q)"
    and "msg_buff_ptr m \<noteq> Nullptr" "0 \<le> msg_length m" "msg_length m < 2 ^ 32"
    and "0 \<le> msg_item_idx m" "msg_item_idx m < 2 ^ 63"
  shows "\<exists>t. event_callback E plain_ops s = Some t \<and> site_ok t \<and>
    (\<forall>i\<in>active_connections s. unsent (inflight t) i (clients t ! nat i) = unsent (inflight s) i (clients s ! nat i) @
       (if i \<in> A then take (nat (msg_length m)) (ptr_bytes (msg_buff_ptr m)) else [])) \<and>
    to_server_queue (web_channel (custom_obj t)) = q \<and>
    (if A = {} then web_channel (custom_obj t) = post_message_to_program (env_queue E) broadcast_finished (msg_buff_ptr m)
         (msg_length m) (msg_item_idx m) (u64 (-1)) ((web_channel w)\<lparr>to_server_queue := q\<rparr>)
     else vget (broadcast_data (custom_obj t)) (msg_item_idx m) =
       Some \<lparr>bd_buff_ptr = msg_buff_ptr m, bd_data_len = msg_length m, bd_uses = int (card A)\<rparr>)"
proof -
  have A: "A \<subseteq> active_connections s" "finite A" using assms(1-3) by (auto simp: site_ok_def web_ok_def)
  have msg: "get_from_to_server_queue (env_queue E) (web_channel w) = (m, (web_channel w)\<lparr>to_server_queue := q\<rparr>)"
    using assms(4) by (simp add: get_from_to_server_queue_def)
  let ?idx = "msg_item_idx m" and ?ch = "(web_channel w)\<lparr>to_server_queue := q\<rparr>"
  define vec where "vec = (if int (length (broadcast_data w)) \<le> u64 ?idx
      then vresize (nat (u64 (?idx + 1))) new_broadcast_data_items (broadcast_data w) else broadcast_data w)"
  have idx: "in_range vec ?idx" using assms(8,9) by (auto simp: vec_def in_range_def u64_small)
  have p: "posted E (custom_obj s)" using assms(2,4,5) by (simp add: posted_def)
  show ?thesis
  proof (cases "A = {}")
    case True
    then show ?thesis
      using assms(1-3) msg event_callback_site [OF assms(1) p]
      by (auto simp: event_callback_def Let_def post_message_to_program_def)
  next
    case False
    define item where "item = \<lparr>bd_buff_ptr = msg_buff_ptr m, bd_data_len = msg_length m, bd_uses = int (card A)\<rparr>"
    let ?s = "s\<lparr>custom_obj := w\<lparr>web_channel := ?ch, broadcast_data := vec[nat ?idx := item]\<rparr>\<rparr>"
    have inv: "plain_inv ?s" using assms(1) by (simp add: site_ok_def)
    have L: "set (uord_list (env_order E) A) \<subseteq> active_connections ?s" "distinct (uord_list (env_order E) A)" using A by auto
    obtain t where t: "broadcast_message_ptr (uord_list (env_order E) A) (int (card A)) (msg_buff_ptr m) (msg_length m) ?idx ?s = Some t"
      "same_frame ?s t"
      using broadcast_message_ptr_ok [OF inv L(1) assms(5)] by blast
    have card: "card A > 0" using False A(2) by (simp add: card_gt_0_iff)
    then have loop: "broadcast_ptr_loop (msg_buff_ptr m) (msg_length m) ?idx (uord_list (env_order E) A) ?s = Some t"
      using t(1) by (simp add: broadcast_message_ptr_def)
    have run: "event_callback E plain_ops s = Some t"
      using t(1) card msg idx unfolding event_callback_def assms(2) [symmetric] assms(3) [symmetric] Let_def msg prod.case vec_def [symmetric]
      by (simp add: vset_in_range plain_ops_def item_def)
    have obj: "custom_obj t = custom_obj ?s" using t(2) by (simp add: same_frame_def)
    have "unsent (inflight t) i (clients t ! nat i) = unsent (inflight s) i (clients s ! nat i) @
       (if i \<in> A then take (nat (msg_length m)) (ptr_bytes (msg_buff_ptr m)) else [])" if "i \<in> active_connections s" for i
      using broadcast_loop_unsent [OF inv L assms(5-7) loop, of i] that A(2) by simp
    then show ?thesis
      using run event_callback_site [OF assms(1) p run] obj idx False
      by (auto simp: item_def vget_in_range in_range_nat)
  qed
qed

text \<open>The small site with its connection turned into a WebSocket, and a message posted.\<close>

definition ex_message :: message_post_data where
  "ex_message = \<lparr>msg_type = websocket_broadcast, msg_buff_ptr = Ptr (Store_slot 0) [1, 2, 3], msg_length = 3,
     msg_item_idx = 0, msg_additional_info = 0\<rparr>"

definition ex_ws_web :: "message_post_data list web" where
  "ex_ws_web = (new_web ex_channel 8)\<lparr>tcp_clients := [new_tcp_client_value\<lparr>ws_client_idx := 0\<rparr>],
     websocket_clients := [new_ws_client_value\<lparr>ws_tcp_idx := 0\<rparr>], all_websocket_connections := {0},
     active_websocket_connections := {0}, web_channel := ex_channel\<lparr>to_server_queue := [ex_message]\<rparr>\<rparr>"

definition ex_ws_site :: "(unit, message_post_data list web) server" where
  "ex_ws_site = ex_site_conn\<lparr>custom_obj := ex_ws_web\<rparr>"

lemma ex_ws_site_ok: "site_ok ex_ws_site"
  using ex_site_conn_ok ex_site_accept(2,3) new_cache_watch_ok [of 5]
  by (simp add: ex_ws_site_def ex_ws_web_def new_web_def new_ws_client_value_def site_ok_def web_ok_def ws_linked_def in_range_def)

theorem broadcast_reaches_websockets_witness:
  "\<exists>t. event_callback ex_env plain_ops ex_ws_site = Some t \<and>
     unsent (inflight t) 0 (clients t ! 0) = unsent (inflight ex_ws_site) 0 (clients ex_ws_site ! 0) @ [1, 2, 3]"
proof -
  have "q_try_dequeue (env_queue ex_env) (to_server_queue (web_channel ex_ws_web)) = Some (ex_message, [])"
    by (simp add: ex_env_def list_queue_def ex_ws_web_def)
  moreover have "ex_ws_web = custom_obj ex_ws_site" by (simp add: ex_ws_site_def)
  ultimately obtain t where t: "event_callback ex_env plain_ops ex_ws_site = Some t"
    "\<forall>i\<in>active_connections ex_ws_site. unsent (inflight t) i (clients t ! nat i) =
       unsent (inflight ex_ws_site) i (clients ex_ws_site ! nat i) @
       (if i \<in> active_websocket_connections ex_ws_web then take (nat (msg_length ex_message)) (ptr_bytes (msg_buff_ptr ex_message)) else [])"
    using broadcast_reaches_websockets [OF ex_ws_site_ok, of ex_ws_web _ ex_env ex_message "[]", OF _ refl]
    by (fastforce simp: ex_message_def simp del: ball_simps)
  have "0 \<in> active_connections ex_ws_site" "0 \<in> active_websocket_connections ex_ws_web"
    using ex_site_accept(3) by (simp_all add: ex_ws_site_def ex_ws_web_def)
  then show ?thesis using t(1) bspec [OF t(2), of 0] by (simp add: ex_message_def)
qed

end
