(* ===== verification/Web_Requests.thy ===== *)
theory Web_Requests
  imports Web_Runs
begin

text \<open>
  From the bytes of a request to the bytes of the answer: the read callback on a well-formed GET
  request, the WebSocket handshake, and a file that is read from disk and sent.
\<close>

section \<open>A request in the read buffer\<close>

lemma unat_of_char: "unat (of_char c :: 8 word) = of_char c"
proof -
  have "unat (word_of_nat (of_char c) :: 8 word) = take_bit 8 (of_char c)" by (simp only: unat_of_nat take_bit_nat_def) simp
  also have "\<dots> = of_char c" using nat_of_char_less_256 [of c] by (simp add: take_bit_nat_def)
  finally show ?thesis by (simp only: of_nat_of_char)
qed

lemma str_of_bytes_of [simp]: "str_of (bytes_of x) = x"
  by (simp add: str_of_def bytes_of_def comp_def unat_of_char)

lemma str_of_buffer: "str_of (bytes_of x @ 0 # rest) = x @ NUL # str_of rest"
proof -
  have "str_of (bytes_of x @ 0 # rest) = str_of (bytes_of x) @ char_of (0 :: nat) # str_of rest" by (simp add: str_of_def)
  moreover have "char_of (0 :: nat) = NUL" by (simp add: char_of_def)
  ultimately show ?thesis by simp
qed

lemma GET_request_valid:
  assumes "16 \<le> len" "3 \<le> length (target @ version)"
  shows "is_valid_http_req (request_text ''GET'' target version hs @ rest) len = Some True"
proof -
  let ?b = "request_text ''GET'' target version hs @ rest"
  have "take (length ''GET '') ?b = ''GET ''" by (simp add: request_text_def)
  moreover have "''GET '' \<in> set http_types" by (simp add: http_types_def)
  ultimately have m: "\<exists>t\<in>set http_types. take (length t) ?b = t" by (rule bexI)
  have "7 \<le> length ?b" using assms(2) by (simp add: request_text_def)
  then show ?thesis using m http_req_by_method [OF assms(1)] by (simp only: simp_thms)
qed

text \<open>The read callback on a GET request hands it to \<open>get_process\<close>.\<close>

lemma read_callback_GET:
  assumes "word_of_line target" "word_of_line version" "\<forall>h\<in>set hs. header_line h" "16 \<le> len" "3 \<le> length (target @ version)"
    and "\<forall>h\<in>set ((''GET '' @ target @ '' '' @ version) # hs). contains ''Sec-WebSocket-Key'' h \<longrightarrow> 19 \<le> length h"
    and "lines = (''GET '' @ target @ '' '' @ version) # hs"
  shows "read_callback E T i (bytes_of (request_text ''GET'' target version hs) @ 0 # rest) len s = do {
     (ok, s) \<leftarrow> get_process E T (drop 1 target) (\<exists>h\<in>set lines. contains ''Range: bytes='' h) (ws_key lines '''') i s;
     if \<not> ok then map_option snd (send_file_request E T i ''public/404.html'' False 400 s)
     else if i \<in> active_websocket_connections (custom_obj s) then read_connection i s
     else Some s }"
proof -
  have "word_of_line ''GET''" by (simp add: word_of_line_def)
  from parse_request_text [OF this assms(1-3), of "str_of rest"] show ?thesis
    unfolding read_callback_def str_of_buffer
    using GET_request_valid [OF assms(4,5), of hs "NUL # str_of rest"] assms(6,7) by simp
qed

section \<open>The WebSocket handshake\<close>

lemma new_ws_client_defined: "web_ok n A w \<Longrightarrow> \<exists>k w1. new_ws_client i w = Some (k, w1)"
proof (cases "ws_freed_indexes w = {}")
  case True
  then show ?thesis by (auto simp: new_ws_client_def vmod_def in_range_def)
next
  case False
  assume "web_ok n A w"
  then have "in_range (websocket_clients w) (Min (ws_freed_indexes w))" using False by (simp add: web_ok_def)
  then show ?thesis using False by (simp add: new_ws_client_def Let_def vec_simps)
qed

lemma websocket_accept_result:
  assumes ok: "site_ok s" and i: "i \<in> active_connections s"
  shows "\<exists>t. websocket_accept_read_cb E plain_ops key i s = Some t \<and> site_ok t \<and> active_connections t = active_connections s \<and> is_active t = is_active s \<and>
    i \<in> active_websocket_connections (custom_obj t) \<and>
    ws_client_idx (tcp_clients (custom_obj t) ! nat i) \<in> all_websocket_connections (custom_obj t) \<and>
    unsent (inflight t) i (clients t ! nat i) = unsent (inflight s) i (clients s ! nat i) @
      bytes_of (upgrade_response (env_sha1_base64 E) key)"
proof -
  let ?b = "bytes_of (upgrade_response (env_sha1_base64 E) key)"
  have w: "web_ok (length (clients s)) (active_connections s) (custom_obj s)" and inv: "plain_inv s"
    using ok by (auto simp: site_ok_def)
  obtain k w1 where k: "new_ws_client i (custom_obj s) = Some (k, w1)" using new_ws_client_defined [OF w] by blast
  have same: "tcp_clients w1 = tcp_clients (custom_obj s)"
    "active_websocket_connections w1 = insert i (active_websocket_connections (custom_obj s))"
    using new_ws_client_links(1) [OF w k] by simp_all
  have all: "k \<in> all_websocket_connections w1" using k by (auto simp: new_ws_client_def bind_Some_iff)
  have r: "in_range (tcp_clients (custom_obj s)) i" using site_active_range [OF ok i] by simp
  define u where "u = s\<lparr>custom_obj := w1\<lparr>tcp_clients := (tcp_clients w1)[nat i := (tcp_clients w1 ! nat i)\<lparr>ws_client_idx := k\<rparr>]\<rparr>\<rparr>"
  have "int (length ?b) < 2 ^ 32" by (simp add: bytes_of_def upgrade_response_def get_accept_header_value_def)
  then obtain t where t: "write_connection_vec i ?b u = Some t" "same_frame u t"
    "unsent (inflight t) i (clients t ! nat i) = unsent (inflight s) i (clients s ! nat i) @ ?b"
    using write_vec_unsent [of u i ?b] inv i by (auto simp: u_def)
  have run: "websocket_accept_read_cb E plain_ops key i s = Some t"
    using k t(1) same(1) r by (simp add: websocket_accept_read_cb_def Let_def vmod_in_range plain_ops_def u_def)
  then show ?thesis
    using websocket_accept_kept [OF ok i run] t(2,3) same all r by (auto simp: kept_def same_frame_def u_def in_range_nat)
qed

lemma read_connection_unsent:
  assumes "read_connection i s = Some t" "in_range (clients s) i"
  shows "unsent (inflight t) i (clients t ! nat i) = unsent (inflight s) i (clients s ! nat i)" "custom_obj t = custom_obj s"
proof -
  have "filter_mset (is_write i) (inflight t) = filter_mset (is_write i) (inflight s) \<and>
      send_data (clients t ! nat i) = send_data (clients s ! nat i)" "custom_obj t = custom_obj s"
    using assms
    by (cases "read_req_active (clients s ! nat i)"; auto simp: read_connection_def add_read_req_def upd_client_def vec_simps submit_def is_write_def new_request_def in_range_nat Let_def)+
  then show "unsent (inflight t) i (clients t ! nat i) = unsent (inflight s) i (clients s ! nat i)" "custom_obj t = custom_obj s"
    by (simp_all only: unsent_def)
qed

lemma is_ws_request_ws: "is_ws_request ''ws'' key = Some (key \<noteq> '''')"
  by (simp add: is_ws_request_def strtok_r_def)

lemma handshake_result:
  assumes "site_ok s" "i \<in> active_connections s" "16 \<le> len"
    and "word_of_line version" "\<forall>h\<in>set hs. header_line h"
    and "\<forall>h\<in>set ((''GET /ws '' @ version) # hs). contains ''Sec-WebSocket-Key'' h \<longrightarrow> 19 \<le> length h"
    and "key = ws_key ((''GET /ws '' @ version) # hs) ''''" "key \<noteq> ''''"
    and "buffer = bytes_of (request_text ''GET'' ''/ws'' version hs) @ 0 # rest"
  shows "\<exists>t. read_callback E plain_ops i buffer len s = Some t \<and> site_ok t \<and> is_active t = is_active s \<and>
    i \<in> active_websocket_connections (custom_obj t) \<and> active_connections t = active_connections s \<and>
    ws_client_idx (tcp_clients (custom_obj t) ! nat i) \<in> all_websocket_connections (custom_obj t) \<and>
    unsent (inflight t) i (clients t ! nat i) = unsent (inflight s) i (clients s ! nat i) @
      bytes_of (upgrade_response (env_sha1_base64 E) key)"
proof -
  obtain u where u: "websocket_accept_read_cb E plain_ops key i s = Some u" "site_ok u" "active_connections u = active_connections s" "is_active u = is_active s"
    "i \<in> active_websocket_connections (custom_obj u)"
    "ws_client_idx (tcp_clients (custom_obj u) ! nat i) \<in> all_websocket_connections (custom_obj u)"
    "unsent (inflight u) i (clients u ! nat i) = unsent (inflight s) i (clients s ! nat i) @ bytes_of (upgrade_response (env_sha1_base64 E) key)"
    using websocket_accept_result [OF assms(1,2)] by blast
  have r: "in_range (clients u) i" using site_active_range [OF u(2)] u(3) assms(2) by simp
  then obtain t where t: "read_connection i u = Some t" "same_frame u t" using read_connection_ok [of u i] u(2) by (auto simp: site_ok_def)
  have "word_of_line ''/ws''" by (simp add: word_of_line_def)
  from read_callback_GET [OF this assms(4,5,3) _ _ refl, of E plain_ops i rest s]
  have "read_callback E plain_ops i buffer len s = Some t"
    using assms(6-9) u(1,5) t by (simp add: get_process_def is_ws_request_ws)
  moreover have "steady u t" by (rule read_connection_steady [OF u(2) _ t(1)]) (use u(3) assms(2) in simp)
  ultimately show ?thesis
    using u t(2) read_connection_unsent [OF t(1) r] assms(2) by (auto simp: steady_def kept_def same_frame_def)
qed


text \<open>C10. The WebSocket handshake: a well-formed GET request for \<open>/ws\<close> with a key, read from an open
  connection, whatever else is in the buffer behind it, makes the connection a WebSocket that receives
  broadcasts, queues for it exactly the upgrade response with the accept value computed from the key,
  and keeps both layers consistent.\<close>

theorem websocket_handshake:
  assumes "site_ok s" "i \<in> active_connections s" "16 \<le> len"
    and "word_of_line version" "\<forall>h\<in>set hs. header_line h"
    and "\<forall>h\<in>set ((''GET /ws '' @ version) # hs). contains ''Sec-WebSocket-Key'' h \<longrightarrow> 19 \<le> length h"
    and "key = ws_key ((''GET /ws '' @ version) # hs) ''''" "key \<noteq> ''''"
    and "buffer = bytes_of (request_text ''GET'' ''/ws'' version hs) @ 0 # rest"
  shows "\<exists>t. read_callback E plain_ops i buffer len s = Some t \<and> site_ok t \<and>
    i \<in> active_websocket_connections (custom_obj t) \<and> i \<in> active_connections t \<and>
    unsent (inflight t) i (clients t ! nat i) = unsent (inflight s) i (clients s ! nat i) @
      bytes_of (upgrade_response (env_sha1_base64 E) key)"
  using handshake_result [OF assms] assms(2) by auto

text \<open>A handshake on the small site.\<close>

definition ex_handshake :: string where
  "ex_handshake = request_text ''GET'' ''/ws'' ''HTTP/1.1'' [''Sec-WebSocket-Key: abcd'']"

lemmas ex_handshake_facts = word_of_line_def header_line_def ws_key_def

theorem websocket_handshake_witness:
  "\<exists>t. read_callback ex_env plain_ops 0 (bytes_of ex_handshake @ [0]) 50 ex_site_conn = Some t \<and>
     0 \<in> active_websocket_connections (custom_obj t) \<and>
     unsent (inflight t) 0 (clients t ! 0) = unsent (inflight ex_site_conn) 0 (clients ex_site_conn ! 0) @
       bytes_of (upgrade_response id ''abcd'')"
  using websocket_handshake [of ex_site_conn 0 50 "''HTTP/1.1''" "[''Sec-WebSocket-Key: abcd'']" "''abcd''" _ "[]" ex_env, OF _ _ _ _ _ _ _ _ refl]
    ex_site_conn_ok ex_site_accept(3)
  by (auto simp: ex_handshake_facts ex_handshake_def ex_env_def)


section \<open>A file\<close>

text \<open>
  The state of the cache and of the clients' use of it corresponds to the abstract store \<open>l\<close> of
  \<open>Web_Cache_Lru\<close>.
\<close>

definition cache_is :: "lru \<Rightarrow> 'q web \<Rightarrow> bool" where
  "cache_is l w \<longleftrightarrow> (\<exists>tc. cache_sim 5 (web_cache w, tc) l \<and>
     (\<forall>i. in_range (tcp_clients w) i \<longrightarrow> using_file (tc i) = using_file (tcp_clients w ! nat i)))"

lemma cache_sim_clients:
  "cache_sim N (c, tc) l \<Longrightarrow> (\<And>i. using_file (tc' i) = using_file (tc i)) \<Longrightarrow> cache_sim N (c, tc') l"
  by (simp add: cache_sim_def sim_clients_def)

text \<open>With the client's own record in place.\<close>

lemma cache_is_client:
  assumes "cache_is l w" "in_range (tcp_clients w) i" "using_file c = using_file (tcp_clients w ! nat i)"
  obtains tc where "cache_sim 5 (web_cache w, tc) l" "tc i = c"
proof -
  obtain tc where tc: "cache_sim 5 (web_cache w, tc) l" "using_file (tc i) = using_file (tcp_clients w ! nat i)"
    using assms(1,2) by (auto simp: cache_is_def)
  have "cache_sim 5 (web_cache w, tc(i := c)) l" by (rule cache_sim_clients [OF tc(1)]) (use assms(3) tc(2) in simp)
  then show thesis using that by simp
qed

lemma cache_is_miss:
  "cache_is l w \<Longrightarrow> map_of (lru_entries l) p = None \<Longrightarrow> filepath_to_cache_idx (web_cache w) p = None"
  by (auto simp: cache_is_def cache_sim_def sim_lookup)

lemma sim_stale: "cache_sim N s l \<Longrightarrow> lru_stale l \<subseteq> fst ` set (lru_entries l)"
  by (auto simp: cache_sim_def sim_items_def sim_entries_def image_image)

text \<open>Inserting a file and fetching it back, as the file callback does.\<close>

lemma insert_fetch:
  assumes sim: "cache_sim 5 (c, tc) l" and put: "lru_step 5 (Put i wd p b) l = Some (l1, Inserted ins)"
    and idle: "lru_holder l i = None"
  shows "\<exists>c1. try_insert_item ord wd i p b c = Some (c1, ins) \<and>
    (ins \<longrightarrow> (\<exists>c2 t r. fetch_item p i (tc i) c1 = Some (c2, t, r) \<and> found r \<and>
       take (nat (fetch_size r)) (ptr_bytes (fetch_buff r)) = b \<and> fetch_size r = int (length b)))"
proof -
  obtain s1 where s1: "cache_step ord (Put i wd p b) (c, tc) = Some (s1, Inserted ins)" "cache_sim 5 s1 l1"
    using step_sim [OF sim _ _ put] by force
  then obtain c1 where c1: "try_insert_item ord wd i p b c = Some (c1, ins)" "s1 = (c1, tc)" by (auto simp: bind_Some_iff)
  have "\<exists>c2 t r. fetch_item p i (tc i) c1 = Some (c2, t, r) \<and> found r \<and>
       take (nat (fetch_size r)) (ptr_bytes (fetch_buff r)) = b \<and> fetch_size r = int (length b)" if ins
  proof -
    have none: "map_of (lru_entries l) p = None" using put by (auto split: if_splits)
    then have stale: "p \<notin> lru_stale l" using sim_stale [OF sim] by (auto simp: map_of_eq_None_iff)
    have "map_of (tl (lru_entries l)) p = None" using none by (cases "lru_entries l") (auto split: if_splits)
    then have l1: "map_of (lru_entries l1) p = Some b" "p \<notin> lru_stale l1" "lru_holder l1 i = None"
      using put that idle stale by (auto simp: Let_def map_add_def split: if_splits)
    then obtain l2 where "lru_step 5 (Fetch p i) l1 = Some (l2, Found b)" by simp
    then obtain s2 where "cache_step ord (Fetch p i) (c1, tc) = Some (s2, Found b)"
      using step_sim [OF s1(2) _ _, of "Fetch p i"] c1(2) by force
    then obtain c2 t r where f: "fetch_item p i (tc i) c1 = Some (c2, t, r)" "found r"
      "take (nat (fetch_size r)) (ptr_bytes (fetch_buff r)) = b"
      by (auto simp: bind_Some_iff split: if_splits)
    moreover have "fetch_size r = int (length (ptr_bytes (fetch_buff r)))"
      using f by (auto simp: fetch_item_def found_item_def not_found_def bind_Some_iff Let_def split: option.splits if_splits)
    ultimately show ?thesis by auto
  qed
  then show ?thesis using c1(1) by blast
qed


text \<open>The file callback appends exactly the bytes it was given, from the cache or not.\<close>

lemma custom_read_callback_sends:
  assumes ok: "site_ok s" and i: "i \<in> active_connections s" and fd: "fd \<noteq> inotify_fd (custom_obj s)"
    and p: "p = last_requested_read_filepath (tcp_clients (custom_obj s) ! nat i)"
    and sim: "cache_is l (custom_obj s)" and put: "lru_step 5 (Put i (env_watch E p) p b) l = Some (l1, Inserted ins)"
    and idle: "lru_holder l i = None" and len: "int (length b) < 2 ^ 32"
  shows "\<exists>t. custom_read_callback E plain_ops i fd b s = Some t \<and> site_ok t \<and> closed_fds t = closed_fds s @ [fd] \<and>
    unsent (inflight t) i (clients t ! nat i) = unsent (inflight s) i (clients s ! nat i) @ b"
proof -
  let ?w = "custom_obj s"
  have r: "in_range (tcp_clients ?w) i" using site_active_range [OF ok i] by simp
  obtain tc where tc: "cache_sim 5 (web_cache ?w, tc) l" "tc i = tcp_clients ?w ! nat i"
    by (rule cache_is_client [OF sim r refl])
  obtain c1 where c1: "try_insert_item (env_order E) (env_watch E p) i p b (web_cache ?w) = Some (c1, ins)"
    "ins \<longrightarrow> (\<exists>c2 t r. fetch_item p i (tc i) c1 = Some (c2, t, r) \<and> found r \<and>
       take (nat (fetch_size r)) (ptr_bytes (fetch_buff r)) = b \<and> fetch_size r = int (length b))"
    using insert_fetch [OF tc(1) put idle] by blast
  have "\<exists>t. custom_read_callback E plain_ops i fd b s = Some t \<and> closed_fds t = closed_fds s @ [fd] \<and>
    unsent (inflight t) i (clients t ! nat i) = unsent (inflight s) i (clients s ! nat i) @ b"
  proof (cases ins)
    case True
    then obtain c2 t r where f: "fetch_item p i (tcp_clients ?w ! nat i) c1 = Some (c2, t, r)" "found r"
      "take (nat (fetch_size r)) (ptr_bytes (fetch_buff r)) = b" "fetch_size r = int (length b)"
      using c1(2) tc(2) by metis
    define u where "u = s\<lparr>closed_fds := closed_fds s @ [fd],
      custom_obj := ?w\<lparr>web_cache := c2, tcp_clients := (tcp_clients ?w)[nat i := t]\<rparr>\<rparr>"
    have u: "plain_inv u" "i \<in> active_connections u" using ok i by (simp_all add: u_def site_ok_def)
    have "0 \<le> fetch_size r" "fetch_size r < 2 ^ 32" using f(4) len by simp_all
    from write_ptr_unsent [OF u fetch_item_found [OF f(1,2)] this, unfolded f(3)]
    obtain v where v: "write_connection_ptr i (fetch_buff r) (fetch_size r) u = Some v" "closed_fds v = closed_fds u"
      "unsent (inflight v) i (clients v ! nat i) = unsent (inflight u) i (clients u ! nat i) @ b"
      by blast
    have "custom_read_callback E plain_ops i fd b s = Some v"
      using v(1) fd r c1(1) f(1) True
      by (simp add: custom_read_callback_def Let_def vec_simps plain_ops_def u_def p [symmetric])
    then show ?thesis using v(2,3) by (simp add: u_def)
  next
    case False
    define u where "u = s\<lparr>closed_fds := closed_fds s @ [fd], custom_obj := ?w\<lparr>web_cache := c1\<rparr>\<rparr>"
    have "plain_inv u" "i \<in> active_connections u" using ok i by (simp_all add: u_def site_ok_def)
    from write_vec_unsent [OF this len]
    obtain v where v: "write_connection_vec i b u = Some v" "closed_fds v = closed_fds u"
      "unsent (inflight v) i (clients v ! nat i) = unsent (inflight u) i (clients u ! nat i) @ b"
      by blast
    have "custom_read_callback E plain_ops i fd b s = Some v"
      using v(1) fd r c1(1) False by (simp add: custom_read_callback_def Let_def vec_simps plain_ops_def u_def p [symmetric])
    then show ?thesis using v(2,3) by (simp add: u_def)
  qed
  then show ?thesis using custom_read_callback_site [OF ok] i by blast
qed


text \<open>A request for a file that is not cached starts a read of the file behind the headers.\<close>

lemma send_file_miss:
  assumes ok: "site_ok s" and i: "i \<in> active_connections s" and miss: "filepath_to_cache_idx (web_cache (custom_obj s)) p = None"
    and fd: "fd = env_open E p" "0 \<le> fd" "env_stat E fd = Some (Regular_file (int (length content)))"
    and ct: "get_content_type p = Some ct"
    and h: "hdr = bytes_of (response_headers code ct (to_string (length content)) ab False)"
    and len: "int (length hdr + length content) < 2 ^ 63"
  shows "\<exists>e r. send_file_request E plain_ops i p ab code s = Some (True, submit e r (s\<lparr>custom_obj := (custom_obj s)
      \<lparr>tcp_clients := (tcp_clients (custom_obj s))[nat i := (tcp_clients (custom_obj s) ! nat i)\<lparr>last_requested_read_filepath := p\<rparr>]\<rparr>\<rparr>)) \<and>
    file_read fd hdr content 0 e r \<and> rq_client_idx r = i"
proof -
  let ?w = "custom_obj s"
  let ?h = "response_headers code ct (to_string (length content)) ab False"
  let ?s = "s\<lparr>custom_obj := ?w\<lparr>tcp_clients := (tcp_clients ?w)[nat i := (tcp_clients ?w ! nat i)\<lparr>last_requested_read_filepath := p\<rparr>]\<rparr>\<rparr>"
  have r: "in_range (tcp_clients ?w) i" using site_active_range [OF ok i] by simp
  have lh: "length ?h = length hdr" using h by (simp add: bytes_of_def)
  have size: "u64 (int (length content)) = int (length content)"
    "u64 (int (length content) + int (length hdr)) = int (length hdr + length content)"
    using len by (auto simp: u64_small)
  obtain e r where er: "custom_read_req fd (int (length content)) i (hdr @ replicate (length content) 0) (int (length hdr)) ?s =
      Some (submit e r ?s)" "file_read fd hdr content 0 e r" "rq_client_idx r = i"
    using custom_read_req_starts [OF len, of fd i ?s] by blast
  have "send_file_request E plain_ops i p ab code s = Some (True, submit e r ?s)"
    using er(1) fd ct miss r lh size h
    by (simp add: send_file_request_def get_file_size_def fetch_item_def not_found_def vec_simps Let_def in_range_nat nat_int_add)
  then show ?thesis using er by blast
qed

lemma consume_eventfd_fds [simp]: "closed_fds (consume_eventfd e res s) = closed_fds s"
  by (auto simp: consume_eventfd_def split: sqe.splits)


lemma cache_is_request:
  assumes "cache_is l w" "in_range (tcp_clients w) i"
  shows "cache_is l (w\<lparr>tcp_clients := (tcp_clients w)[nat i := (tcp_clients w ! nat i)\<lparr>last_requested_read_filepath := p\<rparr>]\<rparr>)"
proof -
  have "using_file ((tcp_clients w)[nat i := (tcp_clients w ! nat i)\<lparr>last_requested_read_filepath := p\<rparr>] ! nat j) =
      using_file (tcp_clients w ! nat j)" if "in_range (tcp_clients w) j" for j
    using that assms(2) by (cases "j = i") (auto simp: nth_nat_update in_range_nat)
  then show ?thesis using assms(1) by (auto simp: cache_is_def)
qed

text \<open>C9. A file is served, from the bytes of the request to the bytes of the answer. A well-formed GET
  request for a file that is not in the cache starts one read of the file; when the kernel completes
  it, the connection is sent exactly the response headers (status line, content type by extension,
  decimal content length) followed by the content of the file, whether or not the cache had room
  for it, and the descriptor of the file is closed.\<close>

theorem file_request_served:
  assumes "site_ok s" "i \<in> active_connections s" "i \<notin> active_websocket_connections (custom_obj s)" "16 \<le> len"
    and "word_of_line target" "word_of_line version" "\<forall>h\<in>set hs. header_line h" "3 \<le> length (target @ version)"
    and "lines = (''GET '' @ target @ '' '' @ version) # hs"
    and "\<forall>h\<in>set lines. contains ''Sec-WebSocket-Key'' h \<longrightarrow> 19 \<le> length h"
    and "is_ws_request (drop 1 target) (ws_key lines '''') = Some False" "p = file_path (drop 1 target)"
    and "fd = env_open E p" "0 \<le> fd" "fd < 2 ^ 31" "fd \<noteq> inotify_fd (custom_obj s)"
    and "env_stat E fd = Some (Regular_file (int (length content)))" "content \<noteq> []" "length content \<le> READ_SIZE"
    and "get_content_type p = Some ctype"
    and "hdr = bytes_of (response_headers 200 ctype (to_string (length content)) (\<exists>h\<in>set lines. contains ''Range: bytes='' h) False)"
    and "int (length (hdr @ content)) < 2 ^ 32"
    and "cache_is l (custom_obj s)" "lru_holder l i = None"
    and "lru_step 5 (Put i (env_watch E p) p (hdr @ content)) l = Some (l1, Inserted ins)"
    and "CB = web_callbacks E plain_ops"
  shows "\<exists>t e r u. read_callback E plain_ops i (bytes_of (request_text ''GET'' target version hs) @ 0 # rest) len s = Some t \<and>
    inflight t = add_mset (e, r) (inflight s) \<and> kernel_result e (int (length content)) content \<and>
    complete (env_order E) (plain_derived CB) CB peek e r (int (length content)) content t = Some u \<and> site_ok u \<and>
    unsent (inflight u) i (clients u ! nat i) = unsent (inflight s) i (clients s ! nat i) @ hdr @ content \<and>
    closed_fds u = closed_fds s @ [fd]"
proof -
  let ?w = "custom_obj s"
  define w' where "w' = ?w\<lparr>tcp_clients := (tcp_clients ?w)[nat i := (tcp_clients ?w ! nat i)\<lparr>last_requested_read_filepath := p\<rparr>]\<rparr>"
  have r: "in_range (tcp_clients ?w) i" using site_active_range [OF assms(1,2)] by simp
  have miss: "filepath_to_cache_idx (web_cache ?w) p = None"
    using assms(23,25) by (intro cache_is_miss [of l]) (auto split: if_splits)
  have len: "int (length hdr + length content) < 2 ^ 63" using assms(22) by simp
  obtain e rq where er: "send_file_request E plain_ops i p (\<exists>h\<in>set lines. contains ''Range: bytes='' h) 200 s =
      Some (True, submit e rq (s\<lparr>custom_obj := w'\<rparr>))" "file_read fd hdr content 0 e rq" "rq_client_idx rq = i"
    using send_file_miss [OF assms(1,2) miss assms(13,14,17,20,21) len] unfolding w'_def by blast
  let ?t = "submit e rq (s\<lparr>custom_obj := w'\<rparr>)"
  have read: "read_callback E plain_ops i (bytes_of (request_text ''GET'' target version hs) @ 0 # rest) len s = Some ?t"
    using read_callback_GET [OF assms(5,6,7,4,8) assms(10) [unfolded assms(9)] assms(9), of E plain_ops i rest s]
      assms(3,11,12) er(1) by (simp add: get_process_def submit_def w'_def)
  have e: "e = Op_read fd (int (length hdr)) (int READ_SIZE) 0" using er(2) by (simp add: file_read_def)
  define v where "v = consume_eventfd e (int (length content)) (?t\<lparr>inflight := inflight ?t - {#(e, rq)#}\<rparr>)"
  have v: "clients v = clients s" "active_connections v = active_connections s" "inflight v = inflight s" "custom_obj v = w'"
    "closed_fds v = closed_fds s" "freed_indexes v = freed_indexes s"
    by (simp_all add: v_def submit_def)
  have w: "web_ok (length (clients s)) (active_connections s) ?w" "cache_watch_ok (web_cache ?w)"
    using assms(1) by (auto simp: site_ok_def web_ok_def)
  have "web_ok (length (clients s)) (active_connections s) w'"
    using web_ok_files [OF w(1) vget_in_range [OF r] _ w(2) vset_in_range [OF r], of "(tcp_clients ?w ! nat i)\<lparr>last_requested_read_filepath := p\<rparr>"]
    by (simp add: w'_def)
  then have v_ok: "site_ok v" using assms(1) v by (simp add: site_ok_def plain_inv_at_def)
  have "complete (env_order E) (plain_derived CB) CB peek e rq (int (length content)) content ?t =
      custom_read_callback E plain_ops i fd (hdr @ content) v"
    using file_read_assembles [OF er(2), of "length content" content CB "custom_read_callback E plain_ops" v ?t] er(3)
      assms(14,15,18,26) len by (simp add: v_def web_callbacks_def)
  moreover have "\<exists>u. custom_read_callback E plain_ops i fd (hdr @ content) v = Some u \<and> site_ok u \<and> closed_fds u = closed_fds v @ [fd] \<and>
      unsent (inflight u) i (clients u ! nat i) = unsent (inflight v) i (clients v ! nat i) @ hdr @ content"
    using v r assms(2,16,22-25) cache_is_request [OF assms(23) r, of p]
    by (intro custom_read_callback_sends [OF v_ok, of i fd p l E "hdr @ content" l1 ins]) (auto simp: w'_def in_range_nat)
  moreover have "kernel_result e (int (length content)) content" using e assms(19) by simp
  moreover have "inflight ?t = add_mset (e, rq) (inflight s)" by (simp add: submit_def)
  ultimately show ?thesis using read v by metis
qed


lemma ex_site_cache: "cache_is lru_empty (custom_obj ex_site_conn)"
  unfolding cache_is_def ex_site_accept(4)
  by (intro exI [of _ "\<lambda>_. new_tcp_client_value"] conjI) (simp_all add: new_web_def new_cache_sim in_range_def)

lemma ex_content_type: "get_content_type ''public/a.txt'' = Some (''Content-Type: text/plain'' @ [CR, LF])"
  by (simp add: get_content_type_def tokens.simps strtok_r_def content_type_of_def)

theorem file_request_served_witness:
  "\<exists>t e r u. read_callback ex_env plain_ops 0 (bytes_of (request_text ''GET'' ''/a.txt'' ''HTTP/1.1'' []) @ [0]) 30 ex_site_conn = Some t \<and>
     complete ascending (plain_derived (web_callbacks ex_env plain_ops)) (web_callbacks ex_env plain_ops) (\<lambda>_. 1) e r 3 [5, 6, 7] t = Some u \<and>
     unsent (inflight u) 0 (clients u ! 0) = unsent (inflight ex_site_conn) 0 (clients ex_site_conn ! 0) @
       bytes_of (response_headers 200 (''Content-Type: text/plain'' @ [CR, LF]) ''3'' False False) @ [5, 6, 7]"
proof -
  let ?p = "''public/a.txt''"
  have three: "to_string 3 = ''3''" by code_simp
  define hdr where "hdr = bytes_of (response_headers 200 (''Content-Type: text/plain'' @ [CR, LF]) ''3'' False False)"
  have l: "int (length (hdr @ [5, 6, 7])) < 2 ^ 32" by (simp add: hdr_def bytes_of_def response_headers_def)
  have ws: "is_ws_request (drop 1 ''/a.txt'') (ws_key [''GET /a.txt HTTP/1.1''] '''') = Some False"
    by (simp add: is_ws_request_def strtok_r_def ws_key_def)
  obtain l1 where put: "lru_step 5 (Put 0 (env_watch ex_env ?p) ?p (hdr @ [5, 6, 7])) lru_empty = Some (l1, Inserted True)"
    by (simp add: lru_empty_def)
  have h: "hdr = bytes_of (response_headers 200 (''Content-Type: text/plain'' @ [CR, LF]) (to_string (length [5 :: 8 word, 6, 7]))
      (\<exists>h\<in>set [''GET /a.txt HTTP/1.1'']. contains ''Range: bytes='' h) False)"
  proof -
    have "length [5 :: 8 word, 6, 7] = 3" by simp
    then show ?thesis unfolding hdr_def by (simp only: three) simp
  qed
  show ?thesis
    using file_request_served [where s = ex_site_conn and i = 0 and len = 30 and target = "''/a.txt''" and version = "''HTTP/1.1''"
        and hs = "[]" and content = "[5, 6, 7]" and E = ex_env and rest = "[]" and peek = "\<lambda>_. 1",
        OF _ _ _ _ _ _ _ _ _ _ ws _ refl _ _ _ _ _ _ ex_content_type h l ex_site_cache _ put refl]
      ex_site_conn_ok ex_site_accept(3,4)
    by (auto simp: word_of_line_def ex_env_def file_path_def READ_SIZE_def new_web_def lru_empty_def hdr_def)
qed


end
