(* ===== verification/Web_Limits.thy ===== *)
theory Web_Limits
  imports Web_Requests
begin

text \<open>
  Where the web server does not do what it should: messages in fragments, the end of a WebSocket,
  requests for directories.
\<close>

section \<open>Messages in fragments\<close>

lemma client_frame_ne [simp]: "client_frame fin opcode key payload \<noteq> []"
  by (simp add: client_frame_def)

lemma vmod_of_vget: "vget xs i = Some x \<Longrightarrow> vmod xs i f = Some (xs[nat i := f x])"
  by (simp add: vget_eq_Some vmod_in_range)

lemma process_fragments:
  assumes "\<forall>(op, key, payload)\<in>set parts. length key = 4 \<and> op AND 0xf = op \<and> op \<noteq> 0x8 \<and> op \<noteq> 0x9 \<and> op \<noteq> 0xA \<and> length payload < 2 ^ 63"
    and "length key = 4" "op AND 0xf = op" "op \<noteq> 0x8" "op \<noteq> 0x9" "op \<noteq> 0xA" "length payload < 2 ^ 63"
    and "vget (websocket_clients (custom_obj s)) ws = Some c"
  shows "\<exists>t. process_frames T ws m (map (\<lambda>(op, key, payload). client_frame False op key payload) parts @
      [client_frame True op key payload]) s = Some (False,
        (let message = concat (rev (map (snd \<circ> snd) parts)) @ websocket_frames c @ payload in if message = [] then [] else [message]), t)"
  using assms(1,8)
proof (induction parts arbitrary: s c m)
  case Nil
  then show ?case using assms(2-7)
    by (simp add: process_frame_def decode_frame_of_client on_web_def upd_ws_def vmod_of_vget Let_def)
next
  case (Cons p parts)
  obtain o' k b where p: "p = (o', k, b)" by (cases p)
  let ?c = "c\<lparr>websocket_frames := b @ websocket_frames c\<rparr>"
  let ?s = "s\<lparr>custom_obj := (custom_obj s)\<lparr>websocket_clients := (websocket_clients (custom_obj s))[nat ws := ?c]\<rparr>\<rparr>"
  have "process_frame T ws m (client_frame False o' k b) s = Some (False, [], ?s)"
    using Cons.prems p
    by (simp add: process_frame_def decode_frame_of_client on_web_def upd_ws_def vmod_of_vget Let_def)
  moreover have "vget (websocket_clients (custom_obj ?s)) ws = Some ?c"
    using Cons.prems(2) by (simp add: vget_eq_Some in_range_nat)
  ultimately show ?case using Cons.IH [of ?s ?c "[]"] Cons.prems(1) p by (auto simp: Let_def)
qed

text \<open>C23. A message in fragments is delivered with its parts in the wrong order: every fragment that is
  not final is put in front of what was collected before, so the application gets the non-final
  fragments in reverse and then the final one. Messages in one or two frames come out as sent; three
  different parts do not.\<close>

theorem fragments_reversed:
  assumes "\<forall>(op, key, payload)\<in>set parts. length key = 4 \<and> op \<in> {0, 1, 2} \<and> length payload < 2 ^ 63"
    and "length key = 4" "op \<in> {0, 1, 2}" "length payload < 2 ^ 63"
    and "vget (websocket_clients (custom_obj s)) ws = Some c" "websocket_frames c = []"
    and "sent = map (snd \<circ> snd) parts @ [payload]" "concat sent \<noteq> []"
  shows "\<exists>t. process_frames T ws [] (map (\<lambda>(op, key, payload). client_frame False op key payload) parts @
      [client_frame True op key payload]) s = Some (False, [concat (rev (butlast sent)) @ last sent], t)"
proof -
  have ne: "concat (rev (map (snd \<circ> snd) parts)) @ payload \<noteq> []" using assms(7,8) by auto
  have "\<forall>(op, key, payload)\<in>set parts. length key = 4 \<and> op AND 0xf = op \<and> op \<noteq> 0x8 \<and> op \<noteq> 0x9 \<and> op \<noteq> 0xA \<and> length payload < 2 ^ 63"
    using assms(1) by fastforce
  moreover have "op AND 0xf = op" "op \<noteq> 0x8" "op \<noteq> 0x9" "op \<noteq> 0xA" using assms(3) by auto
  ultimately obtain t where "process_frames T ws [] (map (\<lambda>(op, key, payload). client_frame False op key payload) parts @
      [client_frame True op key payload]) s = Some (False, (let message = concat (rev (map (snd \<circ> snd) parts)) @ payload in
        if message = [] then [] else [message]), t)"
    using process_fragments [of parts key op payload s ws c T "[]"] assms(2,4,5,6) by auto
  then show ?thesis using ne assms(7) unfolding Let_def if_not_P [OF ne] by simp
qed

theorem fragments_reversed_witness:
  "\<exists>t. process_frames plain_ops 0 [] [client_frame False 1 [1, 2, 3, 4] [65], client_frame False 0 [1, 2, 3, 4] [66],
      client_frame True 0 [1, 2, 3, 4] [67]] ex_ws_site = Some (False, [[66, 65, 67]], t)"
  using fragments_reversed [where parts = "[(1, [1, 2, 3, 4], [65]), (0, [1, 2, 3, 4], [66])]" and key = "[1, 2, 3, 4]" and op = 0
      and payload = "[67]" and s = ex_ws_site and ws = 0 and c = "new_ws_client_value\<lparr>ws_tcp_idx := 0\<rparr>" and T = plain_ops]
  by (simp add: ex_ws_site_def ex_ws_web_def vget_def in_range_def new_ws_client_value_def)

section \<open>Closing a WebSocket\<close>

text \<open>C24. The server never closes a WebSocket by itself. \<open>ws_client::close\<close> is set nowhere, so in every
  state the server reaches the write callback of a connection that is or was a WebSocket, also
  the one after its close frame has been sent, leaves the connection open: no descriptor is closed
  and the connection stays in \<open>active_connections\<close> until the peer or the network ends it.\<close>

theorem websocket_close_never_completes:
  assumes "plain_thread_server_runner conf N (new_web ch ifd) = Some (Inr s0)"
    and "web_run E s0 s" "is_active s"
    and "vget (tcp_clients (custom_obj s)) i = Some c" "ws_client_idx c \<in> all_websocket_connections (custom_obj s)"
    and "write_callback E plain_ops i info s = Some t"
  shows "active_connections t = active_connections s \<and> closed_fds t = closed_fds s \<and> clients t = clients s"
proof -
  have ok: "site_ok s" by (rule web_run_site [OF assms(2) runner_site [OF assms(1)] assms(3)])
  obtain w where w: "broadcast_done E info (custom_obj s) = Some w" using assms(6) by (auto simp: write_callback_def on_web_def bind_Some_iff)
  let ?s = "s\<lparr>custom_obj := w\<rparr>" and ?k = "ws_client_idx c"
  have same: "tcp_clients w = tcp_clients (custom_obj s)" "all_websocket_connections w = all_websocket_connections (custom_obj s)"
    "websocket_clients w = websocket_clients (custom_obj s)"
    using w by (auto simp: broadcast_done_def bind_Some_iff Let_def split: if_splits)
  have "close_ws_connection_potential_confirm plain_ops ?k ?s = Some t"
    using assms(4-6) w same by (auto simp: write_callback_def on_web_def websocket_process_write_cb_def bind_Some_iff)
  moreover have "\<not> ws_close k" if "vget (websocket_clients w) ?k = Some k" for k
    using that ok same(3) by (auto simp: site_ok_def web_ok_def vget_eq_Some in_range_nat)
  ultimately have "t = ?s \<or> (\<exists>f. on_web (upd_ws ?k f) ?s = Some t)"
    by (auto simp: close_ws_connection_potential_confirm_def bind_Some_iff simp del: Option.bind_eq_Some_conv split: if_splits)
  then show ?thesis by (auto simp: on_web_def bind_Some_iff)
qed

text \<open>The handshake as a step of the small site.\<close>

lemma ex_handshake_complete:
  "\<exists>t. complete ascending (plain_derived (web_callbacks ex_env plain_ops)) (web_callbacks ex_env plain_ops) (\<lambda>_. 1)
       (Op_read 7 0 (int READ_SIZE) 0) (ex_read_req (-1)) 45 (bytes_of ex_handshake) ex_site_conn = Some t \<and>
     is_active t \<and> site_ok t \<and> active_connections t = {0} \<and> 0 \<in> active_websocket_connections (custom_obj t) \<and>
     web_channel (custom_obj t) = ex_channel \<and>
     ws_client_idx (tcp_clients (custom_obj t) ! nat 0) \<in> all_websocket_connections (custom_obj t)"
proof -
  let ?CB = "web_callbacks ex_env plain_ops" and ?e = "Op_read 7 0 (int READ_SIZE) 0"
  define n where "n = length ex_handshake"
  have n: "n = 45" by (simp add: n_def ex_handshake_def request_text_def)
  let ?buf = "bytes_of ex_handshake @ 0 # replicate (READ_SIZE - n - 1) 0"
  define u where "u = ex_site_conn\<lparr>inflight := inflight ex_site, clients := [plain_client\<lparr>sockfd := 7\<rparr>]\<rparr>"
  have "plain_ok (clients ex_site_conn) {0} (freed_indexes ex_site_conn) (inflight ex_site)"
    using ex_site_conn_ok ex_site_accept(3,5) plain_ok_remove_other [of "clients ex_site_conn" "{0}" "freed_indexes ex_site_conn" "(?e, ex_read_req (-1))" "inflight ex_site"]
    by (simp add: site_ok_def plain_inv_at_def ex_read_req_def new_request_def)
  then have "plain_ok [plain_client\<lparr>sockfd := 7\<rparr>] {0} (freed_indexes ex_site_conn) (inflight ex_site)"
    using plain_ok_neutral [of "clients ex_site_conn" _ _ _ 0 "plain_client\<lparr>sockfd := 7\<rparr>"] ex_site_accept(2)
    by (simp add: in_range_def plain_client_def)
  then have u: "site_ok u" "0 \<in> active_connections u"
    using ex_site_conn_ok ex_site_accept(2,3) by (simp_all add: u_def site_ok_def plain_inv_at_def)
  have buf: "?buf = bytes_of (request_text ''GET'' ''/ws'' ''HTTP/1.1'' [''Sec-WebSocket-Key: abcd'']) @ 0 # replicate (READ_SIZE - n - 1) 0"
    by (simp add: ex_handshake_def)
  have "\<exists>t. read_callback ex_env plain_ops 0 ?buf 45 u = Some t \<and> site_ok t \<and> is_active t = is_active u \<and>
    0 \<in> active_websocket_connections (custom_obj t) \<and> active_connections t = active_connections u \<and>
    ws_client_idx (tcp_clients (custom_obj t) ! nat 0) \<in> all_websocket_connections (custom_obj t) \<and>
    unsent (inflight t) 0 (clients t ! nat 0) = unsent (inflight u) 0 (clients u ! nat 0) @
      bytes_of (upgrade_response (env_sha1_base64 ex_env) ''abcd'')"
    by (rule handshake_result [OF u _ _ _ _ _ _ buf]) (simp_all add: ex_handshake_facts)
  then obtain t where t: "read_callback ex_env plain_ops 0 ?buf 45 u = Some t" "site_ok t" "is_active t"
    "0 \<in> active_websocket_connections (custom_obj t)"
    "ws_client_idx (tcp_clients (custom_obj t) ! nat 0) \<in> all_websocket_connections (custom_obj t)" "active_connections t = {0}"
    using ex_site_accept(3,6) by (auto simp: u_def)
  have "web_channel (custom_obj t) = web_channel (custom_obj u)" using read_callback_site [OF u t(1)] by (simp add: books_def)
  then have ch: "web_channel (custom_obj t) = ex_channel" using ex_site_accept(4) by (simp add: u_def new_web_def)
  have "replicate 8147 (0 :: 8 word) = 0 # replicate 8146 0" using replicate_Suc [of 8146] by simp
  then have "fill_request ?e (ex_read_req (-1)) (bytes_of ex_handshake) = Some ((ex_read_req (-1))\<lparr>rq_read_data := ?buf\<rparr>)"
    using n by (simp add: fill_request_def ex_read_req_def bytes_of_def n_def READ_SIZE_def)
  then have "complete ascending (plain_derived ?CB) ?CB (\<lambda>_. 1) ?e (ex_read_req (-1)) 45 (bytes_of ex_handshake) ex_site_conn = Some t"
    using t(1) ex_site_accept(2,5,9,10)
    by (simp add: complete_def consume_eventfd_def loop_body_def client_request_def ex_read_req_def new_request_def plain_derived_def
        plain_handler_def handle_read_def upd_client_def vmod_def in_range_def call0_def web_callbacks_def u_def plain_client_def)
  then show ?thesis using t ch by blast
qed

lemma ex_handshake_taken: "length (bytes_of ex_handshake) = 45"
  by (simp add: bytes_of_def ex_handshake_def request_text_def)

lemma ex_handshake_step:
  "\<exists>t. web_step ex_env ex_site_conn t \<and> is_active t \<and> site_ok t \<and> 0 \<in> active_websocket_connections (custom_obj t) \<and>
     ws_client_idx (tcp_clients (custom_obj t) ! nat 0) \<in> all_websocket_connections (custom_obj t)"
proof -
  have o: "ascending = env_order ex_env" by (simp add: ex_env_def)
  obtain t where t: "complete (env_order ex_env) (plain_derived (web_callbacks ex_env plain_ops)) (web_callbacks ex_env plain_ops) (\<lambda>_. 1)
       (Op_read 7 0 (int READ_SIZE) 0) (ex_read_req (-1)) 45 (bytes_of ex_handshake) ex_site_conn = Some t"
     "is_active t" "site_ok t" "0 \<in> active_websocket_connections (custom_obj t)"
     "ws_client_idx (tcp_clients (custom_obj t) ! nat 0) \<in> all_websocket_connections (custom_obj t)"
    using ex_handshake_complete [unfolded o] by blast
  from t(1) have "web_step ex_env ex_site_conn t"
    by (rule web_step.completion [rotated 5])
       (use ex_handshake_taken ex_site_accept(3,5,6) in \<open>auto simp: on_time_def ex_read_req_def new_request_def READ_SIZE_def\<close>)
  then show ?thesis using t by blast
qed

theorem websocket_close_never_completes_witness:
  "\<exists>s t. web_run ex_env ex_site s \<and> 0 \<in> active_websocket_connections (custom_obj s) \<and>
     write_callback ex_env plain_ops 0 (-1) s = Some t \<and>
     active_connections t = active_connections s \<and> closed_fds t = closed_fds s \<and> clients t = clients s"
proof -
  obtain s where s: "web_step ex_env ex_site_conn s" "is_active s" "site_ok s" "0 \<in> active_websocket_connections (custom_obj s)"
    "ws_client_idx (tcp_clients (custom_obj s) ! nat 0) \<in> all_websocket_connections (custom_obj s)"
    using ex_handshake_step by blast
  have run: "web_run ex_env ex_site s" by (rule web_run.more [OF ex_site_run s(1)])
  let ?c = "tcp_clients (custom_obj s) ! nat 0"
  have c: "vget (tcp_clients (custom_obj s)) 0 = Some ?c" "in_range (websocket_clients (custom_obj s)) (ws_client_idx ?c)"
    "\<forall>k\<in>set (websocket_clients (custom_obj s)). \<not> ws_close k"
    using s(3,4) by (auto simp: site_ok_def web_ok_def ws_linked_def Let_def vget_in_range)
  then have "\<exists>t. close_ws_connection_potential_confirm plain_ops (ws_client_idx ?c) s = Some t"
    by (auto simp: close_ws_connection_potential_confirm_def vec_simps in_range_nat on_web_def upd_ws_def)
  then obtain t where t: "write_callback ex_env plain_ops 0 (-1) s = Some t"
    using c(1) s(5) by (auto simp: write_callback_def on_web_def broadcast_done_def websocket_process_write_cb_def)
  have "active_connections t = active_connections s \<and> closed_fds t = closed_fds s \<and> clients t = clients s"
    by (rule websocket_close_never_completes [OF ex_site_runner run s(2) c(1) s(5) t])
  then show ?thesis using run s(4) t by blast
qed

section \<open>A directory\<close>

lemma content_type_short: "length (content_type_of x) < 50"
  by (simp add: content_type_of_def)

lemma response_headers_short:
  assumes "get_content_type p = Some ct"
  shows "length (response_headers code ct (to_string (nat (u64 (-1)))) accept_bytes f) < 2 ^ 63"
proof -
  have "length (to_string (nat (u64 (-1)))) = 20" by (simp add: u64_def to_string.simps)
  moreover have "length ct < 50" using assms content_type_short by (auto simp: get_content_type_def bind_Some_iff)
  ultimately show ?thesis by (simp add: response_headers_def Let_def)
qed

lemma response_headers_ne: "response_headers code ct cl accept_bytes f \<noteq> []"
  by (simp add: response_headers_def Let_def)

text \<open>C25. A request for something that is neither a regular file nor a block device, such as a
  directory, overruns the response buffer: its size is reported as -1, so the buffer is one byte
  shorter than the headers that are copied into it, whatever path, client and cache.\<close>

theorem directory_request_overruns:
  assumes "0 \<le> env_open E p" "env_stat E (env_open E p) = Some Other_file"
  shows "send_file_request E T i p accept_bytes code s = None"
proof -
  have "nat (u64 (u64 (-1) + int (length h))) < length h" if "length h < 2 ^ 63" "h \<noteq> []" for h :: string
  proof -
    have "u64 (u64 (-1) + int (length h)) = u64 (int (length h) - 1)" using mod_add_self2 [of "int (length h) - 1" "2 ^ 64"] by (simp add: u64_def)
    then show ?thesis using that by (cases h) (simp_all add: u64_small)
  qed
  then have short: "nat (u64 (u64 (-1) + int (length (response_headers code ct (to_string (nat (u64 (-1)))) accept_bytes f)))) <
      length (response_headers code ct (to_string (nat (u64 (-1)))) accept_bytes f)" if "get_content_type p = Some ct" for ct f
    using response_headers_short [OF that] response_headers_ne by blast
  show ?thesis
  proof (rule ccontr)
    assume "send_file_request E T i p accept_bytes code s \<noteq> None"
    then show False using assms short
      by (auto simp: send_file_request_def get_file_size_def Let_def bind_Some_iff split: if_splits)
  qed
qed

theorem directory_request_overruns_witness:
  "send_file_request (ex_env\<lparr>env_stat := \<lambda>_. Some Other_file\<rparr>) plain_ops 0 ''public/img'' False 200 ex_site_conn = None"
  by (rule directory_request_overruns) (simp_all add: ex_env_def)

end
