(* ===== verification/Central_Limits.thy ===== *)
theory Central_Limits
  imports Central_Items
begin

text \<open>
  What the conservation invariant gives for every run of the program thread: the store's counts, that
  completions are processed without undefined behaviour, and that no completion ends the loop. A
  concrete server with one thread shows where the wake-ups are too few and where a request is freed
  too early.
\<close>

section \<open>A server with one thread\<close>

definition ex_channel :: "message_post_data list channel" where
  "ex_channel = \<lparr>to_server_queue = [], to_program_queue = [], tcp_server_set = True, server_efd = 0,
     server_kill = 0, central_efd = 0, central_communication_eventfd = 7\<rparr>"

definition ex_central :: "message_post_data list central" where
  "ex_central = \<lparr>cw_store = empty_store, cw_threads = [ex_channel], cw_heap = Map.empty, cw_next = 0,
     cw_inflight = {#}, cw_event_fd = 0, cw_kill_server_efd = 0, cw_kill_fd = 8, cw_timer_fd = 9, run_server = False\<rparr>"

lemma ex_central_fresh: "fresh_central list_queue id ex_central"
  by (simp add: fresh_central_def ex_central_def ex_channel_def fresh_channel_def)

lemmas central_eval = cw_run_start_def cw_add_event_read_req_def cw_add_timer_read_req_def cw_new_def cw_submit_def
  new_central_req_def cw_complete_def cw_loop_body_def cw_timer_def cw_thread_event_def
  insert_item_def free_item_def take_slot_def vset_def vget_def in_range_def empty_store_def Let_def
  post_message_to_server_thread_def post_message_to_program_def list_queue_def
  get_from_to_program_queue_def get_from_to_server_queue_def u64_def broadcast_text_def make_ws_frame_def be_val_def

text \<open>
  A run of that server: the timer fires twice before the server thread is scheduled; the thread is
  woken once, takes one message and reports it; the program thread frees that item.
\<close>

definition ex_req :: "central_web_server_event \<Rightarrow> int \<Rightarrow> int \<Rightarrow> central_web_server_req" where
  "ex_req event fd info = new_central_req\<lparr>cr_buff := replicate 8 0, cr_event := event, cr_fd := fd, cr_custom_info := info\<rparr>"

definition ex_heap :: "nat \<rightharpoonup> central_web_server_req" where
  "ex_heap = [0 \<mapsto> ex_req CW_SERVER_THREAD_COMMUNICATION 7 0, 1 \<mapsto> ex_req CW_KILL_SERVER 8 0,
     2 \<mapsto> ex_req CW_TIMERFD 9 (u64 (-1))]"

definition ex_post :: "int \<Rightarrow> message_post_data" where
  "ex_post k = \<lparr>msg_type = websocket_broadcast, msg_buff_ptr = Ptr (Store_slot k) [129, 4, 104, 97, 104, 97],
     msg_length = 6, msg_item_idx = k, msg_additional_info = u64 (-1)\<rparr>"

definition ex_report :: message_post_data where
  "ex_report = \<lparr>msg_type = broadcast_finished, msg_buff_ptr = Nullptr, msg_length = 0, msg_item_idx = 0,
     msg_additional_info = u64 (-1)\<rparr>"

definition ex_sys0 :: "message_post_data list central" where
  "ex_sys0 = ex_central\<lparr>cw_heap := ex_heap, cw_next := 3, run_server := True,
     cw_inflight := {#(Op_read 9 0 8 0, 2), (Op_read 8 0 8 0, 1), (Op_read 7 0 8 0, 0)#}\<rparr>"

definition ex_sys1 :: "message_post_data list central" where
  "ex_sys1 = ex_sys0\<lparr>cw_store := \<lparr>data_vec = [([129, 4, 104, 97, 104, 97], 1)], free_idxs = {}\<rparr>,
     cw_threads := [ex_channel\<lparr>to_server_queue := [ex_post 0], server_efd := 1\<rparr>],
     cw_heap := ex_heap(3 \<mapsto> ex_req CW_TIMERFD 9 (u64 (-1)), 2 := None), cw_next := 4,
     cw_inflight := {#(Op_read 9 0 8 0, 3), (Op_read 8 0 8 0, 1), (Op_read 7 0 8 0, 0)#}\<rparr>"

definition ex_sys2 :: "message_post_data list central" where
  "ex_sys2 = ex_sys0\<lparr>cw_store := \<lparr>data_vec = [([129, 4, 104, 97, 104, 97], 1), ([129, 4, 104, 97, 104, 97], 1)], free_idxs = {}\<rparr>,
     cw_threads := [ex_channel\<lparr>to_server_queue := [ex_post 0, ex_post 1], server_efd := 2\<rparr>],
     cw_heap := ex_heap(3 \<mapsto> ex_req CW_TIMERFD 9 (u64 (-1)), 2 := None, 4 \<mapsto> ex_req CW_TIMERFD 9 (u64 (-1)), 3 := None),
     cw_next := 5, cw_inflight := {#(Op_read 9 0 8 0, 4), (Op_read 8 0 8 0, 1), (Op_read 7 0 8 0, 0)#}\<rparr>"

definition ex_sys3 :: "message_post_data list central" where
  "ex_sys3 = ex_sys2\<lparr>cw_threads := [ex_channel\<lparr>to_server_queue := [ex_post 1]\<rparr>]\<rparr>"

definition ex_sys4 :: "message_post_data list central" where
  "ex_sys4 = ex_sys2\<lparr>cw_threads := [ex_channel\<lparr>to_server_queue := [ex_post 1], to_program_queue := [ex_report], central_efd := 1\<rparr>]\<rparr>"

definition ex_sys5 :: "message_post_data list central" where
  "ex_sys5 = ex_sys2\<lparr>cw_store := \<lparr>data_vec = [([], -1), ([129, 4, 104, 97, 104, 97], 1)], free_idxs = {0}\<rparr>,
     cw_threads := [ex_channel\<lparr>to_server_queue := [ex_post 1]\<rparr>],
     cw_heap := (cw_heap ex_sys2)(5 \<mapsto> ex_req CW_SERVER_THREAD_COMMUNICATION 7 0, 0 := None), cw_next := 6,
     cw_inflight := {#(Op_read 7 0 8 0, 5), (Op_read 9 0 8 0, 4), (Op_read 8 0 8 0, 1)#}\<rparr>"

lemmas ex_defs = ex_central_def ex_channel_def ex_heap_def ex_req_def ex_post_def ex_report_def
lemmas ex_sys_defs = ex_sys0_def ex_sys1_def ex_sys2_def ex_sys3_def ex_sys4_def ex_sys5_def

lemma ex_started: "started_system ex_central = \<lparr>sys = ex_sys0, held = [[]]\<rparr>"
  by (simp add: started_system_def ex_sys0_def ex_defs central_eval numeral_2_eq_2 numeral_3_eq_3)

lemma ex_timer1: "cw_complete list_queue ascending (Op_read 9 0 8 0, 2) 8 ex_sys0 = Some ex_sys1"
  by (simp add: ex_sys0_def ex_sys1_def ex_defs central_eval)

lemma ex_timer2: "cw_complete list_queue ascending (Op_read 9 0 8 0, 3) 8 ex_sys1 = Some ex_sys2"
  by (simp add: ex_sys0_def ex_sys1_def ex_sys2_def ex_defs central_eval)

lemma ex_take: "get_from_to_server_queue list_queue ((cw_threads ex_sys2 ! 0)\<lparr>server_efd := 0\<rparr>) = (ex_post 0, cw_threads ex_sys3 ! 0)"
  by (simp add: ex_sys2_def ex_sys3_def ex_channel_def get_from_to_server_queue_def list_queue_def)

lemma ex_finish: "post_message_to_program list_queue broadcast_finished Nullptr 0 0 (u64 (-1)) (cw_threads ex_sys3 ! 0) = cw_threads ex_sys4 ! 0"
  by (simp add: ex_sys3_def ex_sys4_def ex_channel_def ex_report_def post_message_to_program_def list_queue_def)

lemma ex_reported: "cw_complete list_queue ascending (Op_read 7 0 8 0, 0) 8 (consume_thread_efd 0 ex_sys4) = Some ex_sys5"
  by (simp add: consume_thread_efd_def ex_sys_defs ex_defs central_eval)

lemma ex_requests:
  "(Op_read 9 0 8 0, 2) \<in># cw_inflight ex_sys0" "cw_heap ex_sys0 2 = Some (ex_req CW_TIMERFD 9 (u64 (-1)))"
  "(Op_read 9 0 8 0, 3) \<in># cw_inflight ex_sys1" "cw_heap ex_sys1 3 = Some (ex_req CW_TIMERFD 9 (u64 (-1)))"
  "(Op_read 7 0 8 0, 0) \<in># cw_inflight ex_sys4" "cw_heap ex_sys4 0 = Some (ex_req CW_SERVER_THREAD_COMMUNICATION 7 0)"
  "cr_event (ex_req ev fd info) = ev" "cr_custom_info (ex_req ev fd info) = info"
  "thread_woken (ex_req CW_SERVER_THREAD_COMMUNICATION 7 0) ex_sys4"
  by (simp_all add: ex_sys_defs ex_heap_def thread_woken_def in_range_def) (simp_all add: ex_req_def)

lemma ex_run2: "breach list_queue ascending (started_system ex_central) \<lparr>sys = ex_sys2, held = [[]]\<rparr>"
proof -
  have "bstep list_queue ascending \<lparr>sys = ex_sys0, held = [[]]\<rparr> (\<lparr>sys = ex_sys0, held = [[]]\<rparr>\<lparr>sys := ex_sys1\<rparr>)"
    by (rule bstep.program, rule cstep.timer [where e = "(Op_read 9 0 8 0, 2)"]) (simp add: ex_timer1 ex_requests)+
  moreover have "bstep list_queue ascending \<lparr>sys = ex_sys1, held = [[]]\<rparr> (\<lparr>sys = ex_sys1, held = [[]]\<rparr>\<lparr>sys := ex_sys2\<rparr>)"
    by (rule bstep.program, rule cstep.timer [where e = "(Op_read 9 0 8 0, 3)"]) (simp add: ex_timer2 ex_requests)+
  ultimately show ?thesis
    using breach.there [OF breach.there [OF breach.here]] by (simp add: ex_started)
qed

lemma ex_run4: "breach list_queue ascending (started_system ex_central) \<lparr>sys = ex_sys4, held = [[]]\<rparr>"
proof -
  let ?s2 = "\<lparr>sys = ex_sys2, held = [[]]\<rparr>" and ?s3 = "\<lparr>sys = ex_sys3, held = [[0]]\<rparr>"
  have "tstep list_queue (cw_threads ex_sys2 ! 0, []) (cw_threads ex_sys3 ! 0, [] @ [msg_item_idx (ex_post 0)])"
    by (rule tstep.taken [OF _ ex_take]) (simp add: ex_sys2_def)
  then have "bstep list_queue ascending ?s2 (set_thread 0 (cw_threads ex_sys3 ! 0, [0]) ?s2)"
    using bstep.thread [of 0 ?s2 list_queue "(cw_threads ex_sys3 ! 0, [0])"] by (simp add: ex_sys2_def ex_post_def)
  moreover have "set_thread 0 (cw_threads ex_sys3 ! 0, [0]) ?s2 = ?s3" by (simp add: set_thread_def ex_sys3_def ex_sys2_def)
  ultimately have 3: "breach list_queue ascending (started_system ex_central) ?s3" using breach.there [OF ex_run2] by simp
  have "tstep list_queue (cw_threads ex_sys3 ! 0, [0]) (cw_threads ex_sys4 ! 0, [])"
    using tstep.finished [of list_queue "cw_threads ex_sys3 ! 0" "[]" 0 "[]" Nullptr 0] ex_finish by simp
  then have "bstep list_queue ascending ?s3 (set_thread 0 (cw_threads ex_sys4 ! 0, []) ?s3)"
    using bstep.thread [of 0 ?s3 list_queue "(cw_threads ex_sys4 ! 0, [])"] by (simp add: ex_sys3_def)
  moreover have "set_thread 0 (cw_threads ex_sys4 ! 0, []) ?s3 = \<lparr>sys = ex_sys4, held = [[]]\<rparr>"
    by (simp add: set_thread_def ex_sys3_def ex_sys4_def)
  ultimately show ?thesis using breach.there [OF 3] by simp
qed

lemma ex_run5: "breach list_queue ascending (started_system ex_central) \<lparr>sys = ex_sys5, held = [[]]\<rparr>"
proof -
  have "bstep list_queue ascending \<lparr>sys = ex_sys4, held = [[]]\<rparr> (\<lparr>sys = ex_sys4, held = [[]]\<rparr>\<lparr>sys := ex_sys5\<rparr>)"
    by (rule bstep.program, rule cstep.reported [where e = "(Op_read 7 0 8 0, 0)"]) (simp add: ex_reported ex_requests)+
  then show ?thesis using breach.there [OF ex_run4] by simp
qed

section \<open>Every run\<close>

lemma reachable_ok:
  assumes "is_fifo Q contents" "fresh_central Q contents c" "breach Q ord (started_system c) s"
  shows "all_ok contents s"
  using breach_ok [OF assms(1,3) started_ok [OF assms(2)]] .

text \<open>In every reachable state of the program thread and its server threads, an item is in the
  store exactly when some message about it is on its way (queued for a server thread, held by one, or
  queued as finished), and the uses counted for it are the number of those messages.\<close>

theorem broadcast_uses_conserved:
  assumes "is_fifo Q contents" "fresh_central Q contents c" "breach Q ord (started_system c) s"
  shows "case store_live (cw_store (sys s)) k of
      None \<Rightarrow> outstanding contents k s = 0
    | Some (b, n) \<Rightarrow> outstanding contents k s = n \<and> 0 < n"
proof -
  have ok: "uses_of (cw_store (sys s)) k = outstanding contents k s"
    and pos: "store_live (cw_store (sys s)) k = Some (b, n) \<Longrightarrow> 0 < n" for b n
    using reachable_ok [OF assms] unfolding all_ok_def system_ok_def by blast+
  show ?thesis
  proof (cases "store_live (cw_store (sys s)) k")
    case None
    then show ?thesis using ok by (simp add: uses_of_def)
  next
    case (Some bn)
    then show ?thesis using ok pos by (cases bn) (auto simp: uses_of_def)
  qed
qed

theorem broadcast_uses_conserved_witness:
  "outstanding id 0 \<lparr>sys = ex_sys2, held = [[]]\<rparr> = 1"
  using broadcast_uses_conserved [OF list_queue_fifo ex_central_fresh ex_run2, of 0]
  by (simp add: ex_sys2_def store_live_def live_slot_def vget_def in_range_def)

lemma woken_item_counted:
  assumes "is_fifo Q contents" "system_ok contents s" "thread_woken req (sys s)"
    and "get_from_to_program_queue Q ((cw_threads (sys s) ! nat (cr_custom_info req))\<lparr>central_efd := 0\<rparr>) = (data, ch)"
  shows "\<exists>store. free_item (cw_store (sys s)) (msg_item_idx data) = Some store"
proof -
  let ?i = "nat (cr_custom_info req)"
  let ?ch = "cw_threads (sys s) ! ?i"
  have i: "?i < length (cw_threads (sys s))" "0 < central_efd ?ch"
    using assms(3) by (auto simp: thread_woken_def in_range_def)
  have "contents (to_program_queue ?ch) \<noteq> []" using assms(2) i by (simp add: system_ok_def channel_ok_def)
  then obtain q where "q_try_dequeue Q (to_program_queue ?ch) = Some (data, q)"
    using assms(4) fifo_dequeue(1) [OF assms(1), of "to_program_queue ?ch"]
    by (auto simp: get_from_to_program_queue_def split: option.splits)
  then have cont: "contents (to_program_queue ?ch) = data # contents q" by (rule fifo_dequeue(2) [OF assms(1)])
  have "1 \<le> thread_outstanding contents (msg_item_idx data) ?ch (held s ! ?i)"
    by (simp add: thread_outstanding_def cont item_count_def)
  then have "0 < uses_of (cw_store (sys s)) (msg_item_idx data)"
    using thread_le_outstanding [OF i(1), of contents "msg_item_idx data"] assms(2) by (simp add: system_ok_def)
  with store_effects(2) assms(2) show ?thesis unfolding system_ok_def by blast
qed



text \<open>\<open>kill_server\<close> does not end the loop of \<open>run\<close>: whatever completions arrive and however often
  \<open>kill_server\<close> is called, the loop goes on as long as the wait itself succeeds. Four bytes written to
  an event descriptor are refused, and the descriptor the loop reads is another one.\<close>

theorem kill_server_leaves_loop_running:
  assumes "is_fifo Q contents" "fresh_central Q contents c" "breach Q ord (started_system c) s"
  shows "run_server (sys s) \<and> run_server (cw_kill_server (sys s)) \<and> cw_kill_server_efd (cw_kill_server (sys s)) = 0 \<and>
    cw_event_fd (cw_kill_server (sys s)) = cw_event_fd (sys s)"
  using reachable_ok [OF assms] by (simp add: all_ok_def cw_kill_server_def eventfd_write_bytes_def)

theorem kill_server_leaves_loop_running_witness: "run_server (cw_kill_server ex_sys2)"
  using kill_server_leaves_loop_running [OF list_queue_fifo ex_central_fresh ex_run2] by simp

text \<open>A broadcast is not always freed: an event counter read once stands for several messages,
  and each side takes one message per wake-up. A run of two ticks ends with nothing signalled and
  nothing held by the server thread, and the second item still in the store and in the queue.\<close>

theorem coalesced_ticks_keep_item:
  "\<exists>s. breach list_queue ascending (started_system ex_central) s \<and>
     map server_efd (cw_threads (sys s)) = [0] \<and> map central_efd (cw_threads (sys s)) = [0] \<and> concat (held s) = [] \<and>
     store_live (cw_store (sys s)) 1 = Some (make_ws_frame broadcast_text text_frame, 1)"
proof (rule exI [of _ "\<lparr>sys = ex_sys5, held = [[]]\<rparr>"], intro conjI)
  show "store_live (cw_store (sys \<lparr>sys = ex_sys5, held = [[]]\<rparr>)) 1 = Some (make_ws_frame broadcast_text text_frame, 1)"
    by (simp add: ex_sys5_def store_live_def live_slot_def vget_def in_range_def make_ws_frame_def broadcast_text_def be_val_def Let_def)
qed (simp_all add: ex_run5, simp_all add: ex_sys5_def ex_channel_def)

text \<open>A short write of the program thread: the rest is submitted with the same request, which is
  then deleted, so the next completion dereferences a freed request.\<close>

theorem short_write_frees_request:
  assumes "cw_heap c (snd e) = Some req" "cr_event req = CW_WRITE" "e \<in># cw_inflight c"
    and "0 \<le> res" "u64 (res + cr_progress_bytes req) < cr_size req"
    and "cw_complete Q ord e res c = Some c'"
  shows "\<exists>sqe. (sqe, snd e) \<in># cw_inflight c' \<and> cw_complete Q ord (sqe, snd e) res' c' = None"
  using assms by (auto simp: cw_complete_def cw_loop_body_def write_req_continued_def cw_submit_def bind_Some_iff Let_def)

theorem short_write_frees_request_witness:
  "\<exists>c' sqe. cw_complete list_queue ascending (Op_write 5 Nullptr 4, 3) 1 (cw_add_write_req 5 Nullptr 4 ex_sys0) = Some c' \<and>
     cw_complete list_queue ascending (sqe, 3) 3 c' = None"
proof -
  obtain c' where run: "cw_complete list_queue ascending (Op_write 5 Nullptr 4, 3) 1 (cw_add_write_req 5 Nullptr 4 ex_sys0) = Some c'"
    by (simp add: cw_complete_def cw_loop_body_def cw_add_write_req_def cw_new_def cw_submit_def ex_sys0_def new_central_req_def
        write_req_continued_def u64_def)
  from short_write_frees_request [OF _ _ _ _ _ run, where req = "new_central_req\<lparr>cr_buff_ptr := Nullptr, cr_size := 4, cr_fd := 5, cr_event := CW_WRITE\<rparr>" and res' = 3]
  show ?thesis using run
    by (auto simp: cw_add_write_req_def cw_new_def cw_submit_def ex_sys0_def new_central_req_def u64_def)
qed

end
