(* ===== verification/Program_Props.thy ===== *)
theory Program_Props
  imports Program Web_Limits Central_Limits
begin

text \<open>
  What the composition of the program thread and its server threads guarantees, and a run of it that
  ends with a broadcast in the queue of a WebSocket.
\<close>

section \<open>Every run\<close>

text \<open>The items that wait in the queues of a server thread.\<close>

definition queues_item :: "int \<Rightarrow> ('c, 'w) server \<Rightarrow> bool" where
  "queues_item k s \<longleftrightarrow> (\<exists>c\<in>set (clients s). \<exists>wd\<in>set (send_data c). broadcast_info wd = k \<and> k \<noteq> -1)"

lemma queues_item_iff: "queues_item k s \<longleftrightarrow> k \<in> fst ` set_mset (pending_items (clients s))"
proof -
  have "queues_item k s \<longleftrightarrow> (\<exists>p. (k, p) \<in># pending_items (clients s))" by (auto simp: queues_item_def in_pending_iff)
  then show ?thesis by force
qed

lemma count_list_distinct: "distinct xs \<Longrightarrow> count_list xs x = (if x \<in> set xs then 1 else 0)"
  by (induction xs) auto

text \<open>C2. The program refines the broadcast protocol. Whatever requests, files and wake-ups the server
  threads and the program thread are given, and however they are interleaved, what they do to the
  store and to the queues between them is a run of the protocol in which a server thread is only known
  by its contract: it takes one message per wake-up and later reports its item as finished, once. The
  items a running thread holds in that run are those waiting in the write queues of its clients.\<close>

theorem program_refines_protocol:
  assumes "is_fifo Q contents" "program_started Q contents c p0" "prog_run Q ord p0 p"
  shows "\<exists>hs. breach Q ord (started_system c) \<lparr>sys = pr_central p, held = hs\<rparr> \<and>
    (\<forall>i<length (pr_servers p). is_active (pr_servers p ! i) \<longrightarrow>
       distinct (hs ! i) \<and> (\<forall>k. k \<in> set (hs ! i) \<longleftrightarrow> queues_item k (pr_servers p ! i)))"
proof -
  obtain hs where "breach Q ord (started_system c) \<lparr>sys = pr_central p, held = hs\<rparr>" "matches p hs"
    using prog_run_simulated [OF assms] by blast
  moreover from this(2) have "distinct (hs ! i) \<and> (\<forall>k. k \<in> set (hs ! i) \<longleftrightarrow> queues_item k (pr_servers p ! i))"
    if "i < length (pr_servers p)" "is_active (pr_servers p ! i)" for i
    using that by (simp add: matches_def thread_ok_def ledger_def queues_item_iff)
  ultimately show ?thesis by blast
qed

text \<open>C3. No broadcast outlives its bytes. In every state the program reaches, each write that is queued
  in a running server thread for a broadcast item points to the bytes of that item, and the item is
  still in the store of the program thread: it is freed only after the last queued write of it in any
  thread has finished or been dropped.\<close>

theorem broadcast_pointers_live:
  assumes "is_fifo Q contents" "program_started Q contents c p0" "prog_run Q ord p0 p"
    and "s \<in> set (pr_servers p)" "is_active s" "cl \<in> set (clients s)" "wd \<in> set (send_data cl)" "broadcast_info wd \<noteq> -1"
  shows "\<exists>b n. ptr_buff wd = Ptr (Store_slot (broadcast_info wd)) b \<and>
    store_live (cw_store (pr_central p)) (broadcast_info wd) = Some (b, n) \<and> 0 < n"
proof -
  obtain hs where run: "breach Q ord (started_system c) \<lparr>sys = pr_central p, held = hs\<rparr>" and m: "matches p hs"
    using prog_run_simulated [OF assms(1-3)] by blast
  obtain i where i: "i < length (pr_servers p)" "pr_servers p ! i = s" using assms(4) by (auto simp: in_set_conv_nth)
  have "(broadcast_info wd, ptr_buff wd) \<in># pending_items (clients s)" using assms(6-8) by (auto simp: in_pending_iff)
  then have "points_live (cw_store (pr_central p)) (broadcast_info wd) (ptr_buff wd)"
    using m i assms(5) unfolding matches_def thread_ok_def by fastforce
  moreover have "system_ok contents \<lparr>sys = pr_central p, held = hs\<rparr>"
    using reachable_ok [OF assms(1) _ run] assms(2) by (simp add: program_started_def all_ok_def)
  ultimately show ?thesis unfolding points_live_def system_ok_def by force
qed

text \<open>C4. The uses the store counts for an item are those of the program: the messages about it that no
  server thread has taken, the threads in which writes of it are queued, and the reports the program
  thread has not read. An item none of these mentions is not in the store.\<close>

theorem program_uses_counted:
  assumes "is_fifo Q contents" "program_started Q contents c p0" "prog_run Q ord p0 p" "list_all is_active (pr_servers p)"
  shows "(case store_live (cw_store (pr_central p)) k of None \<Rightarrow> 0 | Some (b, n) \<Rightarrow> n) =
    (\<Sum>s\<leftarrow>pr_servers p. item_count k (contents (to_server_queue (web_channel (custom_obj s)))) +
       (if queues_item k s then 1 else 0) + item_count k (contents (to_program_queue (web_channel (custom_obj s)))))"
proof -
  obtain hs where run: "breach Q ord (started_system c) \<lparr>sys = pr_central p, held = hs\<rparr>" and m: "matches p hs"
    using prog_run_simulated [OF assms(1-3)] by blast
  let ?f = "\<lambda>s. item_count k (contents (to_server_queue (web_channel (custom_obj s)))) +
       (if queues_item k s then 1 else 0) + item_count k (contents (to_program_queue (web_channel (custom_obj s))))"
  have "thread_outstanding contents k (thread_channel (pr_servers p ! i)) (hs ! i) = ?f (pr_servers p ! i)"
    if "i < length (pr_servers p)" for i
  proof -
    have "ledger (hs ! i) (pending_items (clients (pr_servers p ! i))) (broadcast_data (custom_obj (pr_servers p ! i)))"
      using m that assms(4) by (simp add: matches_def thread_ok_def list_all_length)
    then have "distinct (hs ! i)" "k \<in> set (hs ! i) \<longleftrightarrow> queues_item k (pr_servers p ! i)" by (auto simp: ledger_def queues_item_iff)
    then have "count_list (hs ! i) k = (if queues_item k (pr_servers p ! i) then 1 else 0)"
      using count_list_distinct by metis
    then show ?thesis by (simp add: thread_outstanding_def thread_channel_def)
  qed
  then have "outstanding contents k \<lparr>sys = pr_central p, held = hs\<rparr> = (\<Sum>i<length (pr_servers p). ?f (pr_servers p ! i))"
    using m by (simp add: outstanding_def matches_def)
  also have "\<dots> = (\<Sum>s\<leftarrow>pr_servers p. ?f s)" by (simp add: sum_list_sum_nth atLeast0LessThan)
  finally have "outstanding contents k \<lparr>sys = pr_central p, held = hs\<rparr> = (\<Sum>s\<leftarrow>pr_servers p. ?f s)" .
  moreover have "system_ok contents \<lparr>sys = pr_central p, held = hs\<rparr>"
    using reachable_ok [OF assms(1) _ run] assms(2) by (simp add: program_started_def all_ok_def)
  ultimately show ?thesis by (simp add: system_ok_def uses_of_def)
qed

section \<open>A run\<close>

text \<open>A program with the small site as its only server thread: a client connects and asks for a WebSocket.\<close>

definition ex_program :: "(unit, message_post_data list web) server \<Rightarrow> message_post_data list program" where
  "ex_program s = \<lparr>pr_central = ex_sys0, pr_servers = [s]\<rparr>"

lemma ex_site_channel:
  "thread_channel ex_site = Central_Limits.ex_channel" "notification_efd ex_site = 4" "notification_count ex_site = 0"
  by (simp_all add: thread_channel_def ex_site_defs Central_Limits.ex_channel_def)

lemma ex_program_started: "program_started list_queue id ex_central (ex_program ex_site)"
proof -
  have "thread_started ex_site" using ex_site_runner unfolding thread_started_def by blast
  moreover have "cw_run_start ex_central = ex_sys0" using ex_started by (simp add: started_system_def)
  ultimately show ?thesis
    using ex_central_fresh ex_site_channel(1) by (simp add: program_started_def ex_program_def ex_central_def)
qed

text \<open>A step of the server thread that leaves its channel alone.\<close>

lemma ex_program_served:
  assumes "prog_run list_queue ord (ex_program ex_site) (ex_program s)" "served list_queue s t"
    and "thread_channel t = Central_Limits.ex_channel" "card (active_websocket_connections (custom_obj s)) \<le> 1"
  shows "prog_run list_queue ord (ex_program ex_site) (ex_program t)"
proof (rule prog_run.more [OF assms(1)])
  have "prog_step list_queue ord (ex_program s) \<lparr>pr_central = ex_sys0\<lparr>cw_threads := (cw_threads ex_sys0)[0 := thread_channel t]\<rparr>,
       pr_servers = [s][0 := t]\<rparr>"
    using prog_step.server [of 0 "ex_program s" list_queue t] assms(2,4)
    by (simp add: ex_program_def within_limits_def ex_sys0_def ex_central_def empty_store_def)
  moreover have "ex_sys0\<lparr>cw_threads := (cw_threads ex_sys0)[0 := thread_channel t]\<rparr> = ex_sys0"
    by (simp add: assms(3) ex_sys0_def ex_central_def)
  ultimately show "prog_step list_queue ord (ex_program s) (ex_program t)" by (simp add: ex_program_def)
qed

lemma ex_program_conn:
  "prog_run list_queue ord (ex_program ex_site) (ex_program ex_site_conn)" "signal ex_site_conn = signal ex_site"
  "thread_channel ex_site_conn = Central_Limits.ex_channel"
proof -
  have o: "ascending = env_order ex_env" by (simp add: ex_env_def)
  have "served list_queue ex_site ex_site_conn"
    by (rule served.intros [OF _ _ _ _ _ _ _ ex_site_accept(1) [unfolded o]]) (auto simp: on_time_def ex_env_def ex_site_defs)
  moreover show "signal ex_site_conn = signal ex_site"
    by (rule web_quiet.complete_quiet [OF ex_site_accept(1)]) (simp_all add: new_request_def ex_site_channel)
  then show "thread_channel ex_site_conn = Central_Limits.ex_channel"
    using ex_site_accept(4) ex_site_channel(3)
    by (simp add: thread_channel_def signal_def new_web_def Web_Runs.ex_channel_def Central_Limits.ex_channel_def)
  ultimately show "prog_run list_queue ord (ex_program ex_site) (ex_program ex_site_conn)"
    using ex_program_served [OF prog_run.here] by (simp add: ex_site_defs)
qed

lemma ex_program_websocket:
  "\<exists>t. prog_run list_queue ord (ex_program ex_site) (ex_program t) \<and> is_active t \<and> site_ok t \<and>
     active_websocket_connections (custom_obj t) = {0} \<and> signal t = signal ex_site \<and> thread_channel t = Central_Limits.ex_channel"
proof -
  let ?CB = "web_callbacks ex_env plain_ops" and ?e = "Op_read 7 0 (int READ_SIZE) 0"
  have o: "ascending = env_order ex_env" by (simp add: ex_env_def)
  obtain t where t: "complete ascending (plain_derived ?CB) ?CB (\<lambda>_. 1) ?e (ex_read_req (-1)) 45 (bytes_of ex_handshake) ex_site_conn = Some t"
      "is_active t" "site_ok t" "active_connections t = {0}" "0 \<in> active_websocket_connections (custom_obj t)"
      "web_channel (custom_obj t) = Web_Runs.ex_channel"
    using ex_handshake_complete by blast
  have "signal t = signal ex_site_conn"
    by (rule web_quiet.complete_quiet [OF t(1)]) (simp_all add: ex_read_req_def ex_site_accept)
  then have sig: "signal t = signal ex_site" using ex_program_conn(2) by simp
  then have ch: "thread_channel t = Central_Limits.ex_channel"
    using t(6) ex_site_channel(3) by (simp add: thread_channel_def signal_def Web_Runs.ex_channel_def Central_Limits.ex_channel_def)
  have "served list_queue ex_site_conn t"
    by (rule served.intros [OF _ _ _ _ _ _ _ t(1) [unfolded o]])
       (use ex_handshake_taken ex_site_accept in \<open>auto simp: on_time_def ex_read_req_def READ_SIZE_def ex_env_def\<close>)
  then have "prog_run list_queue ord (ex_program ex_site) (ex_program t)"
    by (rule ex_program_served [OF ex_program_conn(1) _ ch]) (simp add: ex_site_accept new_web_def)
  moreover have "active_websocket_connections (custom_obj t) = {0}" using t(3-5) by (auto simp: site_ok_def web_ok_def)
  ultimately show ?thesis using t(2,3) sig ch by blast
qed

text \<open>The timer of the program thread broadcasts, and the server thread is woken.\<close>

definition ex_posted :: "message_post_data list channel" where
  "ex_posted = Central_Limits.ex_channel\<lparr>to_server_queue := [ex_post 0], server_efd := 1\<rparr>"

lemma ex_program_tick:
  "prog_step list_queue ascending (ex_program t) \<lparr>pr_central = ex_sys1, pr_servers = [put_channel ex_posted t]\<rparr>"
proof -
  have "cstep list_queue ascending ex_sys0 ex_sys1"
    by (rule cstep.timer [where e = "(Op_read 9 0 8 0, 2)"]) (simp add: ex_timer1 ex_requests)+
  then show ?thesis using prog_step.program [of list_queue ascending "ex_program t" ex_sys1]
    by (simp add: ex_program_def ex_sys1_def ex_posted_def)
qed

lemma ex_program_broadcast:
  "\<exists>u c. prog_run list_queue ascending (ex_program ex_site) \<lparr>pr_central = c, pr_servers = [u]\<rparr> \<and> is_active u \<and>
     queues_item 0 u"
proof -
  let ?CB = "web_callbacks ex_env plain_ops" and ?e = "Op_read 4 0 8 0"
  let ?r = "(new_request NOTIFICATION)\<lparr>rq_read_data := replicate 8 0\<rparr>"
  obtain t where run: "prog_run list_queue ascending (ex_program ex_site) (ex_program t)" and t: "is_active t" "site_ok t"
      "active_websocket_connections (custom_obj t) = {0}" "signal t = signal ex_site"
    using ex_program_websocket by blast
  define v where "v = put_channel ex_posted t"
  have run': "prog_run list_queue ascending (ex_program ex_site) \<lparr>pr_central = ex_sys1, pr_servers = [v]\<rparr>"
    unfolding v_def by (rule prog_run.more [OF run ex_program_tick])
  have efd: "notification_efd t = 4" using t(4) ex_site_channel(2) by (simp add: signal_def)
  have v: "site_ok v" "is_active v" "notification_count v = 1" "notification_efd v = 4" "web_channel (custom_obj v) = ex_posted"
      "active_websocket_connections (custom_obj v) = {0}" "inflight v = inflight t"
    using t(1-3) efd by (simp_all add: v_def put_frame) (simp_all add: put_channel_def ex_posted_def)
  have "(?e, ?r) \<in># filter_mset is_notification (inflight ex_site)"
    by (simp add: is_notification_def ex_site_defs)
  then have "(?e, ?r) \<in># filter_mset is_notification (inflight t)" using t(4) by (simp add: signal_def)
  then have mem: "(?e, ?r) \<in># inflight v" using v(7) by simp
  define u where "u = event_read 4 NOTIFICATION (v\<lparr>inflight := inflight v - {#(?e, ?r)#}, notification_count := 0\<rparr>)"
  have u: "site_ok u" "custom_obj u = custom_obj v" "is_active u"
  proof -
    have "plain_inv (v\<lparr>inflight := inflight v - {#(?e, ?r)#}, notification_count := 0\<rparr>)"
      using plain_ok_remove_other [of "clients v" "active_connections v" "freed_indexes v" "(?e, ?r)" "inflight v - {#(?e, ?r)#}"] v(1) mem
      by (simp add: site_ok_def plain_inv_at_def)
    then have "plain_inv u" unfolding u_def event_read_def by (rule submit_other_ok) (simp add: client_request_def)
    then show "site_ok u" using v(1) by (simp add: site_ok_def u_def event_read_def submit_def)
    show "custom_obj u = custom_obj v" "is_active u" using v(2) by (simp_all add: u_def event_read_def submit_def)
  qed
  have m: "get_from_to_server_queue (env_queue ex_env) (web_channel (custom_obj v)) = (ex_post 0, ex_posted\<lparr>to_server_queue := []\<rparr>)"
    by (simp add: v(5) ex_posted_def ex_env_def get_from_to_server_queue_def list_queue_def)
  obtain x where x: "event_callback ex_env plain_ops u = Some x" "is_active x"
      "pending_items (clients x) = pending_items (clients u) + replicate_mset (card {0 :: int}) (0, msg_buff_ptr (ex_post 0))"
    using event_queued [OF u(1) u(2) [symmetric] v(6) [symmetric] _ m _ _ _ refl refl] u(3) by (auto simp: ex_post_def)
  have "complete (env_order ex_env) (plain_derived ?CB) ?CB (\<lambda>_. 1) ?e ?r 8 (replicate 8 0) v = Some x"
    using x(1) v(4) by (simp add: complete_def fill_request_def consume_eventfd_def loop_body_def client_request_def call0_def
        web_callbacks_def u_def)
  then have "served list_queue v x"
    by (rule served.intros [rotated 7]) (use v mem in \<open>auto simp: on_time_def ex_env_def\<close>)
  then have "prog_step list_queue ascending \<lparr>pr_central = ex_sys1, pr_servers = [v]\<rparr>
      \<lparr>pr_central = ex_sys1\<lparr>cw_threads := (cw_threads ex_sys1)[0 := thread_channel x]\<rparr>, pr_servers = [x]\<rparr>"
    using prog_step.server [of 0 "\<lparr>pr_central = ex_sys1, pr_servers = [v]\<rparr>" list_queue x] v(6)
    by (simp add: within_limits_def ex_sys1_def)
  moreover have "queues_item 0 x" unfolding queues_item_iff x(3) by simp
  ultimately show ?thesis using prog_run.more [OF run'] x(2) by blast
qed

text \<open>The theorems at that state.\<close>

theorem program_refines_protocol_witness:
  "\<exists>u c hs. prog_run list_queue ascending (ex_program ex_site) \<lparr>pr_central = c, pr_servers = [u]\<rparr> \<and>
     breach list_queue ascending (started_system ex_central) \<lparr>sys = c, held = hs\<rparr> \<and> queues_item 0 u \<and> 0 \<in> set (hs ! 0)"
proof -
  obtain u c where u: "prog_run list_queue ascending (ex_program ex_site) \<lparr>pr_central = c, pr_servers = [u]\<rparr>" "is_active u" "queues_item 0 u"
    using ex_program_broadcast by blast
  from program_refines_protocol [OF list_queue_fifo ex_program_started u(1)] u(2,3)
  obtain hs where "breach list_queue ascending (started_system ex_central) \<lparr>sys = c, held = hs\<rparr>" "0 \<in> set (hs ! 0)" by auto
  then show ?thesis using u(1,3) by blast
qed

theorem broadcast_pointers_live_witness:
  "\<exists>u c cl wd b n. prog_run list_queue ascending (ex_program ex_site) \<lparr>pr_central = c, pr_servers = [u]\<rparr> \<and>
     cl \<in> set (clients u) \<and> wd \<in> set (send_data cl) \<and> ptr_buff wd = Ptr (Store_slot 0) b \<and> store_live (cw_store c) 0 = Some (b, n)"
proof -
  obtain u c where u: "prog_run list_queue ascending (ex_program ex_site) \<lparr>pr_central = c, pr_servers = [u]\<rparr>" "is_active u" "queues_item 0 u"
    using ex_program_broadcast by blast
  then obtain cl wd where wd: "cl \<in> set (clients u)" "wd \<in> set (send_data cl)" "broadcast_info wd = 0" by (auto simp: queues_item_def)
  from broadcast_pointers_live [OF list_queue_fifo ex_program_started u(1) _ u(2) wd(1,2)] wd(3)
  obtain b n where "ptr_buff wd = Ptr (Store_slot 0) b" "store_live (cw_store c) 0 = Some (b, n)" by auto
  then show ?thesis using u(1) wd(1,2) by blast
qed

theorem program_uses_counted_witness:
  "\<exists>u c. prog_run list_queue ascending (ex_program ex_site) \<lparr>pr_central = c, pr_servers = [u]\<rparr> \<and>
     (case store_live (cw_store c) 0 of None \<Rightarrow> 0 | Some (b, n) \<Rightarrow> n) =
       item_count 0 (to_server_queue (web_channel (custom_obj u))) + 1 + item_count 0 (to_program_queue (web_channel (custom_obj u)))"
proof -
  obtain u c where u: "prog_run list_queue ascending (ex_program ex_site) \<lparr>pr_central = c, pr_servers = [u]\<rparr>" "is_active u" "queues_item 0 u"
    using ex_program_broadcast by blast
  from program_uses_counted [OF list_queue_fifo ex_program_started u(1), of 0] u show ?thesis by auto
qed

end
