(* ===== verification/Entry.thy ===== *)
theory Entry
  imports Config_Props Program_Props
begin

text \<open>
  The entry point of the program, \<open>main.cpp\<close>, and its signal handler, \<open>utility::sigint_handler\<close> in
  \<open>helper/utility.cpp\<close>, with what pressing Ctrl+C does to a running program.
\<close>

section \<open>The entry point\<close>

datatype signal_number = SIGINT | SIGPIPE

text \<open>What the process does about a signal: the default, which ends it for both, nothing, or the handler.\<close>

datatype signal_action = SIG_DFL | SIG_IGN | SIG_handler

definition sigint_handler :: "signal_number \<Rightarrow> 'q central \<Rightarrow> 'q central" where
  "sigint_handler sig_number c = cw_kill_server c"

text \<open>
  \<open>main\<close> sets the two actions and calls \<open>start_server\<close>; the results of opening, inspecting and
  reading \<open>.config\<close> are arguments, as in \<open>start_server\<close>.
\<close>

definition main ::
    "(signal_number \<Rightarrow> signal_action) \<Rightarrow> int \<Rightarrow> file_kind option \<Rightarrow> string option list \<Rightarrow>
     (signal_number \<Rightarrow> signal_action) \<times> startup option" where
  "main acts file_fd st results = (
     let acts = acts(SIGINT := SIG_handler);
         acts = acts(SIGPIPE := SIG_IGN)
     in (acts, start_server file_fd st results))"

section \<open>Signals in a running program\<close>

text \<open>The delivery of a signal to the program; \<open>None\<close> is the end of the process.\<close>

definition deliver :: "(signal_number \<Rightarrow> signal_action) \<Rightarrow> signal_number \<Rightarrow> 'q program \<Rightarrow> 'q program option" where
  "deliver acts sig p = (case acts sig of
     SIG_DFL \<Rightarrow> None
   | SIG_IGN \<Rightarrow> Some p
   | SIG_handler \<Rightarrow>
       let c = sigint_handler sig (pr_central p)
       in Some \<lparr>pr_central = c, pr_servers = map2 put_channel (cw_threads c) (pr_servers p)\<rparr>)"

fun deliver_all :: "(signal_number \<Rightarrow> signal_action) \<Rightarrow> signal_number list \<Rightarrow> 'q program \<Rightarrow> 'q program option" where
  "deliver_all acts [] p = Some p"
| "deliver_all acts (sig # sigs) p = Option.bind (deliver acts sig p) (deliver_all acts sigs)"

lemma main_actions [simp]: "fst (main acts fd st results) SIGINT = SIG_handler" "fst (main acts fd st results) SIGPIPE = SIG_IGN"
  by (simp_all add: main_def Let_def)

lemma prog_run_ok:
  assumes "is_fifo Q contents" "program_started Q contents c p0" "prog_run Q ord p0 p"
  shows "run_server (pr_central p)" "cw_kill_server_efd (pr_central p) = 0" "list_all tcp_server_set (cw_threads (pr_central p))"
proof -
  obtain hs where "breach Q ord (started_system c) \<lparr>sys = pr_central p, held = hs\<rparr>" using prog_run_simulated [OF assms] by blast
  then have "all_ok contents \<lparr>sys = pr_central p, held = hs\<rparr>"
    using reachable_ok [OF assms(1)] assms(2) unfolding program_started_def by blast
  then show "run_server (pr_central p)" "cw_kill_server_efd (pr_central p) = 0" "list_all tcp_server_set (cw_threads (pr_central p))"
    by (auto simp: all_ok_def system_ok_def channel_ok_def list_all_iff)
qed

text \<open>One signal: the process goes on, and \<open>SIGINT\<close> adds one to the kill event of every server.\<close>

lemma deliver_runs:
  assumes "is_fifo Q contents" "program_started Q contents c p0" "prog_run Q ord p0 p"
  shows "\<exists>p'. deliver (fst (main acts fd st results)) sig p = Some p' \<and> prog_run Q ord p0 p' \<and>
    map server_kill (cw_threads (pr_central p')) =
      map (\<lambda>ch. server_kill ch + (if sig = SIGINT then 1 else 0)) (cw_threads (pr_central p))"
proof (cases sig)
  case SIGINT
  let ?c = "cw_kill_server (pr_central p)"
  have "prog_step Q ord p \<lparr>pr_central = ?c, pr_servers = map2 put_channel (cw_threads ?c) (pr_servers p)\<rparr>"
    by (rule prog_step.program [OF cstep.sigint])
  moreover have "map server_kill (cw_threads ?c) = map (\<lambda>ch. server_kill ch + 1) (cw_threads (pr_central p))"
    using prog_run_ok(3) [OF assms] by (auto simp: cw_kill_server_def list_all_iff)
  ultimately show ?thesis
    using SIGINT prog_run.more [OF assms(3)] by (simp add: deliver_def sigint_handler_def Let_def)
qed (use assms(3) in \<open>simp add: deliver_def\<close>)



end
