(* ===== verification/Spec2Isabelle.thy ===== *)
theory Spec2Isabelle
  imports Data_Store Tcp_Limits Tcp_Drain Ws_Stream Tls_Stream Entry
begin

text \<open>
  A verification development of the liburing web server (all paths are under \<open>src/src\<close>).

  \<^bold>\<open>The program.\<close> \<open>main.cpp\<close> starts \<open>central_web_server\<close>, which reads a configuration file and starts
  a number of server threads. A server thread owns a TCP server, \<open>server<TLS>\<close> or
  \<open>server<NON_TLS>\<close>, which runs an event loop over io_uring: it accepts connections, reads from them,
  writes what has been queued for them, reads files and waits for events. The TCP server hands
  what happens to six callbacks, which belong to the \<open>basic_web_server\<close> of the thread: it parses HTTP
  requests, sends files through a small cache, and keeps WebSockets. The program thread runs an
  event loop of its own; its timer broadcasts a text to all WebSockets through a queue to each server
  thread, with the text in a store that counts its uses, and the threads report back when they have
  sent it.

  \<^bold>\<open>How it is modelled.\<close> An operation is a function from the state of the object to the new state, in the
  option monad: \<open>None\<close> is undefined behaviour (an index out of range, \<open>front()\<close> of an empty
  queue, a read past the end of a buffer), an uncaught exception or the end of the process in
  \<open>fatal_error\<close> where the code that follows is not reached. Machine integers are \<open>int\<close> with the
  conversions \<open>u64\<close>, \<open>u32\<close>, \<open>i32\<close> written where the code converts; bytes are \<open>8 word\<close>. The kernel is the
  multiset \<open>inflight\<close> of submitted operations: \<open>complete\<close> takes one of them, with a result and
  data that \<open>kernel_result\<close> allows, through one iteration of the loop. Results of other system calls,
  the order of an \<open>unordered_set\<close>, wolfSSL, the lock-free queue and SHA1/base64 are parameters.

  \<^bold>\<open>The theories.\<close>
  \<^item> \<open>Prelude\<close>: vectors with checked access, the order of unordered sets, integer conversions.
  \<^item> \<open>Data_Store\<close> (\<open>header/data_store.h\<close>): the two reference-counted stores, the locale
    \<open>refcount_store\<close> of what they promise and its interpretation on both; items live exactly as
    long as their uses.
  \<^item> \<open>Tcp_Base\<close> (\<open>header/server.h\<close>, \<open>tcp_server/server_base.tcc\<close>): the state of a server, requests,
    the listener, the event loop. \<open>Tcp_Plain\<close> (\<open>tcp_server/server_non_tls.cpp\<close>): the plain
    server and its write-queue invariant \<open>plain_inv\<close>. \<open>Tcp_Plain_Steps\<close>: the locale \<open>plain_layer\<close>, the
    contract of the callbacks, under which every completion keeps the invariant; \<open>plain_step\<close> and
    \<open>plain_run\<close>. \<open>Tcp_Pending\<close>: the broadcast items in the write queues, and what each operation does to them. \<open>Tcp_Plain_Props\<close>: the write accounting in every reachable state and the byte stream of a
    client. \<open>Tcp_Drain\<close>: queues are emptied. \<open>Tcp_Limits\<close>: recycled slots, the timer, file
    reads, the listener, and the completions the code mishandles.
  \<^item> \<open>Tls_Server\<close> (\<open>tcp_server/server_tls.cpp\<close>, \<open>tcp_server/wolfssl_callbacks.cpp\<close>): the TLS server over
    a wolfSSL that is a tree of calls to the I/O callbacks. \<open>Tls_Props\<close>, \<open>Tls_Stream\<close>: the
    locale \<open>wolf_stable\<close>, accounting of requests, the streams in both directions, and two ways to lose
    them.
  \<^item> \<open>Web_Cache\<close> (\<open>header/web_server/cache.h\<close>): the file cache. \<open>Web_Cache_Links\<close>, \<open>Web_Cache_Lru\<close>: its
    list and the simulation of an abstract least-recently-used store. \<open>Web_Cache_Props\<close>: refinement,
    the bytes a client sends from stay in place, lock numbers, and what stale files do.
    \<open>Web_Cache_Watch\<close>: what holds in all runs.
  \<^item> \<open>Ws_Codec\<close>, \<open>Ws_Codec_Props\<close>, \<open>Ws_Stream\<close> (\<open>web_server/websockets.tcc\<close>): WebSocket frames against
    the format of RFC 6455, and the reassembly of frames from reads.
  \<^item> \<open>C_Strings\<close>, \<open>Config\<close>, \<open>Config_Props\<close> (\<open>web_server/central_web_server.cpp\<close>, \<open>helper/utility.cpp\<close>):
    \<open>strtok_r\<close>, \<open>stoi\<close>, the configuration file.
  \<^item> \<open>Threads\<close>, \<open>Central\<close>, \<open>Central_Props\<close>, \<open>Central_Items\<close>, \<open>Central_Limits\<close>
    (\<open>header/web_server/web_server.h\<close>, \<open>web_server/central_web_server.cpp\<close>): messages between threads, the program
    thread, and the broadcast protocol \<open>bstep\<close>, in which a server thread is known by its contract
    \<open>tstep\<close> alone; the conservation of the uses of broadcast items over all interleavings, and what the
    messages in the queues point to.
  \<^item> \<open>Http\<close>, \<open>Http_Props\<close> (\<open>web_server/web_server.tcc\<close>, \<open>web_server/callbacks.tcc\<close>): recognising and parsing
    requests, content types, response headers.
  \<^item> \<open>Web_Server\<close> (\<open>web_server/web_server.tcc\<close>, \<open>web_server/websockets.tcc\<close>, \<open>web_server/callbacks.tcc\<close>): the
    web server over a record \<open>tcp_ops\<close> of the TCP operations, with the instances \<open>plain_ops\<close> and
    \<open>tls_ops\<close>, its callbacks, and the start of a server thread.
  \<^item> \<open>Web_Props\<close>, \<open>Web_Site\<close>: the invariant \<open>web_ok\<close> of the object and \<open>site_ok\<close> of both layers; the
    callbacks of the web server interpret \<open>plain_layer\<close>, so every run (\<open>web_run\<close>) keeps both invariants.
    \<open>Web_Runs\<close>: reachable states and broadcasts. \<open>Web_Requests\<close>: from the bytes of a request to the bytes of
    the answer. \<open>Web_Limits\<close>: fragmented messages, closing WebSockets, directories.
  \<^item> \<open>Web_Books\<close>: how the web server keeps the uses of a broadcast (\<open>ledger\<close>): a second interpretation
    \<open>accounts\<close> of \<open>plain_layer\<close> shows that an item is reported when, and only when, its last queued write has
    finished or been dropped. \<open>Web_Signals\<close>: the locale \<open>quiet_layer\<close>, whose interpretation \<open>web_quiet\<close> shows that
    only a notification uses the notification event.
  \<^item> \<open>Program\<close>, \<open>Program_Props\<close>: the composition of the program thread with its server threads, each a web
    server on a plain TCP server (\<open>prog_step\<close>, \<open>prog_run\<close>), the simulation of it by the protocol, and what
    follows: a queued broadcast never outlives its bytes, and the store counts exactly the uses there are.
  \<^item> \<open>Entry\<close> (\<open>main.cpp\<close>, \<open>helper/utility.cpp\<close>): \<open>main\<close>, the actions of signals and the handler of Ctrl+C in a
    running program.

  \<^bold>\<open>Assumptions on the environment.\<close> \<open>on_time\<close>: data is read and files are delivered for connections
  that are still open, and the timer finds only idle connections half-closed; \<open>Tcp_Limits\<close> shows what
  happens otherwise. \<open>posted\<close>, for a web server on its own: a notification is read when a message waits; every
  write to the event descriptor follows a message, and a wake-up takes one. In the composition this is
  proved and not assumed: \<open>served\<close> only says that the kernel completes the read of an event when its
  counter is positive, and that descriptors are distinct. \<open>within_limits\<close> there keeps the index of an item
  and the number of WebSockets within their C++ types, and \<open>program_started\<close> has every server thread set up
  before the loop of the program thread starts. \<open>io_ok\<close> and \<open>is_fifo\<close> state the
  documented behaviour of wolfSSL on a full socket and of the queue. The file that
  \<open>file_request_served\<close> serves fits in one read; \<open>file_read_assembles\<close> is the step for larger ones.

  \<^bold>\<open>Loops.\<close> The loop that empties a queue and the TLS read loop are \<open>partial_function (option)\<close>, as is the
  loop over frames, which really fails to end for one length (\<open>huge_length_never_returns\<close>); all
  other loops are structurally recursive or have a termination proof. No definition uses fuel.

  \<^bold>\<open>Not modelled.\<close> The printing of \<open>fatal_error\<close> and of the signal handler; the creation and joining of \<open>std::thread\<close>s and the set-up and tear-down of the rings, which are calls of the
  libraries; the mutexes around the lists of servers (the operations on these lists are atomic
  here); the vendored \<open>readerwriterqueue\<close>, \<open>test_code.js\<close> and the build scripts. The web server's
  invariants are proved over the plain server; over the TLS server the model of its operations is the
  same, but \<open>server_tls.cpp\<close> does not keep the invariants its callbacks need (\<open>Tls_Stream\<close>), so there is
  no interpretation to state.
\<close>

end
